(* ===== verification/Prelude.thy ===== *)
theory Prelude
  imports Main "HOL-Library.Word" "HOL-Library.State_Monad" "HOL-Library.Monad_Syntax"
begin

unbundle bit_operations_syntax

text \<open>
  The prelude of the development: the names of the machine integers and byte strings of the
  source, the value that stands for undefined behaviour of C++, the collections of rewrite
  rules the component theories fill, and the generic lemmas on words and lists they share.
\<close>

section \<open>Machine types\<close>

type_synonym u8 = "8 word"
type_synonym u16 = "16 word"
type_synonym u32 = "32 word"
type_synonym u64 = "64 word"

type_synonym bytes = "u8 list"

text \<open>
  A \<open>hash_digest\<close> is a \<open>byte_array<32>\<close>, a \<open>short_hash\<close> a \<open>byte_array<20>\<close>; both are byte
  lists here, with their length stated by the well-formedness predicates that need it.
\<close>

type_synonym hash_digest = bytes
type_synonym short_hash = bytes

text \<open>
  The result of C++ code that may not return normally: \<open>Abnormal\<close> stands for undefined behaviour
  (\<open>back()\<close> on an empty vector, an index past the end of one, a shift by the width of the type)
  and for an exception that leaves the function. Each definition that can give it says which.
\<close>

type_synonym 'a outcome = "'a option"

abbreviation Returns :: "'a \<Rightarrow> 'a outcome" where "Returns \<equiv> Some"
abbreviation Abnormal :: "'a outcome" where "Abnormal \<equiv> None"

section \<open>Collections of rewrite rules\<close>

named_theorems codec_simps \<open>reading back what a writer wrote\<close>
named_theorems size_simps \<open>lengths of serialised data\<close>

section \<open>Lists\<close>

lemma length_butlast_last: "xs \<noteq> [] \<Longrightarrow> xs = butlast xs @ [last xs]"
  by simp

lemma sum_list_replicate_nat [simp]: "sum_list (replicate n (x::nat)) = n * x"
  by (induction n) auto

lemma list_all_in_set: "list_all P xs \<longleftrightarrow> (\<forall>x\<in>set xs. P x)"
  by (simp add: list_all_iff)

section \<open>Words\<close>

lemma unat_u8_less [simp]: "unat (b :: u8) < 256"
  using unsigned_less [of b, where ?'a = nat] by simp

lemma unat_ucast_u8 [simp]:
  "unat (ucast (b :: u8) :: u16) = unat b"
  "unat (ucast (b :: u8) :: u32) = unat b"
  "unat (ucast (b :: u8) :: u64) = unat b"
  by (simp_all add: unsigned_ucast_eq take_bit_nat_eq_self_iff less_trans [OF unat_u8_less])

lemma unat_of_nat_u64: "n < 2 ^ 64 \<Longrightarrow> unat (of_nat n :: u64) = n"
  by (simp add: unat_of_nat)

end
