(* ===== verification/Byte_Streams.thy ===== *)
theory Byte_Streams
  imports Prelude
begin

unbundle bit_operations_syntax

text \<open>
  The byte layer: \<open>utility/endian.ipp\<close>, \<open>utility/istream_reader\<close>, \<open>utility/ostream_writer\<close> and
  \<open>utility/variable_uint_size\<close>. A writer is the byte string it appends to the stream. A reader
  is a state: the bytes that are left, whether the stream is still good, and the value that an
  unsuccessful \<open>read\<close> of one byte leaves in the uninitialised local variable of \<open>read_byte\<close>
  (no property depends on it). The model is that of a little-endian host.
\<close>

section \<open>Endian conversion\<close>

text \<open>\<open>to_little_endian\<close>: the loop that peels the low byte off \<open>sizeof(T)\<close> times.\<close>

primrec peel_bytes :: "nat \<Rightarrow> 'a::len word \<Rightarrow> bytes" where
  "peel_bytes 0 n = []"
| "peel_bytes (Suc k) n = ucast n # peel_bytes k (drop_bit 8 n)"

definition sizeof :: "'a::len word itself \<Rightarrow> nat" where
  "sizeof _ = LENGTH('a) div 8"

definition to_little_endian :: "'a::len word \<Rightarrow> bytes" where
  "to_little_endian n = peel_bytes (sizeof TYPE('a word)) n"

definition to_big_endian :: "'a::len word \<Rightarrow> bytes" where
  "to_big_endian n = rev (peel_bytes (sizeof TYPE('a word)) n)"

text \<open>
  \<open>from_little_endian\<close> and \<open>from_big_endian\<close>: the accumulating loops, which stop at \<open>sizeof(T)\<close>
  bytes or at the end of the range.
\<close>

fun from_little_endian_loop :: "nat \<Rightarrow> nat \<Rightarrow> 'a::len word \<Rightarrow> bytes \<Rightarrow> 'a word" where
  "from_little_endian_loop k i out [] = out"
| "from_little_endian_loop k i out (b # bs) =
     (if i < k then from_little_endian_loop k (Suc i) (out OR push_bit (8 * i) (ucast b)) bs
      else out)"

definition from_little_endian :: "bytes \<Rightarrow> 'a::len word" where
  "from_little_endian bs = from_little_endian_loop (sizeof TYPE('a word)) 0 0 bs"

fun from_big_endian_loop :: "nat \<Rightarrow> 'a::len word \<Rightarrow> bytes \<Rightarrow> 'a word" where
  "from_big_endian_loop 0 out bs = out"
| "from_big_endian_loop (Suc i) out [] = out"
| "from_big_endian_loop (Suc i) out (b # bs) =
     from_big_endian_loop i (out OR push_bit (8 * i) (ucast b)) bs"

definition from_big_endian :: "bytes \<Rightarrow> 'a::len word" where
  "from_big_endian bs = from_big_endian_loop (sizeof TYPE('a word)) 0 bs"

section \<open>The stream reader\<close>

record reader =
  source_bytes :: bytes
  source_good :: bool
  source_junk :: u8

type_synonym 'a reads = "(reader, 'a) state"

abbreviation ready :: "bytes \<Rightarrow> u8 \<Rightarrow> reader" where
  "ready bs j \<equiv> \<lparr>source_bytes = bs, source_good = True, source_junk = j\<rparr>"

abbreviation failed :: "bytes \<Rightarrow> u8 \<Rightarrow> reader" where
  "failed bs j \<equiv> \<lparr>source_bytes = bs, source_good = False, source_junk = j\<rparr>"

text \<open>\<open>operator bool\<close>: the stream has not failed.\<close>

definition source_ok :: "bool reads" where
  "source_ok = State (\<lambda>r. (source_good r, r))"

definition is_exhausted :: "bool reads" where
  "is_exhausted = State (\<lambda>r. (source_good r \<and> source_bytes r = [], r))"

text \<open>One unformatted \<open>stream.read(&value, 1)\<close>, where \<open>value\<close> held \<open>old\<close> before.\<close>

definition stream_read1 :: "u8 \<Rightarrow> reader \<Rightarrow> u8 \<times> reader" where
  "stream_read1 old r =
     (if source_good r then
        (case source_bytes r of
           [] \<Rightarrow> (old, r\<lparr>source_good := False\<rparr>)
         | b # bs \<Rightarrow> (b, r\<lparr>source_bytes := bs\<rparr>))
      else (old, r))"

definition read_byte :: "u8 reads" where
  "read_byte = State (\<lambda>r. stream_read1 (source_junk r) r)"

text \<open>\<open>from_little_endian_stream_unsafe\<close> and \<open>from_big_endian_stream_unsafe\<close>.\<close>

fun read_little_endian_loop :: "nat \<Rightarrow> nat \<Rightarrow> 'a::len word \<Rightarrow> reader \<Rightarrow> 'a word \<times> reader" where
  "read_little_endian_loop 0 i out r = (out, r)"
| "read_little_endian_loop (Suc k) i out r =
     (if source_good r then
        (case stream_read1 0 r of (value, r') \<Rightarrow>
           read_little_endian_loop k (Suc i) (out OR push_bit (8 * i) (ucast value)) r')
      else (out, r))"

definition read_little_endian :: "'a::len word reads" where
  "read_little_endian = State (read_little_endian_loop (sizeof TYPE('a word)) 0 0)"

fun read_big_endian_loop :: "nat \<Rightarrow> 'a::len word \<Rightarrow> reader \<Rightarrow> 'a word \<times> reader" where
  "read_big_endian_loop 0 out r = (out, r)"
| "read_big_endian_loop (Suc i) out r =
     (if source_good r then
        (case stream_read1 0 r of (value, r') \<Rightarrow>
           read_big_endian_loop i (out OR push_bit (8 * i) (ucast value)) r')
      else (out, r))"

definition read_big_endian :: "'a::len word reads" where
  "read_big_endian = State (read_big_endian_loop (sizeof TYPE('a word)) 0)"

definition read_2_bytes_little_endian :: "u16 reads" where
  "read_2_bytes_little_endian = read_little_endian"

definition read_4_bytes_little_endian :: "u32 reads" where
  "read_4_bytes_little_endian = read_little_endian"

definition read_8_bytes_little_endian :: "u64 reads" where
  "read_8_bytes_little_endian = read_little_endian"

definition read_2_bytes_big_endian :: "u16 reads" where
  "read_2_bytes_big_endian = read_big_endian"

definition read_4_bytes_big_endian :: "u32 reads" where
  "read_4_bytes_big_endian = read_big_endian"

definition read_8_bytes_big_endian :: "u64 reads" where
  "read_8_bytes_big_endian = read_big_endian"

definition read_variable_uint_little_endian :: "u64 reads" where
  "read_variable_uint_little_endian = do {
     length \<leftarrow> read_byte;
     if length < 0xfd then State_Monad.return (ucast length)
     else if length = 0xfd then do { v \<leftarrow> read_2_bytes_little_endian; State_Monad.return (ucast v) }
     else if length = 0xfe then do { v \<leftarrow> read_4_bytes_little_endian; State_Monad.return (ucast v) }
     else read_8_bytes_little_endian }"

definition read_variable_uint_big_endian :: "u64 reads" where
  "read_variable_uint_big_endian = do {
     length \<leftarrow> read_byte;
     if length < 0xfd then State_Monad.return (ucast length)
     else if length = 0xfd then do { v \<leftarrow> read_2_bytes_big_endian; State_Monad.return (ucast v) }
     else if length = 0xfe then do { v \<leftarrow> read_4_bytes_big_endian; State_Monad.return (ucast v) }
     else read_8_bytes_big_endian }"

text \<open>
  \<open>read_data\<close> allocates \<open>size\<close> zero bytes and reads into them. The local \<open>size\<close> that shadows the
  parameter makes the test for a short read compare a value with itself, so the buffer keeps the
  requested length and the bytes that were not read stay zero.
\<close>

definition read_data :: "nat \<Rightarrow> bytes reads" where
  "read_data n = State (\<lambda>r.
     if n = 0 then ([], r)
     else if \<not> source_good r then (replicate n 0, r)
     else if n \<le> length (source_bytes r)
       then (take n (source_bytes r), r\<lparr>source_bytes := drop n (source_bytes r)\<rparr>)
     else (source_bytes r @ replicate (n - length (source_bytes r)) 0,
           r\<lparr>source_bytes := [], source_good := False\<rparr>))"

text \<open>
  \<open>read_data(uint8_t*, size)\<close> reads into a buffer of the caller, whose bytes that a failing read
  does not reach keep their indeterminate value.
\<close>

definition read_buffer :: "nat \<Rightarrow> bytes reads" where
  "read_buffer n = State (\<lambda>r.
     if n = 0 then ([], r)
     else if \<not> source_good r then (replicate n (source_junk r), r)
     else if n \<le> length (source_bytes r)
       then (take n (source_bytes r), r\<lparr>source_bytes := drop n (source_bytes r)\<rparr>)
     else (source_bytes r @ replicate (n - length (source_bytes r)) (source_junk r),
           r\<lparr>source_bytes := [], source_good := False\<rparr>))"

definition read_data_to_eof :: "bytes reads" where
  "read_data_to_eof = State (\<lambda>r.
     if source_good r then (source_bytes r, r\<lparr>source_bytes := []\<rparr>) else ([], r))"

primrec read_bytes :: "nat \<Rightarrow> bytes reads" where
  "read_bytes 0 = State_Monad.return []"
| "read_bytes (Suc n) = do { b \<leftarrow> read_byte; bs \<leftarrow> read_bytes n; State_Monad.return (b # bs) }"

abbreviation (input) hash_size :: nat where "hash_size \<equiv> 32"
abbreviation (input) short_hash_size :: nat where "short_hash_size \<equiv> 20"
abbreviation (input) mini_hash_size :: nat where "mini_hash_size \<equiv> 6"

definition read_hash :: "hash_digest reads" where
  "read_hash = read_bytes hash_size"

definition read_short_hash :: "short_hash reads" where
  "read_short_hash = read_bytes short_hash_size"

definition read_mini_hash :: "bytes reads" where
  "read_mini_hash = read_bytes mini_hash_size"

text \<open>\<open>std::string(begin, end).c_str()\<close> copied back into a string: cut at the first zero byte.\<close>

definition c_str :: "bytes \<Rightarrow> bytes" where
  "c_str s = takeWhile (\<lambda>b. b \<noteq> 0) s"

definition read_fixed_string :: "nat \<Rightarrow> bytes reads" where
  "read_fixed_string n = do { s \<leftarrow> read_data n; State_Monad.return (c_str s) }"

definition read_string :: "bytes reads" where
  "read_string = do {
     size \<leftarrow> read_variable_uint_little_endian;
     read_fixed_string (unat size) }"

section \<open>The stream writer\<close>

definition write_byte :: "u8 \<Rightarrow> bytes" where
  "write_byte v = [v]"

definition write_little_endian :: "'a::len word \<Rightarrow> bytes" where
  "write_little_endian v = peel_bytes (sizeof TYPE('a word)) v"

definition write_2_bytes_little_endian :: "u16 \<Rightarrow> bytes" where
  "write_2_bytes_little_endian v = write_little_endian v"

definition write_4_bytes_little_endian :: "u32 \<Rightarrow> bytes" where
  "write_4_bytes_little_endian v = write_little_endian v"

definition write_8_bytes_little_endian :: "u64 \<Rightarrow> bytes" where
  "write_8_bytes_little_endian v = write_little_endian v"

definition write_2_bytes_big_endian :: "u16 \<Rightarrow> bytes" where
  "write_2_bytes_big_endian v = to_big_endian v"

definition write_4_bytes_big_endian :: "u32 \<Rightarrow> bytes" where
  "write_4_bytes_big_endian v = to_big_endian v"

definition write_8_bytes_big_endian :: "u64 \<Rightarrow> bytes" where
  "write_8_bytes_big_endian v = to_big_endian v"

definition write_variable_uint_little_endian :: "u64 \<Rightarrow> bytes" where
  "write_variable_uint_little_endian value =
     (if value < 0xfd then write_byte (ucast value)
      else if value \<le> 0xffff then write_byte 0xfd @ write_2_bytes_little_endian (ucast value)
      else if value \<le> 0xffffffff then write_byte 0xfe @ write_4_bytes_little_endian (ucast value)
      else write_byte 0xff @ write_8_bytes_little_endian value)"

definition write_variable_uint_big_endian :: "u64 \<Rightarrow> bytes" where
  "write_variable_uint_big_endian value =
     (if value < 0xfd then write_byte (ucast value)
      else if value \<le> 0xffff then write_byte 0xfd @ write_2_bytes_big_endian (ucast value)
      else if value \<le> 0xffffffff then write_byte 0xfe @ write_4_bytes_big_endian (ucast value)
      else write_byte 0xff @ write_8_bytes_big_endian value)"

definition write_fixed_string :: "bytes \<Rightarrow> nat \<Rightarrow> bytes" where
  "write_fixed_string value n =
     (let min_size = min n (length value) in take min_size value @ replicate (n - min_size) 0)"

definition write_string :: "bytes \<Rightarrow> bytes" where
  "write_string value = write_variable_uint_little_endian (of_nat (length value)) @ value"

definition variable_uint_size :: "u64 \<Rightarrow> nat" where
  "variable_uint_size value =
     (if value < 0xfd then 1
      else if value \<le> 0xffff then 3
      else if value \<le> 0xffffffff then 5
      else 9)"

section \<open>Bytes of a word\<close>

lemma low_byte_or_rest:
  fixes n :: "'a::len word"
  shows "push_bit (8 * i) (ucast (ucast n :: u8)) OR push_bit (8 + 8 * i) (take_bit (8 * k) (drop_bit 8 n))
         = push_bit (8 * i) (take_bit (8 + 8 * k) n)"
proof (rule bit_word_eqI)
  fix m assume m: "m < LENGTH('a)"
  consider "m < 8 * i" | "8 * i \<le> m" "m < 8 + 8 * i" | "8 + 8 * i \<le> m"
    by linarith
  then show "bit (push_bit (8 * i) (ucast (ucast n :: u8)) OR push_bit (8 + 8 * i) (take_bit (8 * k) (drop_bit 8 n))) m
     = bit (push_bit (8 * i) (take_bit (8 + 8 * k) n)) m"
  proof cases
    case 3
    then obtain d where "m = 8 + 8 * i + d" using le_Suc_ex by blast
    with m show ?thesis by (auto simp: bit_simps)
  qed (use m in \<open>auto simp: bit_simps\<close>)
qed

section \<open>Reading back what was written\<close>

lemma stream_read1_ready [simp]:
  "stream_read1 old (ready (b # bs) j) = (b, ready bs j)"
  "stream_read1 old (ready [] j) = (old, failed [] j)"
  "stream_read1 old (failed bs j) = (old, failed bs j)"
  by (simp_all add: stream_read1_def)

lemma read_little_endian_loop_peel:
  "read_little_endian_loop k i out (ready (peel_bytes k n @ rest) j)
     = (out OR push_bit (8 * i) (take_bit (8 * k) n), ready rest j)"
proof (induction k arbitrary: i out n)
  case 0
  then show ?case by simp
next
  case (Suc k)
  then show ?case
    using low_byte_or_rest [of i n k] by (simp add: or.assoc)
qed

lemma peel_bytes_snoc: "peel_bytes (Suc i) n = peel_bytes i n @ [ucast (drop_bit (8 * i) n)]"
proof (induction i arbitrary: n)
  case (Suc i)
  have "peel_bytes (Suc (Suc i)) n = ucast n # peel_bytes (Suc i) (drop_bit 8 n)" by simp
  also have "\<dots> = ucast n # peel_bytes i (drop_bit 8 n) @ [ucast (drop_bit (8 * i) (drop_bit 8 n))]"
    by (simp only: Suc.IH)
  finally show ?case by (simp add: add.commute)
qed simp

lemma high_byte_or_rest:
  fixes n :: "'a::len word"
  shows "push_bit (8 * i) (ucast (ucast (drop_bit (8 * i) n) :: u8)) OR take_bit (8 * i) n
         = take_bit (8 + 8 * i) n"
proof (rule bit_word_eqI)
  fix m assume m: "m < LENGTH('a)"
  show "bit (push_bit (8 * i) (ucast (ucast (drop_bit (8 * i) n) :: u8)) OR take_bit (8 * i) n) m
     = bit (take_bit (8 + 8 * i) n) m"
    using m by (cases "m < 8 * i") (auto simp: bit_simps)
qed

lemma read_big_endian_loop_peel:
  "read_big_endian_loop k out (ready (rev (peel_bytes k n) @ rest) j)
     = (out OR take_bit (8 * k) n, ready rest j)"
proof (induction k arbitrary: out)
  case 0
  then show ?case by simp
next
  case (Suc k)
  then show ?case
    using high_byte_or_rest [of k n]
    by (simp only: peel_bytes_snoc rev_append) (simp add: or.assoc)
qed

lemma from_little_endian_loop_peel:
  "i + k \<le> s \<Longrightarrow> from_little_endian_loop s i out (peel_bytes k n)
     = out OR push_bit (8 * i) (take_bit (8 * k) n)"
proof (induction k arbitrary: i out n)
  case 0
  then show ?case by simp
next
  case (Suc k)
  then show ?case
    using low_byte_or_rest [of i n k] by (simp add: or.assoc)
qed

lemma from_big_endian_loop_peel:
  "from_big_endian_loop k out (rev (peel_bytes k n)) = out OR take_bit (8 * k) n"
proof (induction k arbitrary: out)
  case 0
  then show ?case by simp
next
  case (Suc k)
  then show ?case
    using high_byte_or_rest [of k n]
    by (simp only: peel_bytes_snoc rev_append) (simp add: or.assoc)
qed

lemma length_peel_bytes [simp]: "length (peel_bytes k n) = k"
  by (induction k arbitrary: n) auto

lemma sizeof_simps [simp]:
  "sizeof TYPE(8 word) = 1" "sizeof TYPE(16 word) = 2" "sizeof TYPE(32 word) = 4" "sizeof TYPE(64 word) = 8"
  by (simp_all add: sizeof_def)

lemma take_bit_full [simp]: "LENGTH('a) \<le> m \<Longrightarrow> take_bit m (n :: 'a::len word) = n"
  by (rule bit_word_eqI) (auto simp: bit_simps)

lemma run_read_byte [codec_simps]:
  "run_state read_byte (ready (b # bs) j) = (b, ready bs j)"
  by (simp add: read_byte_def)

lemma run_source_ok [simp]: "run_state source_ok r = (source_good r, r)"
  by (simp add: source_ok_def)

lemma run_read_word [codec_simps]:
  "run_state read_2_bytes_little_endian (ready (write_2_bytes_little_endian a @ rest) j) = (a, ready rest j)"
  "run_state read_4_bytes_little_endian (ready (write_4_bytes_little_endian b @ rest) j) = (b, ready rest j)"
  "run_state read_8_bytes_little_endian (ready (write_8_bytes_little_endian c @ rest) j) = (c, ready rest j)"
  "run_state read_2_bytes_big_endian (ready (write_2_bytes_big_endian a @ rest) j) = (a, ready rest j)"
  "run_state read_4_bytes_big_endian (ready (write_4_bytes_big_endian b @ rest) j) = (b, ready rest j)"
  "run_state read_8_bytes_big_endian (ready (write_8_bytes_big_endian c @ rest) j) = (c, ready rest j)"
  by (simp_all add: read_2_bytes_little_endian_def read_4_bytes_little_endian_def
      read_8_bytes_little_endian_def write_2_bytes_little_endian_def write_4_bytes_little_endian_def
      write_8_bytes_little_endian_def read_little_endian_def write_little_endian_def
      read_little_endian_loop_peel read_2_bytes_big_endian_def read_4_bytes_big_endian_def
      read_8_bytes_big_endian_def write_2_bytes_big_endian_def write_4_bytes_big_endian_def
      write_8_bytes_big_endian_def read_big_endian_def to_big_endian_def read_big_endian_loop_peel
      del: read_little_endian_loop.simps read_big_endian_loop.simps)

lemma length_write_word [size_simps]:
  "length (write_byte d) = 1"
  "length (write_2_bytes_little_endian a) = 2" "length (write_4_bytes_little_endian b) = 4"
  "length (write_8_bytes_little_endian c) = 8"
  "length (write_2_bytes_big_endian a) = 2" "length (write_4_bytes_big_endian b) = 4"
  "length (write_8_bytes_big_endian c) = 8"
  by (simp_all add: write_byte_def write_2_bytes_little_endian_def write_4_bytes_little_endian_def
      write_8_bytes_little_endian_def write_little_endian_def to_big_endian_def
      write_2_bytes_big_endian_def write_4_bytes_big_endian_def write_8_bytes_big_endian_def)

text \<open>A value that fits the narrower width survives the round through it.\<close>

lemma ucast_ucast_fits:
  fixes v :: "'a::len word"
  assumes "unat v < 2 ^ LENGTH('b::len)"
  shows "(ucast (ucast v :: 'b word) :: 'a word) = v"
proof -
  have "unat (ucast (ucast v :: 'b word) :: 'a word) = unat v"
    using assms unsigned_less [of v, where ?'a = nat]
    by (simp add: unsigned_ucast_eq unsigned_take_bit_eq take_bit_nat_eq_self_iff)
  then show ?thesis by (simp only: word_unat_eq_iff)
qed

lemma run_read_variable_uint [codec_simps]:
  "run_state read_variable_uint_little_endian (ready (write_variable_uint_little_endian v @ rest) j)
     = (v, ready rest j)"
  "run_state read_variable_uint_big_endian (ready (write_variable_uint_big_endian v @ rest) j)
     = (v, ready rest j)"
proof -
  have u8: "(ucast (ucast v :: u8) :: u64) = v" if "v < 0xfd"
    by (rule ucast_ucast_fits) (use that in \<open>simp add: word_less_nat_alt\<close>)
  have u16: "(ucast (ucast v :: u16) :: u64) = v" if "v \<le> 0xffff"
    by (rule ucast_ucast_fits) (use that in \<open>simp add: word_le_nat_alt\<close>)
  have u32: "(ucast (ucast v :: u32) :: u64) = v" if "v \<le> 0xffffffff"
    by (rule ucast_ucast_fits) (use that in \<open>simp add: word_le_nat_alt\<close>)
  have small: "(ucast v :: u8) < 0xfd" if "v < 0xfd"
    using that
    by (simp add: word_less_nat_alt unsigned_ucast_eq le_less_trans [OF take_bit_nat_less_eq_self])
  show "run_state read_variable_uint_little_endian (ready (write_variable_uint_little_endian v @ rest) j)
     = (v, ready rest j)"
    "run_state read_variable_uint_big_endian (ready (write_variable_uint_big_endian v @ rest) j)
     = (v, ready rest j)"
    by (auto simp: read_variable_uint_little_endian_def write_variable_uint_little_endian_def
        read_variable_uint_big_endian_def write_variable_uint_big_endian_def write_byte_def
        codec_simps u8 u16 u32 small)
qed

lemma length_write_variable_uint [size_simps]:
  "length (write_variable_uint_little_endian v) = variable_uint_size v"
  "length (write_variable_uint_big_endian v) = variable_uint_size v"
  by (simp_all add: write_variable_uint_little_endian_def write_variable_uint_big_endian_def
      variable_uint_size_def size_simps)

lemma run_read_data [codec_simps]:
  "length bs = n \<Longrightarrow> run_state (read_data n) (ready (bs @ rest) j) = (bs, ready rest j)"
  by (auto simp: read_data_def)

lemma run_read_buffer [codec_simps]:
  "length bs = n \<Longrightarrow> run_state (read_buffer n) (ready (bs @ rest) j) = (bs, ready rest j)"
  by (auto simp: read_buffer_def)

lemma run_read_bytes [codec_simps]:
  "length bs = n \<Longrightarrow> run_state (read_bytes n) (ready (bs @ rest) j) = (bs, ready rest j)"
  by (induction n arbitrary: bs) (auto simp: length_Suc_conv codec_simps)

lemma run_read_hash [codec_simps]:
  "length h = 32 \<Longrightarrow> run_state read_hash (ready (h @ rest) j) = (h, ready rest j)"
  "length s = 20 \<Longrightarrow> run_state read_short_hash (ready (s @ rest) j) = (s, ready rest j)"
  "length m = 6 \<Longrightarrow> run_state read_mini_hash (ready (m @ rest) j) = (m, ready rest j)"
  by (simp_all add: read_hash_def read_short_hash_def read_mini_hash_def codec_simps)

text \<open>
  A string survives the wire when it holds no zero byte and its length fits the prefix.
\<close>

definition wire_string :: "bytes \<Rightarrow> bool" where
  "wire_string s \<longleftrightarrow> 0 \<notin> set s \<and> length s < 2 ^ 64"

lemma c_str_id: "0 \<notin> set s \<Longrightarrow> c_str s = s"
  by (metis (mono_tags, lifting) c_str_def takeWhile_eq_all_conv)

lemma c_str_padded: "0 \<notin> set s \<Longrightarrow> c_str (s @ replicate n 0) = s"
  by (induction s) (simp_all add: c_str_def takeWhile_replicate)

lemma run_read_string [codec_simps]:
  "wire_string s \<Longrightarrow> run_state read_string (ready (write_string s @ rest) j) = (s, ready rest j)"
  by (simp add: wire_string_def read_string_def write_string_def read_fixed_string_def
      codec_simps unat_of_nat_u64 c_str_id)

lemma run_read_fixed_string [codec_simps]:
  "0 \<notin> set s \<Longrightarrow> length s \<le> n \<Longrightarrow>
     run_state (read_fixed_string n) (ready (write_fixed_string s n @ rest) j) = (s, ready rest j)"
  by (simp add: read_fixed_string_def write_fixed_string_def Let_def codec_simps c_str_padded
      flip: append_assoc)

lemma length_write_string [size_simps]:
  "length (write_string s) = variable_uint_size (of_nat (length s)) + length s"
  "length (write_fixed_string s n) = n"
  by (simp_all add: write_string_def write_fixed_string_def Let_def size_simps)

section \<open>Byte strings as numbers\<close>

primrec le_nat :: "bytes \<Rightarrow> nat" where
  "le_nat [] = 0"
| "le_nat (b # bs) = unat b + 256 * le_nat bs"

lemma le_nat_append [simp]: "le_nat (xs @ ys) = le_nat xs + 256 ^ length xs * le_nat ys"
  by (induction xs) (auto simp: algebra_simps)

lemma le_nat_less: "le_nat bs < 256 ^ length bs"
proof (induction bs)
  case (Cons b bs)
  have "unat b + 256 * le_nat bs < 256 + 256 * le_nat bs" by simp
  also have "\<dots> \<le> 256 * 256 ^ length bs" using Cons.IH by simp
  finally show ?case by simp
qed simp

lemma le_nat_last:
  "bs \<noteq> [] \<Longrightarrow> le_nat bs = le_nat (butlast bs) + 256 ^ (length bs - 1) * unat (last bs)"
  by (metis append_butlast_last_id le_nat.simps le_nat_append length_butlast
      add.right_neutral mult_zero_right)

lemma pow256: "(256::nat) ^ k = 2 ^ (8 * k)"
  by (simp add: power_mult)

lemma take_bit_of_nat_less: "n < 2 ^ m \<Longrightarrow> take_bit m (of_nat n :: 'a::len word) = of_nat n"
  by (simp add: take_bit_of_nat take_bit_nat_eq_self)

lemma peel_bytes_le_nat:
  "8 * length bs \<le> LENGTH('a::len) \<Longrightarrow> peel_bytes (length bs) (of_nat (le_nat bs) :: 'a word) = bs"
proof (induction bs)
  case (Cons b bs)
  let ?n = "le_nat (b # bs)"
  have "?n < 256 ^ length (b # bs)" by (rule le_nat_less)
  also have "(256::nat) ^ length (b # bs) = 2 ^ (8 * length (b # bs))" by (rule pow256)
  also have "\<dots> \<le> 2 ^ LENGTH('a)" using Cons.prems by (rule power_increasing) simp
  finally have lt: "?n < 2 ^ LENGTH('a)" .
  then have u: "unat (of_nat ?n :: 'a word) = ?n"
    by (simp only: unat_of_nat mod_less)
  have "unat (ucast (of_nat ?n :: 'a word) :: u8) = unat b"
    by (simp only: unsigned_ucast_eq u) (simp add: take_bit_eq_mod unat_u8_less)
  then have 1: "(ucast (of_nat ?n :: 'a word) :: u8) = b" by (simp only: word_unat_eq_iff)
  have "unat (drop_bit 8 (of_nat ?n :: 'a word)) = ?n div 256"
    by (simp only: unsigned_drop_bit_eq u take_bit_nat_eq_self [OF lt]) (simp add: drop_bit_eq_div)
  also have "\<dots> = le_nat bs" using unat_u8_less [of b] by simp
  finally have "drop_bit 8 (of_nat ?n :: 'a word) = of_nat (le_nat bs)"
    by (metis of_nat_unat ucast_id)
  with 1 Cons show ?case by (simp del: le_nat.simps)
qed simp

section \<open>Integers in memory\<close>

lemma from_to_little_endian [simp]:
  "from_little_endian (to_little_endian (n :: u64)) = n" "from_little_endian (to_little_endian (k :: u32)) = k"
  using from_little_endian_loop_peel [of 0 8 8 0 n] from_little_endian_loop_peel [of 0 4 4 0 k]
  by (simp_all add: from_little_endian_def to_little_endian_def)

lemma length_to_little_endian [simp]:
  "length (to_little_endian (n :: u64)) = 8" "length (to_little_endian (k :: u32)) = 4"
  by (simp_all add: to_little_endian_def)

end
