(* ===== verification/Codec.thy ===== *)
theory Codec
  imports Byte_Streams
begin

text \<open>
  The contract of the wire objects. Every object of \<open>bitcoin/chain\<close> and \<open>bitcoin/message\<close> has a
  \<open>to_data(writer&)\<close> and a \<open>from_data(reader&)\<close> that returns whether it succeeded. The locale
  \<open>wire_object\<close> states what the rest of the program relies on: reading what was written gives
  the object back and leaves the following bytes alone, a successful read leaves the stream
  good, and the outcome depends only on the bytes that were consumed. From these laws the locale
  derives, once for all objects, that encodings are prefix free, that a truncated encoding is
  refused, and that a counted sequence of objects is again such an object.
\<close>

section \<open>Reads that depend on the bytes they consume only\<close>

definition local_read :: "'a reads \<Rightarrow> bool" where
  "local_read m \<longleftrightarrow>
     (\<forall>r. source_good (snd (run_state m r)) \<longrightarrow> source_good r) \<and>
     (\<forall>bs j x r' ext. run_state m (ready bs j) = (x, r') \<longrightarrow> source_good r' \<longrightarrow>
        run_state m (ready (bs @ ext) j) = (x, r'\<lparr>source_bytes := source_bytes r' @ ext\<rparr>))"

named_theorems local_intros \<open>locality of reads\<close>

lemma local_readI:
  assumes "\<And>r. source_good (snd (run_state m r)) \<Longrightarrow> source_good r"
    and "\<And>bs j x r' ext. run_state m (ready bs j) = (x, r') \<Longrightarrow> source_good r' \<Longrightarrow>
        run_state m (ready (bs @ ext) j) = (x, r'\<lparr>source_bytes := source_bytes r' @ ext\<rparr>)"
  shows "local_read m"
  using assms by (auto simp: local_read_def)

lemma local_read_sticky:
  "local_read m \<Longrightarrow> run_state m r = (x, r') \<Longrightarrow> source_good r' \<Longrightarrow> source_good r"
  by (metis local_read_def snd_conv)

lemma local_read_extend:
  "local_read m \<Longrightarrow> run_state m (ready bs j) = (x, r') \<Longrightarrow> source_good r' \<Longrightarrow>
     run_state m (ready (bs @ ext) j) = (x, r'\<lparr>source_bytes := source_bytes r' @ ext\<rparr>)"
  by (simp add: local_read_def)

lemma good_reader: "source_good r \<Longrightarrow> r = ready (source_bytes r) (source_junk r)"
  by (cases r) simp

lemma local_return [local_intros]: "local_read (State_Monad.return x)"
  by (auto intro: local_readI)

lemma local_bind [local_intros]:
  assumes m: "local_read m" and f: "\<And>x. local_read (f x)"
  shows "local_read (State_Monad.bind m f)"
proof (rule local_readI)
  fix r
  assume "source_good (snd (run_state (State_Monad.bind m f) r))"
  then show "source_good r"
    using local_read_sticky [OF m] local_read_sticky [OF f]
    by (auto split: prod.splits) (metis prod.collapse)
next
  fix bs j y r' ext
  assume run: "run_state (State_Monad.bind m f) (ready bs j) = (y, r')" and good: "source_good r'"
  obtain x r1 where 1: "run_state m (ready bs j) = (x, r1)" by fastforce
  with run have 2: "run_state (f x) r1 = (y, r')" by simp
  have g1: "source_good r1" using local_read_sticky [OF f 2 good] .
  have m': "run_state m (ready (bs @ ext) j) = (x, ready (source_bytes r1 @ ext) (source_junk r1))"
    using local_read_extend [OF m 1 g1] good_reader [OF g1] by (metis reader.update_convs(1))
  have "run_state (f x) (ready (source_bytes r1) (source_junk r1)) = (y, r')"
    using 2 good_reader [OF g1] by simp
  from local_read_extend [OF f this good] m'
  show "run_state (State_Monad.bind m f) (ready (bs @ ext) j)
          = (y, r'\<lparr>source_bytes := source_bytes r' @ ext\<rparr>)"
    by simp
qed

lemma local_if [local_intros]:
  "local_read m \<Longrightarrow> local_read n \<Longrightarrow> local_read (if b then m else n)"
  by simp

lemma local_case_prod [local_intros]:
  "(\<And>a b. local_read (f a b)) \<Longrightarrow> local_read (case p of (a, b) \<Rightarrow> f a b)"
  by (cases p) simp

lemma local_source_ok [local_intros]: "local_read source_ok"
  by (auto simp: source_ok_def intro: local_readI)

lemma local_read_byte [local_intros]: "local_read read_byte"
  by (rule local_readI)
    (auto simp: read_byte_def stream_read1_def split: list.splits if_splits)

lemma local_read_bytes [local_intros]: "local_read (read_bytes n)"
  by (induction n) (auto intro: local_intros)

lemma local_read_data [local_intros]: "local_read (read_data n)"
  by (rule local_readI) (auto simp: read_data_def split: if_splits)

lemma local_read_buffer [local_intros]: "local_read (read_buffer n)"
  by (rule local_readI) (auto simp: read_buffer_def split: if_splits)

lemma local_read_cong:
  assumes "\<And>bs j. run_state m (ready bs j) = run_state n (ready bs j)"
    and "\<And>r. \<not> source_good r \<Longrightarrow> \<not> source_good (snd (run_state m r))"
    and "local_read n"
  shows "local_read m"
  using assms by (auto simp: local_read_def)

lemma local_stream_read1: "local_read (State (stream_read1 old))"
  by (rule local_readI) (auto simp: stream_read1_def split: list.splits if_splits)

lemma local_little_endian_loop: "local_read (State (read_little_endian_loop k i out))"
proof (induction k arbitrary: i out)
  case 0
  show ?case by (rule local_readI) auto
next
  case (Suc k)
  show ?case
    by (rule local_read_cong [OF _ _ local_bind [OF local_stream_read1 Suc.IH]]) auto
qed

lemma local_big_endian_loop: "local_read (State (read_big_endian_loop k out))"
proof (induction k arbitrary: out)
  case 0
  show ?case by (rule local_readI) auto
next
  case (Suc k)
  show ?case
    by (rule local_read_cong [OF _ _ local_bind [OF local_stream_read1 Suc.IH]]) auto
qed

lemma local_read_endian [local_intros]:
  "local_read (read_little_endian :: 'a::len word reads)"
  "local_read (read_big_endian :: 'a::len word reads)"
  by (simp_all add: read_little_endian_def read_big_endian_def local_little_endian_loop
      local_big_endian_loop)

lemma local_read_words [local_intros]:
  "local_read read_2_bytes_little_endian" "local_read read_4_bytes_little_endian"
  "local_read read_8_bytes_little_endian" "local_read read_2_bytes_big_endian"
  "local_read read_4_bytes_big_endian" "local_read read_8_bytes_big_endian"
  by (simp_all add: read_2_bytes_little_endian_def read_4_bytes_little_endian_def
      read_8_bytes_little_endian_def read_2_bytes_big_endian_def read_4_bytes_big_endian_def
      read_8_bytes_big_endian_def local_read_endian)

lemma local_read_variable_uint [local_intros]:
  "local_read read_variable_uint_little_endian" "local_read read_variable_uint_big_endian"
  unfolding read_variable_uint_little_endian_def read_variable_uint_big_endian_def
  by (intro local_intros)+

lemma local_read_hash [local_intros]:
  "local_read read_hash" "local_read read_short_hash" "local_read read_mini_hash"
  by (simp_all add: read_hash_def read_short_hash_def read_mini_hash_def local_intros)

lemma local_read_string [local_intros]:
  "local_read (read_fixed_string n)" "local_read read_string"
  unfolding read_string_def read_fixed_string_def by (intro local_intros)+

section \<open>What a successful read of an integer consumed\<close>

lemma little_endian_loop_failed:
  "\<not> source_good r \<Longrightarrow> \<not> source_good (snd (read_little_endian_loop k i out r))"
  using local_little_endian_loop [of k i out] by (auto simp: local_read_def)

lemma little_endian_loop_short:
  "length bs < k \<Longrightarrow> \<not> source_good (snd (read_little_endian_loop k i out (ready bs j)))"
proof (induction k arbitrary: i out bs)
  case (Suc k)
  then show ?case by (cases bs) (auto simp: little_endian_loop_failed)
qed simp

lemma read_little_endian_consumed:
  fixes v :: "'a::len word"
  assumes "run_state read_little_endian (ready bs j) = (v, r)" "source_good r" "8 dvd LENGTH('a)"
  shows "bs = write_little_endian v @ source_bytes r" "r = ready (source_bytes r) j"
proof -
  let ?k = "sizeof TYPE('a word)"
  have k: "8 * ?k = LENGTH('a)" using assms(3) by (simp add: sizeof_def)
  have "?k \<le> length bs"
    using assms(1,2) little_endian_loop_short [of bs ?k 0 "0 :: 'a word" j]
    by (fastforce simp: read_little_endian_def not_le)
  define w :: "'a word" where "w = of_nat (le_nat (take ?k bs))"
  have p: "peel_bytes ?k w = take ?k bs"
    using peel_bytes_le_nat [of "take ?k bs", where ?'a = 'a] k \<open>?k \<le> length bs\<close>
    by (simp add: w_def min_absorb2)
  have "run_state read_little_endian (ready (peel_bytes ?k w @ drop ?k bs) j) = (w, ready (drop ?k bs) j)"
    using k by (simp add: read_little_endian_def read_little_endian_loop_peel)
  then have "w = v" "r = ready (drop ?k bs) j" using assms(1) p by auto
  then show "bs = write_little_endian v @ source_bytes r" "r = ready (source_bytes r) j"
    using p by (simp_all add: write_little_endian_def)
qed

lemma read_words_consumed:
  "run_state read_2_bytes_little_endian (ready bs j) = (a, r) \<Longrightarrow> source_good r \<Longrightarrow>
     bs = write_2_bytes_little_endian a @ source_bytes r \<and> r = ready (source_bytes r) j"
  "run_state read_4_bytes_little_endian (ready bs j) = (b, r) \<Longrightarrow> source_good r \<Longrightarrow>
     bs = write_4_bytes_little_endian b @ source_bytes r \<and> r = ready (source_bytes r) j"
  "run_state read_8_bytes_little_endian (ready bs j) = (c, r) \<Longrightarrow> source_good r \<Longrightarrow>
     bs = write_8_bytes_little_endian c @ source_bytes r \<and> r = ready (source_bytes r) j"
  unfolding read_2_bytes_little_endian_def write_2_bytes_little_endian_def
    read_4_bytes_little_endian_def write_4_bytes_little_endian_def
    read_8_bytes_little_endian_def write_8_bytes_little_endian_def
  by (rule conjI; erule (1) read_little_endian_consumed; simp)+

lemma read_byte_consumed:
  "run_state read_byte (ready bs j) = (b, r) \<Longrightarrow> source_good r \<Longrightarrow>
     bs = b # source_bytes r \<and> r = ready (source_bytes r) j"
  by (cases bs) (auto simp: read_byte_def)

lemma read_data_consumed:
  "run_state (read_data n) (ready bs j) = (d, r) \<Longrightarrow> source_good r \<Longrightarrow>
     bs = d @ source_bytes r \<and> length d = n \<and> r = ready (source_bytes r) j"
  by (auto simp: read_data_def split: if_splits)

section \<open>Sequences of objects\<close>

text \<open>
  The loop \<open>for (auto& x: xs) { result = x.from_data(source); if (!result) break; }\<close> over a
  vector that was resized to \<open>n\<close> elements. When it breaks, the elements after the failing one
  keep their default value; every caller then resets the whole object, so they are left out.
\<close>

primrec from_data_each :: "(bool \<times> 'a) reads \<Rightarrow> nat \<Rightarrow> (bool \<times> 'a list) reads" where
  "from_data_each get 0 = State_Monad.return (True, [])"
| "from_data_each get (Suc n) = do {
     (ok, x) \<leftarrow> get;
     if ok then do { (ok', xs) \<leftarrow> from_data_each get n; State_Monad.return (ok', x # xs) }
     else State_Monad.return (False, [x]) }"

lemma local_from_data_each [local_intros]:
  "local_read get \<Longrightarrow> local_read (from_data_each get n)"
  by (induction n) (auto intro!: local_intros)

text \<open>The count and then the elements, as the two vectors of a transaction are read.\<close>

definition counted_from_data :: "(bool \<times> 'a) reads \<Rightarrow> (bool \<times> 'a list) reads" where
  "counted_from_data get = do {
     count \<leftarrow> read_variable_uint_little_endian;
     result \<leftarrow> source_ok;
     (if result then from_data_each get (unat count) else State_Monad.return (False, [])) }"

lemma local_counted_from_data [local_intros]:
  "local_read get \<Longrightarrow> local_read (counted_from_data get)"
  unfolding counted_from_data_def by (intro local_intros)

section \<open>The contract\<close>

locale wire_object =
  fixes wf :: "'a \<Rightarrow> bool"
    and put :: "'a \<Rightarrow> bytes"
    and get :: "(bool \<times> 'a) reads"
  assumes get_put: "wf x \<Longrightarrow> run_state get (ready (put x @ rest) j) = ((True, x), ready rest j)"
    and get_good: "run_state get (ready bs j) = ((True, x), r) \<Longrightarrow> source_good r"
    and get_local: "local_read get"
begin

lemma put_prefix_free:
  assumes "wf x" "wf y" "put x @ a = put y @ b"
  shows "x = y \<and> a = b"
proof -
  have "((True, x), ready a 0) = ((True, y), ready b 0)"
    by (metis get_put [OF assms(1), of a 0] get_put [OF assms(2), of b 0] assms(3))
  then show ?thesis by simp
qed

lemma put_inj: "wf x \<Longrightarrow> wf y \<Longrightarrow> put x = put y \<Longrightarrow> x = y"
  using put_prefix_free [of x y "[]" "[]"] by simp

lemma truncated_refused:
  assumes "wf x" "put x = p @ q" "q \<noteq> []"
  shows "\<not> fst (fst (run_state get (ready p j)))"
proof
  obtain ok y r where run: "run_state get (ready p j) = ((ok, y), r)"
    by (metis prod.collapse)
  assume "fst (fst (run_state get (ready p j)))"
  with run have run: "run_state get (ready p j) = ((True, y), r)" by simp
  then have good: "source_good r" by (rule get_good)
  have "run_state get (ready (p @ q) j) = ((True, y), r\<lparr>source_bytes := source_bytes r @ q\<rparr>)"
    by (rule local_read_extend [OF get_local run good])
  moreover have "run_state get (ready (p @ q) j) = ((True, x), ready [] j)"
    using get_put [OF assms(1), of "[]" j] assms(2) by simp
  ultimately have "r\<lparr>source_bytes := source_bytes r @ q\<rparr> = ready [] j"
    by simp
  then have "source_bytes (r\<lparr>source_bytes := source_bytes r @ q\<rparr>) = []"
    by (simp only: reader.select_convs)
  with assms(3) show False by simp
qed

lemma get_each_put:
  "list_all wf xs \<Longrightarrow>
     run_state (from_data_each get (length xs)) (ready (concat (map put xs) @ rest) j)
       = ((True, xs), ready rest j)"
  by (induction xs) (auto simp: get_put)

lemma get_each_good:
  "run_state (from_data_each get n) (ready bs j) = ((True, xs), r) \<Longrightarrow> source_good r"
proof (induction n arbitrary: bs j xs)
  case 0
  then show ?case by auto
next
  case (Suc n)
  obtain ok x r1 where 1: "run_state get (ready bs j) = ((ok, x), r1)"
    by (metis prod.collapse)
  with Suc.prems have ok: "ok" by (auto split: if_splits)
  then have g: "source_good r1" using 1 get_good by simp
  from Suc.prems 1 ok obtain xs' where
    "run_state (from_data_each get n) (ready (source_bytes r1) (source_junk r1)) = ((True, xs'), r)"
    using good_reader [OF g] by (auto split: prod.splits)
  then show ?case by (rule Suc.IH)
qed

lemma get_counted_put:
  "list_all wf xs \<Longrightarrow> length xs < 2 ^ 64 \<Longrightarrow>
     run_state (counted_from_data get)
       (ready (write_variable_uint_little_endian (of_nat (length xs)) @ concat (map put xs) @ rest) j)
     = ((True, xs), ready rest j)"
  by (simp add: counted_from_data_def codec_simps unat_of_nat_u64 get_each_put)

lemma get_counted_good:
  assumes "run_state (counted_from_data get) (ready bs j) = ((True, xs), r)"
  shows "source_good r"
proof -
  obtain n r1 where 1: "run_state read_variable_uint_little_endian (ready bs j) = (n, r1)" by fastforce
  with assms have g: "source_good r1" by (auto simp: counted_from_data_def split: if_splits)
  with assms 1 have "run_state (from_data_each get (unat n)) r1 = ((True, xs), r)"
    by (simp add: counted_from_data_def)
  then show ?thesis using good_reader [OF g] get_each_good by metis
qed

end

end
