(* ===== verification/Script_Number.thy ===== *)
theory Script_Number
  imports Codec
begin

unbundle bit_operations_syntax

text \<open>
  Numbers of the script language: \<open>math/script_number.cpp\<close> and the \<open>CScriptNum\<close> of
  \<open>consensus/clone/script/script.h\<close> that the lock-height scripts use. An \<open>int64_t\<close> is an integer
  here; the statements that need it say that the value is in range.
\<close>

section \<open>Serialisation\<close>

text \<open>The loop \<open>while (abs_value) { push_back(abs_value & 0xff); abs_value >>= 8; }\<close>.\<close>

fun magnitude_bytes :: "nat \<Rightarrow> bytes" where
  "magnitude_bytes abs_value =
     (if abs_value = 0 then [] else of_nat (abs_value mod 256) # magnitude_bytes (abs_value div 256))"

declare magnitude_bytes.simps [simp del]

definition script_number_serialize :: "int \<Rightarrow> bytes" where
  "script_number_serialize value =
     (if value = 0 then []
      else
        (let is_negative = value < 0;
             result = magnitude_bytes (nat \<bar>value\<bar>)
         in if last result AND 0x80 \<noteq> 0 then result @ [if is_negative then 0x80 else 0]
            else if is_negative then butlast result @ [last result OR 0x80]
            else result))"

text \<open>
  The accumulating loop shifts byte \<open>i\<close> by \<open>8 * i\<close>, which is undefined from the ninth byte on.
  The mask that removes the sign bit is a 32-bit \<open>int\<close> shifted by \<open>8 * (size - 1)\<close>, which is
  undefined from the fifth byte on.
\<close>

definition script_number_deserialize :: "bytes \<Rightarrow> int outcome" where
  "script_number_deserialize data =
     (if data = [] then Returns 0
      else if length data > 8 then Abnormal
      else
        (let result = from_little_endian_loop 8 0 0 data :: u64
         in if last data AND 0x80 \<noteq> 0 then
              (if length data > 4 then Abnormal
               else Returns (- sint (result AND NOT (push_bit (8 * (length data - 1)) 0x80))))
            else Returns (sint result)))"

text \<open>\<open>set_data\<close>: the inner option is the boolean result, with the value when it is true.\<close>

definition set_data :: "bytes \<Rightarrow> nat \<Rightarrow> int option outcome" where
  "set_data data max_size =
     (if length data > max_size then Returns None
      else map_option Some (script_number_deserialize data))"

abbreviation (input) max_script_number_size :: nat where "max_script_number_size \<equiv> 4"
abbreviation (input) cltv_max_script_number_size :: nat where "cltv_max_script_number_size \<equiv> 5"

definition max_int32 :: int where "max_int32 = 2147483647"
definition min_int32 :: int where "min_int32 = - 2147483648"

definition script_number_int32 :: "int \<Rightarrow> int" where
  "script_number_int32 value =
     (if value > max_int32 then max_int32 else if value < min_int32 then min_int32 else value)"

section \<open>The consensus clone's number\<close>

definition cscriptnum_set_vch :: "bytes \<Rightarrow> int outcome" where
  "cscriptnum_set_vch vch =
     (if vch = [] then Returns 0
      else if length vch > 8 then Abnormal
      else
        (let result = from_little_endian_loop 8 0 0 vch :: u64
         in if last vch AND 0x80 \<noteq> 0
            then Returns (- sint (result AND NOT (push_bit (8 * (length vch - 1)) 0x80)))
            else Returns (sint result)))"

text \<open>
  The constructor \<open>CScriptNum(vch, fRequireMinimal, nMaxNumSize)\<close> throws \<open>scriptnum_error\<close> for a
  string that is too long or not minimal; nothing in the program catches it.
\<close>

definition cscriptnum :: "bytes \<Rightarrow> bool \<Rightarrow> nat \<Rightarrow> int outcome" where
  "cscriptnum vch fRequireMinimal nMaxNumSize =
     (if length vch > nMaxNumSize then Abnormal
      else if fRequireMinimal \<and> length vch > 0 \<and> last vch AND 0x7f = 0
           \<and> (length vch \<le> 1 \<or> vch ! (length vch - 2) AND 0x80 = 0)
        then Abnormal
      else cscriptnum_set_vch vch)"

definition cscriptnum_getint :: "int \<Rightarrow> int" where
  "cscriptnum_getint m_value =
     (if m_value > max_int32 then max_int32
      else if m_value < min_int32 then min_int32 else m_value)"

definition cscriptnum_serialize :: "int \<Rightarrow> bytes" where
  "cscriptnum_serialize value =
     (if value = 0 then []
      else
        (let neg = value < 0;
             result = magnitude_bytes (nat \<bar>value\<bar>)
         in if last result AND 0x80 \<noteq> 0 then result @ [if neg then 0x80 else 0]
            else if neg then butlast result @ [last result OR 0x80]
            else result))"

section \<open>The bytes of a magnitude\<close>

lemma magnitude_bytes_0 [simp]: "magnitude_bytes 0 = []"
  by (simp add: magnitude_bytes.simps)

lemma magnitude_bytes_step:
  "n \<noteq> 0 \<Longrightarrow> magnitude_bytes n = of_nat (n mod 256) # magnitude_bytes (n div 256)"
  by (subst magnitude_bytes.simps) simp

lemma unat_of_nat_byte: "unat (of_nat (n mod 256) :: u8) = n mod 256"
  by (simp add: unat_of_nat)

lemma le_nat_magnitude [simp]: "le_nat (magnitude_bytes n) = n"
  by (induction n rule: magnitude_bytes.induct)
    (metis le_nat.simps magnitude_bytes_0 magnitude_bytes_step mod_mult_div_eq unat_of_nat_byte)

lemma magnitude_bytes_Nil [simp]: "magnitude_bytes n = [] \<longleftrightarrow> n = 0"
  using magnitude_bytes_step by fastforce

lemma length_magnitude: "n < 256 ^ k \<Longrightarrow> length (magnitude_bytes n) \<le> k"
proof (induction k arbitrary: n)
  case (Suc k)
  then have "n div 256 < 256 ^ k" by (simp add: less_mult_imp_div_less mult.commute)
  with Suc.IH show ?case by (cases "n = 0") (auto simp: magnitude_bytes_step)
qed simp

lemma last_magnitude: "n \<noteq> 0 \<Longrightarrow> last (magnitude_bytes n) \<noteq> 0"
proof (induction n rule: magnitude_bytes.induct)
  case (1 n)
  show ?case
  proof (cases "n div 256 = 0")
    case True
    then have "n < 256" by (simp add: div_eq_0_iff)
    then have "unat (of_nat n :: u8) = n" by (simp add: unat_of_nat)
    with "1.prems" \<open>n < 256\<close> True show ?thesis by (auto simp: magnitude_bytes_step)
  next
    case False
    with "1.IH" "1.prems" show ?thesis by (simp add: magnitude_bytes_step)
  qed
qed

section \<open>Sign bits and accumulated bytes\<close>

lemma sign_bit_iff: "(t :: u8) AND 0x80 \<noteq> 0 \<longleftrightarrow> 128 \<le> unat t"
proof -
  have "t AND 0x80 \<noteq> 0 \<longleftrightarrow> bit t 7"
    using and_exp_eq_0_iff_not_bit [of t 7] by simp
  also have "\<dots> \<longleftrightarrow> bit (unat t) 7"
    by (simp add: bit_unsigned_iff)
  also have "\<dots> \<longleftrightarrow> odd (unat t div 128)"
    by (simp add: bit_iff_odd)
  also have "\<dots> \<longleftrightarrow> 128 \<le> unat t"
  proof (cases "unat t < 128")
    case False
    with unat_u8_less [of t] have "unat t div 128 = 1" by arith
    with False show ?thesis by simp
  qed simp
  finally show ?thesis .
qed

lemma little_endian_loop_le_nat:
  assumes "length bs \<le> 8"
  shows "from_little_endian_loop 8 0 0 bs = (of_nat (le_nat bs) :: u64)"
proof -
  let ?w = "of_nat (le_nat bs) :: u64"
  have p: "peel_bytes (length bs) ?w = bs"
    using assms by (intro peel_bytes_le_nat) simp
  have "from_little_endian_loop 8 0 0 bs = from_little_endian_loop 8 0 0 (peel_bytes (length bs) ?w)"
    by (simp only: p)
  also have "\<dots> = take_bit (8 * length bs) ?w"
    using assms by (subst from_little_endian_loop_peel) auto
  also have "\<dots> = ?w"
    using le_nat_less [of bs] by (intro take_bit_of_nat_less) (simp add: pow256)
  finally show ?thesis .
qed

lemma clear_sign_bit:
  assumes "n < 2 ^ m" "m < 64"
  shows "(of_nat (n + 2 ^ m) :: u64) AND NOT (push_bit m 1) = of_nat n"
proof -
  have n: "take_bit m (of_nat n :: u64) = of_nat n"
    using assms(1) by (rule take_bit_of_nat_less)
  have b: "\<not> bit (of_nat n :: u64) m"
    by (subst n [symmetric]) (simp add: bit_simps)
  have "(of_nat (n + 2 ^ m) :: u64) = of_nat n + push_bit m 1"
    by (simp add: push_bit_eq_mult)
  also have "\<dots> = of_nat n OR push_bit m 1"
    by (rule disjunctive_add_eq_or) (use b in \<open>auto intro!: bit_word_eqI simp: bit_simps\<close>)
  finally show ?thesis using b by (auto intro!: bit_word_eqI simp: bit_simps)
qed

lemma sint_of_nat_u64: "n < 2 ^ 63 \<Longrightarrow> sint (of_nat n :: u64) = int n"
  by (simp add: sint_uint unsigned_of_nat signed_take_bit_int_eq_self take_bit_nat_eq_self)

lemma deserialize_nonneg:
  assumes "length bs \<le> 8" "bs \<noteq> []" "unat (last bs) < 128"
  shows "script_number_deserialize bs = Returns (int (le_nat bs))"
    and "cscriptnum_set_vch bs = Returns (int (le_nat bs))"
proof -
  have "le_nat bs = le_nat (butlast bs) + 256 ^ (length bs - 1) * unat (last bs)"
    using assms(2) by (rule le_nat_last)
  also have "\<dots> < 256 ^ (length bs - 1) + 256 ^ (length bs - 1) * unat (last bs)"
    using le_nat_less [of "butlast bs"] by simp
  also have "\<dots> \<le> 256 ^ (length bs - 1) * 128"
    using assms(3) mult_le_mono2 [of "Suc (unat (last bs))" 128 "256 ^ (length bs - 1)"] by simp
  also have "\<dots> \<le> 256 ^ 7 * 128"
    using assms(1) by (intro mult_le_mono1 power_increasing) auto
  finally have "le_nat bs < 2 ^ 63" by simp
  then show "script_number_deserialize bs = Returns (int (le_nat bs))"
    and "cscriptnum_set_vch bs = Returns (int (le_nat bs))"
    using assms sint_of_nat_u64
    by (auto simp: script_number_deserialize_def cscriptnum_set_vch_def little_endian_loop_le_nat
        sign_bit_iff Let_def not_le)
qed

lemma deserialize_neg:
  assumes "length bs \<le> 4" "bs \<noteq> []" "128 \<le> unat (last bs)"
  shows "script_number_deserialize bs
           = Returns (- int (le_nat (butlast bs) + 256 ^ (length bs - 1) * (unat (last bs) - 128)))"
    and "cscriptnum_set_vch bs
           = Returns (- int (le_nat (butlast bs) + 256 ^ (length bs - 1) * (unat (last bs) - 128)))"
proof -
  let ?k = "length bs - 1"
  let ?n = "le_nat (butlast bs) + 256 ^ ?k * (unat (last bs) - 128)"
  have le: "le_nat bs = le_nat (butlast bs) + 256 ^ ?k * unat (last bs)"
    using assms(2) by (rule le_nat_last)
  have top: "Suc (unat (last bs) - 128) \<le> 128"
    using unat_u8_less [of "last bs"] by arith
  have "?n < 256 ^ ?k + 256 ^ ?k * (unat (last bs) - 128)"
    using le_nat_less [of "butlast bs"] by simp
  also have "\<dots> \<le> 256 ^ ?k * 128"
    using mult_le_mono2 [of "Suc (unat (last bs) - 128)" 128 "256 ^ ?k"] top by simp
  also have "\<dots> = 2 ^ (8 * ?k + 7)"
    by (simp add: pow256 power_add)
  finally have lt: "?n < 2 ^ (8 * ?k + 7)" .
  have m: "8 * ?k + 7 \<le> 31" using assms(1) by arith
  have eq: "le_nat bs = ?n + 2 ^ (8 * ?k + 7)"
  proof -
    have "256 ^ ?k * unat (last bs) = 256 ^ ?k * (unat (last bs) - 128) + 256 ^ ?k * 128"
      using assms(3) by (metis add_mult_distrib2 le_add_diff_inverse2)
    then show ?thesis using le by (simp add: pow256 power_add)
  qed
  have "?n < 2 ^ 31" using lt power_increasing [OF m, of "2::nat"] by simp
  then have s: "sint (of_nat ?n :: u64) = int ?n" by (intro sint_of_nat_u64) simp
  have mask: "push_bit (8 * ?k) 0x80 = (push_bit (8 * ?k + 7) 1 :: u64)"
    by (simp add: push_bit_eq_mult power_add)
  have "(of_nat (le_nat bs) :: u64) AND NOT (push_bit (8 * ?k) 0x80) = of_nat ?n"
    unfolding mask eq using lt m by (intro clear_sign_bit) auto
  with assms s show "script_number_deserialize bs = Returns (- int ?n)" and "cscriptnum_set_vch bs = Returns (- int ?n)"
    by (auto simp: script_number_deserialize_def cscriptnum_set_vch_def little_endian_loop_le_nat
        sign_bit_iff Let_def)
qed

section \<open>What a serialised number decodes to\<close>

lemma serialize_eq: "cscriptnum_serialize v = script_number_serialize v"
  by (simp add: cscriptnum_serialize_def script_number_serialize_def)

lemma or_sign_bit: "unat (t :: u8) < 128 \<Longrightarrow> unat (t OR 0x80) = unat t + 128"
proof -
  assume "unat t < 128"
  then have "t AND 0x80 = 0" using sign_bit_iff [of t] by simp
  then have "t OR 0x80 = t + 0x80" by (simp add: disjunctive_add_eq_or)
  then show ?thesis using \<open>unat t < 128\<close> by (simp add: unat_word_ariths)
qed

lemma serialize_nonzero:
  "v \<noteq> 0 \<Longrightarrow> script_number_serialize v =
     (let bs = magnitude_bytes (nat \<bar>v\<bar>) in
      if 128 \<le> unat (last bs) then bs @ [if v < 0 then 0x80 else 0]
      else if v < 0 then butlast bs @ [last bs OR 0x80] else bs)"
  by (simp only: script_number_serialize_def Let_def sign_bit_iff if_False)

lemma set_data_serialize:
  assumes "\<bar>v\<bar> < 2 ^ 31"
  shows "set_data (script_number_serialize v) max_script_number_size = Returns (Some v)"
proof (cases "v = 0")
  case True
  then show ?thesis by (simp add: script_number_serialize_def set_data_def script_number_deserialize_def)
next
  case False
  define m where "m = nat \<bar>v\<bar>"
  define bs where "bs = magnitude_bytes m"
  have m: "m \<noteq> 0" "m < 2 ^ 31" using False assms by (auto simp: m_def)
  have bs: "bs \<noteq> []" "le_nat bs = m" "last bs \<noteq> 0" using m last_magnitude by (auto simp: bs_def)
  have len: "length bs \<le> 4" using m(2) by (auto simp: bs_def intro!: length_magnitude)
  have v: "v = (if v < 0 then - int m else int m)" using m_def by auto
  have split: "m = le_nat (butlast bs) + 256 ^ (length bs - 1) * unat (last bs)"
    using le_nat_last [OF bs(1)] bs(2) by simp
  have ser: "script_number_serialize v = (if 128 \<le> unat (last bs) then bs @ [if v < 0 then 0x80 else 0]
      else if v < 0 then butlast bs @ [last bs OR 0x80] else bs)"
    using serialize_nonzero [OF False] by (simp only: Let_def bs_def m_def)
  have dec: "unat (last bs) < 128 \<or> length bs \<le> 3"
  proof (rule ccontr)
    assume "\<not> ?thesis"
    then have "128 \<le> unat (last bs)" "length bs = 4" using len by auto
    then have "256 ^ 3 * 128 \<le> m" using split by simp
    with m(2) show False by simp
  qed
  show ?thesis
  proof (cases "128 \<le> unat (last bs)")
    case True
    with dec have l3: "length bs \<le> 3" by simp
    let ?out = "bs @ [if v < 0 then 0x80 else 0]"
    have s: "script_number_serialize v = ?out"
      using ser True by simp
    have "script_number_deserialize ?out = Returns v"
      using l3 bs(2) v deserialize_nonneg(1) [of ?out] deserialize_neg(1) [of ?out]
      by (cases "v < 0") auto
    then show ?thesis using l3 s by (simp add: set_data_def)
  next
    case small: False
    show ?thesis
    proof (cases "v < 0")
      case True
      let ?out = "butlast bs @ [last bs OR 0x80]"
      have s: "script_number_serialize v = ?out"
        using ser True small by simp
      have "script_number_deserialize ?out = Returns v"
        using deserialize_neg(1) [of ?out] or_sign_bit [of "last bs"] small len bs(1) v True split
        by simp
      then show ?thesis using len s bs(1) by (simp add: set_data_def)
    next
      case pos: False
      have s: "script_number_serialize v = bs"
        using ser pos small by simp
      have "script_number_deserialize bs = Returns v"
        using deserialize_nonneg(1) [of bs] small len bs v pos by simp
      then show ?thesis using len s by (simp add: set_data_def)
    qed
  qed
qed


lemma deserialize_bound:
  assumes "length data \<le> 4"
  shows "\<exists>v. script_number_deserialize data = Returns v \<and> \<bar>v\<bar> < 2 ^ 31"
proof (cases "data = []")
  case True
  then show ?thesis by (simp add: script_number_deserialize_def)
next
  case False
  have split: "le_nat data = le_nat (butlast data) + 256 ^ (length data - 1) * unat (last data)"
    using False by (rule le_nat_last)
  have p: "(256 :: nat) ^ (length data - 1) \<le> 256 ^ 3"
    using assms by (intro power_increasing) auto
  have l: "le_nat (butlast data) < 256 ^ (length data - 1)"
    using le_nat_less [of "butlast data"] by simp
  show ?thesis
  proof (cases "128 \<le> unat (last data)")
    case True
    have top: "Suc (unat (last data) - 128) \<le> 128"
      using unat_u8_less [of "last data"] by arith
    define n where "n = le_nat (butlast data) + 256 ^ (length data - 1) * (unat (last data) - 128)"
    have "n < 256 ^ (length data - 1) * Suc (unat (last data) - 128)" using l by (simp add: n_def)
    also have "\<dots> \<le> 256 ^ 3 * 128" by (rule mult_le_mono [OF p top])
    finally have lt: "n < 256 ^ 3 * 128" .
    have "script_number_deserialize data = Returns (- int n)"
      unfolding n_def using assms False True by (rule deserialize_neg(1))
    with lt show ?thesis by simp
  next
    case small: False
    then have top: "Suc (unat (last data)) \<le> 128" by simp
    have "le_nat data < 256 ^ (length data - 1) * Suc (unat (last data))" using l split by simp
    also have "\<dots> \<le> 256 ^ 3 * 128" by (rule mult_le_mono [OF p top])
    finally show ?thesis using deserialize_nonneg(1) [of data] assms small False by simp
  qed
qed

lemma low_seven_bits: "(t :: u8) AND 0x7f = 0 \<longleftrightarrow> unat t mod 128 = 0"
proof -
  have "t AND 0x7f = take_bit 7 t" by (simp add: take_bit_eq_mask mask_eq_exp_minus_1)
  then have "unat (t AND 0x7f) = unat t mod 128"
    by (simp only: unsigned_take_bit_eq) (simp add: take_bit_eq_mod)
  then show ?thesis by (metis unat_eq_0)
qed

lemma serialize_minimal:
  assumes "script_number_serialize v = d" "d \<noteq> []" "last d AND 0x7f = 0"
  shows "2 \<le> length d \<and> d ! (length d - 2) AND 0x80 \<noteq> 0"
proof -
  define m where "m = nat \<bar>v\<bar>"
  define bs where "bs = magnitude_bytes m"
  have v: "v \<noteq> 0" using assms by (auto simp: script_number_serialize_def)
  then have bs: "bs \<noteq> []" "last bs \<noteq> 0" using last_magnitude by (auto simp: bs_def m_def)
  have nz: "unat (last bs) \<noteq> 0" using bs(2) by (simp add: unat_eq_0)
  have ser: "d = (if 128 \<le> unat (last bs) then bs @ [if v < 0 then 0x80 else 0]
      else if v < 0 then butlast bs @ [last bs OR 0x80] else bs)"
    using serialize_nonzero [OF v] assms(1) by (simp only: Let_def bs_def m_def)
  show ?thesis
  proof (cases "128 \<le> unat (last bs)")
    case True
    then show ?thesis using ser bs(1) sign_bit_iff [of "last bs"]
      by (cases bs rule: rev_cases) (auto simp: nth_append)
  next
    case False
    then have "unat (last bs) mod 128 \<noteq> 0" "(unat (last bs) + 128) mod 128 \<noteq> 0" using nz by auto
    then show ?thesis
      using False ser assms(3) or_sign_bit [of "last bs"] by (auto simp: low_seven_bits split: if_splits)
  qed
qed

lemma length_serialize: "\<bar>v\<bar> < 2 ^ 31 \<Longrightarrow> length (script_number_serialize v) \<le> 4"
  by (rule ccontr) (use set_data_serialize [of v] in \<open>simp add: set_data_def\<close>)

lemma clone_agrees: "length d \<le> 4 \<Longrightarrow> cscriptnum_set_vch d = script_number_deserialize d"
  by (simp add: cscriptnum_set_vch_def script_number_deserialize_def Let_def)

lemma cscriptnum_roundtrip:
  assumes "\<bar>v\<bar> < 2 ^ 31"
  shows "cscriptnum (cscriptnum_serialize v) True 4 = Returns v"
proof -
  let ?d = "script_number_serialize v"
  have len: "length ?d \<le> 4" using assms by (rule length_serialize)
  have "script_number_deserialize ?d = Returns v"
    using set_data_serialize [OF assms] len by (simp add: set_data_def)
  then have "cscriptnum_set_vch ?d = Returns v"
    using len by (simp add: clone_agrees)
  moreover have "\<not> (0 < length ?d \<and> last ?d AND 0x7f = 0 \<and> (length ?d \<le> 1 \<or> ?d ! (length ?d - 2) AND 0x80 = 0))"
    using serialize_minimal [OF refl, of v] by auto
  ultimately show ?thesis
    using len by (simp only: cscriptnum_def serialize_eq if_False not_less [symmetric] simp_thms)
qed

lemma getint_in_range: "\<bar>v\<bar> < 2 ^ 31 \<Longrightarrow> cscriptnum_getint v = v"
  by (auto simp: cscriptnum_getint_def max_int32_def min_int32_def)

section \<open>Properties\<close>

text \<open>C29: every script operand either is refused for its length (more than four bytes) or decodes,
  without undefined behaviour, to a number strictly between \<open>-2^31\<close> and \<open>2^31\<close>.\<close>

theorem set_data_total:
  "(case set_data data max_script_number_size of
      Abnormal \<Rightarrow> False
    | Returns None \<Rightarrow> 4 < length data
    | Returns (Some v) \<Rightarrow> length data \<le> 4 \<and> - (2 ^ 31) < v \<and> v < 2 ^ 31)"
  using deserialize_bound [of data]
  by (cases "length data \<le> 4") (auto simp: set_data_def)

text \<open>C30: a number below \<open>2^31\<close> in magnitude is serialised to at most four bytes, and reading
  them back as an operand gives the number again.\<close>

theorem script_number_roundtrip:
  "\<bar>v\<bar> < 2 ^ 31 \<Longrightarrow>
     set_data (script_number_serialize v) max_script_number_size = Returns (Some v)"
  by (rule set_data_serialize)

theorem script_number_roundtrip_witness:
  "script_number_serialize (- 1000) = [0xe8, 0x83]
   \<and> set_data (script_number_serialize (- 1000)) 4 = Returns (Some (- 1000))"
  using script_number_roundtrip [of "- 1000"]
  by (simp add: script_number_serialize_def magnitude_bytes.simps)

end
