(* ===== verification/Operation.thy ===== *)
theory Operation
  imports Script_Number
begin

unbundle bit_operations_syntax

text \<open>
  Opcodes and operations: \<open>chain/script/opcode.hpp\<close> and \<open>chain/script/operation.cpp\<close>. It holds
  the operation's codec, the push predicates, the recognisers of the standard script patterns and
  the templates that build them. The pattern that parses a redeem script is in the theory of
  scripts.
\<close>

section \<open>Opcodes\<close>

text \<open>
  \<open>enum class opcode : uint8_t\<close> has a fixed underlying type and is made from an arbitrary byte by
  \<open>static_cast\<close>, so that every byte is a value of it, named or not.
\<close>

type_synonym opcode = u8

abbreviation (input) opcode_zero :: opcode where "opcode_zero \<equiv> 0"
abbreviation (input) opcode_special :: opcode where "opcode_special \<equiv> 1"
abbreviation (input) opcode_pushdata1 :: opcode where "opcode_pushdata1 \<equiv> 76"
abbreviation (input) opcode_pushdata2 :: opcode where "opcode_pushdata2 \<equiv> 77"
abbreviation (input) opcode_pushdata4 :: opcode where "opcode_pushdata4 \<equiv> 78"
abbreviation (input) opcode_negative_1 :: opcode where "opcode_negative_1 \<equiv> 79"
abbreviation (input) opcode_reserved :: opcode where "opcode_reserved \<equiv> 80"
abbreviation (input) opcode_1 :: opcode where "opcode_1 \<equiv> 81"
abbreviation (input) opcode_2 :: opcode where "opcode_2 \<equiv> 82"
abbreviation (input) opcode_3 :: opcode where "opcode_3 \<equiv> 83"
abbreviation (input) opcode_4 :: opcode where "opcode_4 \<equiv> 84"
abbreviation (input) opcode_5 :: opcode where "opcode_5 \<equiv> 85"
abbreviation (input) opcode_6 :: opcode where "opcode_6 \<equiv> 86"
abbreviation (input) opcode_7 :: opcode where "opcode_7 \<equiv> 87"
abbreviation (input) opcode_8 :: opcode where "opcode_8 \<equiv> 88"
abbreviation (input) opcode_9 :: opcode where "opcode_9 \<equiv> 89"
abbreviation (input) opcode_10 :: opcode where "opcode_10 \<equiv> 90"
abbreviation (input) opcode_11 :: opcode where "opcode_11 \<equiv> 91"
abbreviation (input) opcode_12 :: opcode where "opcode_12 \<equiv> 92"
abbreviation (input) opcode_13 :: opcode where "opcode_13 \<equiv> 93"
abbreviation (input) opcode_14 :: opcode where "opcode_14 \<equiv> 94"
abbreviation (input) opcode_15 :: opcode where "opcode_15 \<equiv> 95"
abbreviation (input) opcode_16 :: opcode where "opcode_16 \<equiv> 96"
abbreviation (input) opcode_nop :: opcode where "opcode_nop \<equiv> 97"
abbreviation (input) opcode_ver :: opcode where "opcode_ver \<equiv> 98"
abbreviation (input) opcode_if :: opcode where "opcode_if \<equiv> 99"
abbreviation (input) opcode_notif :: opcode where "opcode_notif \<equiv> 100"
abbreviation (input) opcode_verif :: opcode where "opcode_verif \<equiv> 101"
abbreviation (input) opcode_vernotif :: opcode where "opcode_vernotif \<equiv> 102"
abbreviation (input) opcode_else :: opcode where "opcode_else \<equiv> 103"
abbreviation (input) opcode_endif :: opcode where "opcode_endif \<equiv> 104"
abbreviation (input) opcode_verify :: opcode where "opcode_verify \<equiv> 105"
abbreviation (input) opcode_return :: opcode where "opcode_return \<equiv> 106"
abbreviation (input) opcode_toaltstack :: opcode where "opcode_toaltstack \<equiv> 107"
abbreviation (input) opcode_fromaltstack :: opcode where "opcode_fromaltstack \<equiv> 108"
abbreviation (input) opcode_2drop :: opcode where "opcode_2drop \<equiv> 109"
abbreviation (input) opcode_2dup :: opcode where "opcode_2dup \<equiv> 110"
abbreviation (input) opcode_3dup :: opcode where "opcode_3dup \<equiv> 111"
abbreviation (input) opcode_2over :: opcode where "opcode_2over \<equiv> 112"
abbreviation (input) opcode_2rot :: opcode where "opcode_2rot \<equiv> 113"
abbreviation (input) opcode_2swap :: opcode where "opcode_2swap \<equiv> 114"
abbreviation (input) opcode_ifdup :: opcode where "opcode_ifdup \<equiv> 115"
abbreviation (input) opcode_depth :: opcode where "opcode_depth \<equiv> 116"
abbreviation (input) opcode_drop :: opcode where "opcode_drop \<equiv> 117"
abbreviation (input) opcode_dup :: opcode where "opcode_dup \<equiv> 118"
abbreviation (input) opcode_nip :: opcode where "opcode_nip \<equiv> 119"
abbreviation (input) opcode_over :: opcode where "opcode_over \<equiv> 120"
abbreviation (input) opcode_pick :: opcode where "opcode_pick \<equiv> 121"
abbreviation (input) opcode_roll :: opcode where "opcode_roll \<equiv> 122"
abbreviation (input) opcode_rot :: opcode where "opcode_rot \<equiv> 123"
abbreviation (input) opcode_swap :: opcode where "opcode_swap \<equiv> 124"
abbreviation (input) opcode_tuck :: opcode where "opcode_tuck \<equiv> 125"
abbreviation (input) opcode_cat :: opcode where "opcode_cat \<equiv> 126"
abbreviation (input) opcode_substr :: opcode where "opcode_substr \<equiv> 127"
abbreviation (input) opcode_left :: opcode where "opcode_left \<equiv> 128"
abbreviation (input) opcode_right :: opcode where "opcode_right \<equiv> 129"
abbreviation (input) opcode_size :: opcode where "opcode_size \<equiv> 130"
abbreviation (input) opcode_invert :: opcode where "opcode_invert \<equiv> 131"
abbreviation (input) opcode_and :: opcode where "opcode_and \<equiv> 132"
abbreviation (input) opcode_or :: opcode where "opcode_or \<equiv> 133"
abbreviation (input) opcode_xor :: opcode where "opcode_xor \<equiv> 134"
abbreviation (input) opcode_equal :: opcode where "opcode_equal \<equiv> 135"
abbreviation (input) opcode_equalverify :: opcode where "opcode_equalverify \<equiv> 136"
abbreviation (input) opcode_reserved1 :: opcode where "opcode_reserved1 \<equiv> 137"
abbreviation (input) opcode_reserved2 :: opcode where "opcode_reserved2 \<equiv> 138"
abbreviation (input) opcode_1add :: opcode where "opcode_1add \<equiv> 139"
abbreviation (input) opcode_1sub :: opcode where "opcode_1sub \<equiv> 140"
abbreviation (input) opcode_2mul :: opcode where "opcode_2mul \<equiv> 141"
abbreviation (input) opcode_2div :: opcode where "opcode_2div \<equiv> 142"
abbreviation (input) opcode_negate :: opcode where "opcode_negate \<equiv> 143"
abbreviation (input) opcode_abs :: opcode where "opcode_abs \<equiv> 144"
abbreviation (input) opcode_not :: opcode where "opcode_not \<equiv> 145"
abbreviation (input) opcode_0notequal :: opcode where "opcode_0notequal \<equiv> 146"
abbreviation (input) opcode_add :: opcode where "opcode_add \<equiv> 147"
abbreviation (input) opcode_sub :: opcode where "opcode_sub \<equiv> 148"
abbreviation (input) opcode_mul :: opcode where "opcode_mul \<equiv> 149"
abbreviation (input) opcode_div :: opcode where "opcode_div \<equiv> 150"
abbreviation (input) opcode_mod :: opcode where "opcode_mod \<equiv> 151"
abbreviation (input) opcode_lshift :: opcode where "opcode_lshift \<equiv> 152"
abbreviation (input) opcode_rshift :: opcode where "opcode_rshift \<equiv> 153"
abbreviation (input) opcode_booland :: opcode where "opcode_booland \<equiv> 154"
abbreviation (input) opcode_boolor :: opcode where "opcode_boolor \<equiv> 155"
abbreviation (input) opcode_numequal :: opcode where "opcode_numequal \<equiv> 156"
abbreviation (input) opcode_numequalverify :: opcode where "opcode_numequalverify \<equiv> 157"
abbreviation (input) opcode_numnotequal :: opcode where "opcode_numnotequal \<equiv> 158"
abbreviation (input) opcode_lessthan :: opcode where "opcode_lessthan \<equiv> 159"
abbreviation (input) opcode_greaterthan :: opcode where "opcode_greaterthan \<equiv> 160"
abbreviation (input) opcode_lessthanorequal :: opcode where "opcode_lessthanorequal \<equiv> 161"
abbreviation (input) opcode_greaterthanorequal :: opcode where "opcode_greaterthanorequal \<equiv> 162"
abbreviation (input) opcode_min :: opcode where "opcode_min \<equiv> 163"
abbreviation (input) opcode_max :: opcode where "opcode_max \<equiv> 164"
abbreviation (input) opcode_within :: opcode where "opcode_within \<equiv> 165"
abbreviation (input) opcode_ripemd160 :: opcode where "opcode_ripemd160 \<equiv> 166"
abbreviation (input) opcode_sha1 :: opcode where "opcode_sha1 \<equiv> 167"
abbreviation (input) opcode_sha256 :: opcode where "opcode_sha256 \<equiv> 168"
abbreviation (input) opcode_hash160 :: opcode where "opcode_hash160 \<equiv> 169"
abbreviation (input) opcode_hash256 :: opcode where "opcode_hash256 \<equiv> 170"
abbreviation (input) opcode_codeseparator :: opcode where "opcode_codeseparator \<equiv> 171"
abbreviation (input) opcode_checksig :: opcode where "opcode_checksig \<equiv> 172"
abbreviation (input) opcode_checksigverify :: opcode where "opcode_checksigverify \<equiv> 173"
abbreviation (input) opcode_checkmultisig :: opcode where "opcode_checkmultisig \<equiv> 174"
abbreviation (input) opcode_checkmultisigverify :: opcode where "opcode_checkmultisigverify \<equiv> 175"
abbreviation (input) opcode_nop1 :: opcode where "opcode_nop1 \<equiv> 176"
abbreviation (input) opcode_nop2 :: opcode where "opcode_nop2 \<equiv> 177"
abbreviation (input) opcode_nop3 :: opcode where "opcode_nop3 \<equiv> 178"
abbreviation (input) opcode_nop4 :: opcode where "opcode_nop4 \<equiv> 179"
abbreviation (input) opcode_nop5 :: opcode where "opcode_nop5 \<equiv> 180"
abbreviation (input) opcode_nop6 :: opcode where "opcode_nop6 \<equiv> 181"
abbreviation (input) opcode_nop7 :: opcode where "opcode_nop7 \<equiv> 182"
abbreviation (input) opcode_nop8 :: opcode where "opcode_nop8 \<equiv> 183"
abbreviation (input) opcode_nop9 :: opcode where "opcode_nop9 \<equiv> 184"
abbreviation (input) opcode_nop10 :: opcode where "opcode_nop10 \<equiv> 185"
abbreviation (input) opcode_bad_operation :: opcode where "opcode_bad_operation \<equiv> 186"
abbreviation (input) opcode_raw_data :: opcode where "opcode_raw_data \<equiv> 187"
abbreviation (input) opcode_checklocktimeverify :: opcode where "opcode_checklocktimeverify \<equiv> 177"

text \<open>The flags of \<open>enum script_context : uint32_t\<close>.\<close>

abbreviation (input) none_enabled :: u32 where "none_enabled \<equiv> 0"
abbreviation (input) bip16_enabled :: u32 where "bip16_enabled \<equiv> 1"
abbreviation (input) bip30_enabled :: u32 where "bip30_enabled \<equiv> 2"
abbreviation (input) bip34_enabled :: u32 where "bip34_enabled \<equiv> 4"
abbreviation (input) bip66_enabled :: u32 where "bip66_enabled \<equiv> 8"
abbreviation (input) bip65_enabled :: u32 where "bip65_enabled \<equiv> 16"
abbreviation (input) all_enabled :: u32 where "all_enabled \<equiv> 0xffffffff"

section \<open>Operations\<close>

record operation =
  op_code :: opcode
  op_data :: bytes

abbreviation Op :: "opcode \<Rightarrow> bytes \<Rightarrow> operation" where
  "Op c d \<equiv> \<lparr>op_code = c, op_data = d\<rparr>"

definition operation_reset :: operation where
  "operation_reset = Op opcode_zero []"

definition operation_is_valid :: "operation \<Rightarrow> bool" where
  "operation_is_valid op \<longleftrightarrow> op_code op = opcode_zero \<and> op_data op = []"

definition must_read_data :: "opcode \<Rightarrow> bool" where
  "must_read_data code \<longleftrightarrow> code = opcode_special \<or> code = opcode_pushdata1
     \<or> code = opcode_pushdata2 \<or> code = opcode_pushdata4"

text \<open>The count is left at its initial value 0 in the default branch of the switch.\<close>

definition read_opcode_data_size :: "opcode \<Rightarrow> u8 \<Rightarrow> u32 reads" where
  "read_opcode_data_size code raw_byte =
     (if code = opcode_special then State_Monad.return (ucast raw_byte)
      else if code = opcode_pushdata1 then do { b \<leftarrow> read_byte; State_Monad.return (ucast b) }
      else if code = opcode_pushdata2 then
        do { w \<leftarrow> read_2_bytes_little_endian; State_Monad.return (ucast w) }
      else if code = opcode_pushdata4 then read_4_bytes_little_endian
      else State_Monad.return 0)"

definition opcode_of_byte :: "u8 \<Rightarrow> opcode" where
  "opcode_of_byte byte = (if 0 < byte \<and> byte \<le> 75 then opcode_special else byte)"

text \<open>
  The guard \<open>byte == 0 && op_code != opcode::zero\<close> compares a byte with its own cast and never
  holds.
\<close>

definition operation_from_data :: "(bool \<times> operation) reads" where
  "operation_from_data = do {
     byte \<leftarrow> read_byte;
     result \<leftarrow> source_ok;
     (if byte = 0 \<and> byte \<noteq> opcode_zero then State_Monad.return (False, operation_reset)
      else if must_read_data (opcode_of_byte byte) then do {
        size \<leftarrow> read_opcode_data_size (opcode_of_byte byte) byte;
        data \<leftarrow> read_data (unat size);
        ok \<leftarrow> source_ok;
        State_Monad.return
          (if ok \<and> length data = unat size then (True, Op (opcode_of_byte byte) data)
           else (False, operation_reset)) }
      else State_Monad.return
          (if result then (True, Op (opcode_of_byte byte) []) else (False, operation_reset))) }"

definition operation_to_data :: "operation \<Rightarrow> bytes" where
  "operation_to_data op =
     (let code = op_code op; data = op_data op in
      (if code \<noteq> opcode_raw_data then
         write_byte (if code = opcode_special then of_nat (length data) else code)
         @ (if code = opcode_pushdata1 then write_byte (of_nat (length data))
            else if code = opcode_pushdata2 then write_2_bytes_little_endian (of_nat (length data))
            else if code = opcode_pushdata4 then write_4_bytes_little_endian (of_nat (length data))
            else [])
       else [])
      @ data)"

definition operation_serialized_size :: "operation \<Rightarrow> nat" where
  "operation_serialized_size op =
     (let code = op_code op; size = 1 + length (op_data op) in
      if code = opcode_pushdata1 then size + 1
      else if code = opcode_pushdata2 then size + 2
      else if code = opcode_pushdata4 then size + 4
      else if code = opcode_raw_data then size - 1
      else size)"

section \<open>Pushes\<close>

definition is_push :: "opcode \<Rightarrow> bool" where
  "is_push code \<longleftrightarrow> code = opcode_zero \<or> code = opcode_special \<or> code = opcode_pushdata1
     \<or> code = opcode_pushdata2 \<or> code = opcode_pushdata4 \<or> code = opcode_negative_1
     \<or> code = opcode_1 \<or> code = opcode_2 \<or> code = opcode_3 \<or> code = opcode_4
     \<or> code = opcode_5 \<or> code = opcode_6 \<or> code = opcode_7 \<or> code = opcode_8
     \<or> code = opcode_9 \<or> code = opcode_10 \<or> code = opcode_11 \<or> code = opcode_12
     \<or> code = opcode_13 \<or> code = opcode_14 \<or> code = opcode_15 \<or> code = opcode_16"

definition count_non_push :: "operation list \<Rightarrow> nat" where
  "count_non_push ops = length (filter (\<lambda>op. \<not> is_push (op_code op)) ops)"

definition is_push_only :: "operation list \<Rightarrow> bool" where
  "is_push_only ops \<longleftrightarrow> count_non_push ops = 0"

section \<open>Public keys\<close>

definition is_compressed_key :: "bytes \<Rightarrow> bool" where
  "is_compressed_key point \<longleftrightarrow> length point = 33 \<and> (point ! 0 = 0x02 \<or> point ! 0 = 0x03)"

definition is_uncompressed_key :: "bytes \<Rightarrow> bool" where
  "is_uncompressed_key point \<longleftrightarrow> length point = 65 \<and> point ! 0 = 0x04"

definition is_public_key :: "bytes \<Rightarrow> bool" where
  "is_public_key point \<longleftrightarrow> is_compressed_key point \<or> is_uncompressed_key point"

section \<open>Pattern comparisons\<close>

abbreviation (input) max_null_data_size :: nat where "max_null_data_size \<equiv> 80"

definition is_null_data_pattern :: "operation list \<Rightarrow> bool" where
  "is_null_data_pattern ops \<longleftrightarrow> length ops = 2
     \<and> op_code (ops ! 0) = opcode_return
     \<and> op_code (ops ! 1) = opcode_special
     \<and> length (op_data (ops ! 1)) \<le> max_null_data_size"

definition is_pay_multisig_pattern :: "operation list \<Rightarrow> bool" where
  "is_pay_multisig_pattern ops =
     (let op_count = length ops in
      if op_count < 4 \<or> op_code (ops ! (op_count - 1)) \<noteq> opcode_checkmultisig then False
      else
        (let op_m = op_code (ops ! 0); op_n = op_code (ops ! (op_count - 2)) in
         if op_m < opcode_1 \<or> op_n < op_m \<or> op_n < opcode_1 \<or> opcode_16 < op_n then False
         else if unat op_n - unat opcode_1 + 1 \<noteq> op_count - 3 then False
         else list_all (\<lambda>op. is_public_key (op_data op)) (take (op_count - 3) (drop 1 ops))))"

definition is_pay_public_key_pattern :: "operation list \<Rightarrow> bool" where
  "is_pay_public_key_pattern ops \<longleftrightarrow> length ops = 2
     \<and> op_code (ops ! 0) = opcode_special
     \<and> is_public_key (op_data (ops ! 0))
     \<and> op_code (ops ! 1) = opcode_checksig"

definition is_pay_key_hash_pattern :: "operation list \<Rightarrow> bool" where
  "is_pay_key_hash_pattern ops \<longleftrightarrow> length ops = 5
     \<and> op_code (ops ! 0) = opcode_dup
     \<and> op_code (ops ! 1) = opcode_hash160
     \<and> op_code (ops ! 2) = opcode_special
     \<and> length (op_data (ops ! 2)) = short_hash_size
     \<and> op_code (ops ! 3) = opcode_equalverify
     \<and> op_code (ops ! 4) = opcode_checksig"

definition is_pay_key_hash_with_lock_height_pattern :: "operation list \<Rightarrow> bool" where
  "is_pay_key_hash_with_lock_height_pattern ops \<longleftrightarrow> length ops = 7
     \<and> op_code (ops ! 0) = opcode_special
     \<and> op_code (ops ! 1) = opcode_numequalverify
     \<and> op_code (ops ! 2) = opcode_dup
     \<and> op_code (ops ! 3) = opcode_hash160
     \<and> op_code (ops ! 4) = opcode_special
     \<and> length (op_data (ops ! 4)) = short_hash_size
     \<and> op_code (ops ! 5) = opcode_equalverify
     \<and> op_code (ops ! 6) = opcode_checksig"

definition is_pay_script_hash_pattern :: "operation list \<Rightarrow> bool" where
  "is_pay_script_hash_pattern ops \<longleftrightarrow> length ops = 3
     \<and> op_code (ops ! 0) = opcode_hash160
     \<and> op_code (ops ! 1) = opcode_special
     \<and> length (op_data (ops ! 1)) = short_hash_size
     \<and> op_code (ops ! 2) = opcode_equal"

definition is_sign_multisig_pattern :: "operation list \<Rightarrow> bool" where
  "is_sign_multisig_pattern ops =
     (if length ops < 2 \<or> \<not> is_push_only ops then False
      else if op_code (hd ops) \<noteq> opcode_zero then False
      else True)"

definition is_sign_public_key_pattern :: "operation list \<Rightarrow> bool" where
  "is_sign_public_key_pattern ops \<longleftrightarrow> length ops = 1 \<and> is_push_only ops"

definition is_sign_key_hash_pattern :: "operation list \<Rightarrow> bool" where
  "is_sign_key_hash_pattern ops \<longleftrightarrow>
     length ops = 2 \<and> is_push_only ops \<and> is_public_key (op_data (last ops))"

definition is_sign_key_hash_with_lock_height_pattern :: "operation list \<Rightarrow> bool" where
  "is_sign_key_hash_with_lock_height_pattern ops \<longleftrightarrow>
     length ops = 3 \<and> is_push_only ops \<and> is_public_key (op_data (ops ! 1))"

text \<open>
  The heights of the lock-height scripts. The index is not checked and the number's constructor
  may throw: both are \<open>Abnormal\<close>. The \<open>int\<close> of \<open>getint\<close> is converted to \<open>uint64_t\<close>.
\<close>

definition get_lock_height_from_sign_key_hash_with_lock_height ::
  "operation list \<Rightarrow> u64 outcome" where
  "get_lock_height_from_sign_key_hash_with_lock_height ops =
     (if length ops \<le> 2 then Abnormal
      else map_option (\<lambda>n. of_int (cscriptnum_getint n)) (cscriptnum (op_data (ops ! 2)) True 4))"

definition get_lock_height_from_pay_key_hash_with_lock_height ::
  "operation list \<Rightarrow> u64 outcome" where
  "get_lock_height_from_pay_key_hash_with_lock_height ops =
     (if ops = [] then Abnormal
      else map_option (\<lambda>n. of_int (cscriptnum_getint n)) (cscriptnum (op_data (ops ! 0)) True 4))"

section \<open>Pattern templates\<close>

definition to_null_data_pattern :: "bytes \<Rightarrow> operation list" where
  "to_null_data_pattern data =
     (if length data > max_null_data_size then []
      else [Op opcode_return [], Op opcode_special data])"

definition to_pay_public_key_pattern :: "bytes \<Rightarrow> operation list" where
  "to_pay_public_key_pattern point =
     (if \<not> is_public_key point then []
      else [Op opcode_special point, Op opcode_checksig []])"

text \<open>
  \<open>operation::stack ops(points.size() + 3)\<close> makes that many value-initialised operations before
  the first \<open>push_back\<close>.
\<close>

definition to_pay_multisig_pattern :: "u8 \<Rightarrow> bytes list \<Rightarrow> operation list" where
  "to_pay_multisig_pattern signatures points =
     (let zero = unat opcode_1 - 1; max_n = unat opcode_16 - zero; m = unat signatures; n = length points in
      if m < 1 \<or> m > n \<or> n < 1 \<or> n > max_n then []
      else if \<not> list_all is_public_key points then []
      else replicate (length points + 3) (Op opcode_zero [])
        @ [Op (of_nat (m + zero)) []]
        @ map (Op opcode_special) points
        @ [Op (of_nat (length points + zero)) [], Op opcode_checkmultisig []])"

definition to_pay_key_hash_pattern :: "short_hash \<Rightarrow> operation list" where
  "to_pay_key_hash_pattern hash =
     [Op opcode_dup [], Op opcode_hash160 [], Op opcode_special hash,
      Op opcode_equalverify [], Op opcode_checksig []]"

definition to_pay_key_hash_with_lock_height_pattern :: "short_hash \<Rightarrow> u32 \<Rightarrow> operation list" where
  "to_pay_key_hash_with_lock_height_pattern hash block_height =
     [Op opcode_special (cscriptnum_serialize (uint block_height)), Op opcode_numequalverify [],
      Op opcode_dup [], Op opcode_hash160 [], Op opcode_special hash,
      Op opcode_equalverify [], Op opcode_checksig []]"

definition to_pay_script_hash_pattern :: "short_hash \<Rightarrow> operation list" where
  "to_pay_script_hash_pattern hash =
     [Op opcode_hash160 [], Op opcode_special hash, Op opcode_equal []]"

section \<open>The codec\<close>

definition wf_operation :: "operation \<Rightarrow> bool" where
  "wf_operation op \<longleftrightarrow>
     (let code = op_code op; n = length (op_data op) in
      if code = opcode_special then 0 < n \<and> n \<le> 75
      else if code = opcode_pushdata1 then n < 2 ^ 8
      else if code = opcode_pushdata2 then n < 2 ^ 16
      else if code = opcode_pushdata4 then n < 2 ^ 32
      else n = 0 \<and> (code = 0 \<or> 75 < code) \<and> code \<noteq> opcode_raw_data)"

lemma opcode_of_byte_simps [simp]:
  "0 < n \<Longrightarrow> n \<le> 75 \<Longrightarrow> opcode_of_byte (of_nat n) = 1"
  "b = 0 \<or> 75 < b \<Longrightarrow> opcode_of_byte b = b"
  by (auto simp: opcode_of_byte_def word_less_nat_alt word_le_nat_alt unat_of_nat)

lemma unat_of_nat_fits:
  "n < 2 ^ 8 \<Longrightarrow> unat (of_nat n :: u8) = n" "n < 2 ^ 16 \<Longrightarrow> unat (of_nat n :: u16) = n"
  "n < 2 ^ 32 \<Longrightarrow> unat (of_nat n :: u32) = n"
  by (simp_all add: unat_of_nat)

lemma unat_ucast_up:
  "unat (ucast (a :: u8) :: u32) = unat a" "unat (ucast (b :: u16) :: u32) = unat b"
  by (simp_all add: unsigned_ucast_eq take_bit_nat_eq_self less_trans [OF unsigned_less])

lemmas operation_codec = operation_to_data_def operation_from_data_def must_read_data_def
  read_opcode_data_size_def write_byte_def Let_def

lemma operation_read_back:
  assumes "wf_operation op"
  shows "run_state operation_from_data (ready (operation_to_data op @ rest) j) = ((True, op), ready rest j)"
proof (cases "op_code op = opcode_special")
  case True
  with assms have n: "0 < length (op_data op)" "length (op_data op) \<le> 75"
    by (simp_all add: wf_operation_def)
  then show ?thesis
    using True by (cases op) (simp add: operation_codec codec_simps unat_of_nat_fits unat_ucast_up)
next
  case False
  with assms show ?thesis
    by (cases op)
      (auto simp: wf_operation_def operation_codec codec_simps unat_of_nat_fits unat_ucast_up
        split: if_splits)
qed

lemma local_read_opcode_data_size [local_intros]: "local_read (read_opcode_data_size c b)"
  unfolding read_opcode_data_size_def by (intro local_intros)

lemma local_operation_from_data [local_intros]: "local_read operation_from_data"
  unfolding operation_from_data_def by (intro local_intros)

lemma operation_from_data_first:
  obtains K where "operation_from_data = State_Monad.bind read_byte K" "\<And>b. local_read (K b)"
  by (rule that, rule operation_from_data_def) (intro local_intros)

lemma operation_good:
  "run_state operation_from_data r0 = ((True, op), r) \<Longrightarrow> source_good r"
  by (auto simp: operation_from_data_def split: prod.splits if_splits)

interpretation operation_wire: wire_object wf_operation operation_to_data operation_from_data
  by unfold_locales (auto intro: operation_read_back operation_good local_intros)

text \<open>What a successful read consumed: the operation's own encoding, or the lone byte \<open>0xbb\<close>.\<close>

definition reencodes :: "operation \<Rightarrow> bytes \<Rightarrow> bool" where
  "reencodes op bs =
     (if op_code op = opcode_raw_data then op_data op = [] \<and> bs = [0xbb]
      else wf_operation op \<and> bs = operation_to_data op)"

lemma sized_push_consumed:
  assumes "run_state (do { data \<leftarrow> read_data n; ok \<leftarrow> source_ok;
        State_Monad.return (if ok \<and> length data = n then (True, Op c data) else (False, operation_reset)) })
      (ready bs j) = ((True, op), r)"
  shows "\<exists>d. bs = d @ source_bytes r \<and> length d = n \<and> op = Op c d \<and> r = ready (source_bytes r) j"
proof -
  obtain d r1 where 1: "run_state (read_data n) (ready bs j) = (d, r1)" by fastforce
  with assms have "source_good r1" "op = Op c d" "r = r1" by (auto split: if_splits)
  with read_data_consumed [OF 1] show ?thesis by auto
qed

text \<open>The size field of the three \<open>pushdata\<close> codes, and the lengths it can express.\<close>

definition size_field :: "opcode \<Rightarrow> nat \<Rightarrow> bytes" where
  "size_field c n =
     (if c = opcode_pushdata1 then write_byte (of_nat n)
      else if c = opcode_pushdata2 then write_2_bytes_little_endian (of_nat n)
      else write_4_bytes_little_endian (of_nat n))"

lemma size_field_consumed:
  assumes "run_state (read_opcode_data_size c c) (ready bs j) = (n, r)" "source_good r"
    and "c = opcode_pushdata1 \<or> c = opcode_pushdata2 \<or> c = opcode_pushdata4"
  shows "bs = size_field c (unat n) @ source_bytes r" "r = ready (source_bytes r) j"
    "c = opcode_pushdata1 \<Longrightarrow> unat n < 2 ^ 8" "c = opcode_pushdata2 \<Longrightarrow> unat n < 2 ^ 16"
    "unat n < 2 ^ 32"
proof -
  show "unat n < 2 ^ 32" using unsigned_less [of n] by simp
  from assms(3) consider "c = opcode_pushdata1" | "c = opcode_pushdata2" | "c = opcode_pushdata4" by blast
  then have "bs = size_field c (unat n) @ source_bytes r \<and> r = ready (source_bytes r) j
    \<and> (c = opcode_pushdata1 \<longrightarrow> unat n < 2 ^ 8) \<and> (c = opcode_pushdata2 \<longrightarrow> unat n < 2 ^ 16)"
  proof cases
    case 1
    with assms obtain b where b: "run_state read_byte (ready bs j) = (b, r)" "n = ucast b"
      by (auto simp: read_opcode_data_size_def split: prod.splits)
    with read_byte_consumed [OF b(1) assms(2)] 1 show ?thesis
      by (auto simp: size_field_def write_byte_def)
  next
    case 2
    with assms obtain w where w: "run_state read_2_bytes_little_endian (ready bs j) = (w, r)" "n = ucast w"
      by (auto simp: read_opcode_data_size_def split: prod.splits)
    with read_words_consumed(1) [OF w(1) assms(2)] 2 show ?thesis
      using unsigned_less [of w] by (auto simp: size_field_def unat_ucast_up)
  next
    case 3
    with assms have w: "run_state read_4_bytes_little_endian (ready bs j) = (n, r)"
      by (auto simp: read_opcode_data_size_def)
    with read_words_consumed(2) [OF w assms(2)] 3 show ?thesis
      by (auto simp: size_field_def)
  qed
  then show "bs = size_field c (unat n) @ source_bytes r" "r = ready (source_bytes r) j"
    "c = opcode_pushdata1 \<Longrightarrow> unat n < 2 ^ 8" "c = opcode_pushdata2 \<Longrightarrow> unat n < 2 ^ 16" by auto
qed

lemma opcode_of_byte_cases:
  obtains (push) "0 < b" "b \<le> 75" "opcode_of_byte b = 1"
  | (other) "b = 0 \<or> 75 < b" "opcode_of_byte b = b"
  by (cases "0 < b \<and> b \<le> 75") (use word_gt_0 in \<open>auto simp: opcode_of_byte_def not_le\<close>)

lemma operation_consumed:
  assumes "run_state operation_from_data (ready bs j) = ((True, op), r)"
  shows "\<exists>pre. bs = pre @ source_bytes r \<and> reencodes op pre \<and> r = ready (source_bytes r) j"
proof (cases bs)
  case Nil
  obtain K where K: "operation_from_data = State_Monad.bind read_byte K" "\<And>b. local_read (K b)"
    using operation_from_data_first by blast
  have "run_state (K j) (failed [] j) = ((True, op), r)"
    using assms Nil unfolding K(1) by (simp add: read_byte_def)
  then show ?thesis
    using local_read_sticky [OF K(2)] operation_good [OF assms] by fastforce
next
  case (Cons b bs')
  show ?thesis
  proof (cases b rule: opcode_of_byte_cases)
    case push
    then obtain d where "bs' = d @ source_bytes r" "length d = unat b" "op = Op 1 d" "r = ready (source_bytes r) j"
      using assms Cons sized_push_consumed [of "unat b" "opcode_of_byte b" bs' j op r]
      by (auto simp: operation_from_data_def must_read_data_def read_opcode_data_size_def codec_simps unat_ucast_up)
    moreover have "0 < unat b" "unat b \<le> 75" using push by (simp_all add: word_less_nat_alt word_le_nat_alt)
    ultimately show ?thesis using Cons
      by (auto simp: reencodes_def wf_operation_def operation_codec)
  next
    case other
    show ?thesis
    proof (cases "must_read_data b")
      case False
      then show ?thesis
        using assms other Cons
        by (intro exI [of _ "[b]"])
          (auto simp: operation_from_data_def codec_simps reencodes_def wf_operation_def operation_codec)
    next
      case True
      let ?size = "read_opcode_data_size b b"
      obtain n r1 where 1: "run_state ?size (ready bs' j) = (n, r1)" by fastforce
      let ?k = "do { data \<leftarrow> read_data (unat n); ok \<leftarrow> source_ok;
        State_Monad.return (if ok \<and> length data = unat n then (True, Op (opcode_of_byte b) data) else (False, operation_reset)) }"
      have 2: "run_state ?k r1 = ((True, op), r)"
        using assms other Cons True 1 by (simp add: operation_from_data_def codec_simps)
      have g: "source_good r1"
        using local_read_sticky [OF _ 2 operation_good [OF assms]] by (simp add: local_intros)
      obtain d where d: "source_bytes r1 = d @ source_bytes r" "length d = unat n" "op = Op b d"
        "r = ready (source_bytes r) (source_junk r1)"
        using sized_push_consumed [of "unat n" "opcode_of_byte b" "source_bytes r1" "source_junk r1" op r]
          2 good_reader [OF g] other(2) by auto
      have c: "b = opcode_pushdata1 \<or> b = opcode_pushdata2 \<or> b = opcode_pushdata4"
        using True other by (auto simp: must_read_data_def)
      note s = size_field_consumed [OF 1 g c]
      have "source_junk r1 = j" using s(2) by (metis reader.select_convs(3))
      moreover have "bs = b # size_field b (length d) @ d @ source_bytes r"
        using s(1) d(1,2) Cons by simp
      ultimately show ?thesis
        using d s(3-5) c by (auto simp: reencodes_def wf_operation_def size_field_def operation_codec)
    qed
  qed
qed

lemma length_operation_to_data [size_simps]:
  "length (operation_to_data op) = operation_serialized_size op"
  by (simp add: operation_to_data_def operation_serialized_size_def Let_def size_simps)

lemma reencodes_nonempty: "reencodes op bs \<Longrightarrow> bs \<noteq> []"
  by (auto simp: reencodes_def operation_to_data_def Let_def write_byte_def split: if_splits)

lemma wf_not_raw: "wf_operation op \<Longrightarrow> op_code op \<noteq> opcode_raw_data"
  by (auto simp: wf_operation_def Let_def split: if_splits)

lemma wf_reencodes: "wf_operation op \<Longrightarrow> reencodes op (operation_to_data op)"
  by (simp add: reencodes_def wf_not_raw)

section \<open>Templates and recognisers\<close>

lemma push_only_iff: "is_push_only ops \<longleftrightarrow> list_all (\<lambda>op. is_push (op_code op)) ops"
  by (simp add: is_push_only_def count_non_push_def filter_empty_conv list_all_iff)

text \<open>Every template that builds a standard payment script is recognised by the comparison
  of its pattern, for every hash of twenty bytes, public key and data of allowed size.\<close>

theorem templates_recognised:
  assumes "length hash = short_hash_size" "is_public_key point" "length data \<le> max_null_data_size"
  shows "is_pay_key_hash_pattern (to_pay_key_hash_pattern hash)
    \<and> is_pay_script_hash_pattern (to_pay_script_hash_pattern hash)
    \<and> is_pay_key_hash_with_lock_height_pattern (to_pay_key_hash_with_lock_height_pattern hash height)
    \<and> is_pay_public_key_pattern (to_pay_public_key_pattern point)
    \<and> is_null_data_pattern (to_null_data_pattern data)"
  using assms
  by (simp add: is_pay_key_hash_pattern_def to_pay_key_hash_pattern_def
      is_pay_script_hash_pattern_def to_pay_script_hash_pattern_def
      is_pay_key_hash_with_lock_height_pattern_def to_pay_key_hash_with_lock_height_pattern_def
      is_pay_public_key_pattern_def to_pay_public_key_pattern_def
      is_null_data_pattern_def to_null_data_pattern_def nth_Cons')

theorem templates_recognised_witness:
  "is_pay_key_hash_pattern (to_pay_key_hash_pattern (replicate 20 1))
    \<and> is_pay_script_hash_pattern (to_pay_script_hash_pattern (replicate 20 1))
    \<and> is_pay_key_hash_with_lock_height_pattern (to_pay_key_hash_with_lock_height_pattern (replicate 20 1) 25200)
    \<and> is_pay_public_key_pattern (to_pay_public_key_pattern (2 # replicate 32 7))
    \<and> is_null_data_pattern (to_null_data_pattern [1, 2])"
  by (rule templates_recognised) (simp_all add: is_public_key_def is_compressed_key_def)

text \<open>C38: the multisig template is never recognised as a multisig payment: the vector is created
  with \<open>points.size() + 3\<close> default operations and the template is appended after them.\<close>

theorem multisig_template_not_recognised:
  "\<not> is_pay_multisig_pattern (to_pay_multisig_pattern signatures points)"
  by (auto simp: is_pay_multisig_pattern_def to_pay_multisig_pattern_def Let_def nth_append split: if_splits)



end
