(* ===== verification/Script.thy ===== *)
theory Script
  imports Operation
begin

text \<open>
  Scripts: the parsing, serialisation and classification half of \<open>chain/script/script.cpp\<close>, and
  the one pattern of \<open>operation.cpp\<close> that parses a redeem script. The class has the single member
  \<open>operations\<close>, so a script is the list of its operations.
\<close>

type_synonym script = "operation list"

datatype parse_mode = Strict | Raw_data | Raw_data_fallback

datatype script_pattern =
    Null_data | Pay_multisig | Pay_public_key | Pay_key_hash | Pay_key_hash_with_lock_height
  | Pay_script_hash | Sign_multisig | Sign_public_key | Sign_key_hash
  | Sign_key_hash_with_lock_height | Sign_script_hash | Non_standard

section \<open>Parsing\<close>

lemma operation_progress:
  assumes "run_state operation_from_data r = ((True, op), r')" "source_good r"
  shows "length (source_bytes r') < length (source_bytes r)"
proof -
  have "run_state operation_from_data (ready (source_bytes r) (source_junk r)) = ((True, op), r')"
    using assms(1) good_reader [OF assms(2)] by simp
  then show ?thesis using operation_consumed reencodes_nonempty by fastforce
qed

text \<open>
  The loop of \<open>parse\<close>: an operation is appended before it is read, so that a failing read leaves
  its reset operation behind. Every read consumes at least a byte.
\<close>

function script_parse_loop :: "reader \<Rightarrow> bool \<times> operation list" where
  "script_parse_loop r =
     (if source_good r \<and> source_bytes r \<noteq> [] then
        (case run_state operation_from_data r of
           ((result, op), r') \<Rightarrow>
             if result then (case script_parse_loop r' of (res, ops) \<Rightarrow> (res, op # ops))
             else (False, [op]))
      else (True, []))"
  by pat_completeness auto
termination
  by (relation "measure (\<lambda>r. length (source_bytes r))") (auto dest: operation_progress [OF sym])

declare script_parse_loop.simps [simp del]

text \<open>
  The stream over the raw script is private to \<open>parse\<close>. What an uninitialised byte of it holds
  does not matter: a read that fails makes the whole operation fail.
\<close>

definition script_parse :: "bytes \<Rightarrow> bool \<times> operation list" where
  "script_parse raw_script = (if raw_script \<noteq> [] then script_parse_loop (ready raw_script 0) else (True, []))"

definition script_deserialize :: "bytes \<Rightarrow> parse_mode \<Rightarrow> bool \<times> script" where
  "script_deserialize raw_script mode =
     (let (result, operations) = (if mode \<noteq> Raw_data then script_parse raw_script else (False, []))
      in if \<not> result \<and> mode \<noteq> Strict then (True, [Op opcode_raw_data raw_script])
         else (result, operations))"

text \<open>
  \<open>from_data(reader&, prefix, mode)\<close>. The length prefix is truncated to 32 bits; the assertion
  that it fits is compiled out of release builds.
\<close>

definition script_from_data :: "bool \<Rightarrow> parse_mode \<Rightarrow> (bool \<times> script) reads" where
  "script_from_data prefix mode = do {
     (result, raw_script) \<leftarrow>
       (if prefix then do {
          script_length \<leftarrow> read_variable_uint_little_endian;
          result \<leftarrow> source_ok;
          (if result then do {
             let script_length32 = (ucast script_length :: u32);
             raw_script \<leftarrow> read_data (unat script_length32);
             ok \<leftarrow> source_ok;
             State_Monad.return (ok \<and> length raw_script = unat script_length32, raw_script) }
           else State_Monad.return (False, [])) }
        else do {
          raw_script \<leftarrow> read_data_to_eof;
          result \<leftarrow> source_ok;
          State_Monad.return (result, raw_script) });
     let (result, operations) = (if result then script_deserialize raw_script mode else (False, []));
     State_Monad.return (if result then (True, operations) else (False, [])) }"

text \<open>\<open>from_data(const data_chunk&, prefix, mode)\<close>.\<close>

definition script_from_chunk :: "bytes \<Rightarrow> bool \<Rightarrow> parse_mode \<Rightarrow> bool \<times> script" where
  "script_from_chunk data prefix mode =
     (if prefix then fst (run_state (script_from_data True mode) (ready data 0))
      else (let (result, operations) = script_deserialize data mode
            in if result then (True, operations) else (False, [])))"

section \<open>Serialisation\<close>

definition satoshi_content_size :: "script \<Rightarrow> nat" where
  "satoshi_content_size operations =
     (if length operations > 0 \<and> op_code (operations ! 0) = opcode_raw_data
      then operation_serialized_size (operations ! 0)
      else foldl (\<lambda>total op. total + operation_serialized_size op) 0 operations)"

definition script_serialized_size :: "script \<Rightarrow> bool \<Rightarrow> nat" where
  "script_serialized_size operations prefix =
     (let size = satoshi_content_size operations
      in if prefix then size + variable_uint_size (of_nat size) else size)"

definition script_to_data :: "bool \<Rightarrow> script \<Rightarrow> bytes" where
  "script_to_data prefix operations =
     (if prefix then write_variable_uint_little_endian (of_nat (satoshi_content_size operations)) else [])
     @ (if length operations > 0 \<and> op_code (operations ! 0) = opcode_raw_data
        then operation_to_data (operations ! 0)
        else concat (map operation_to_data operations))"

definition script_is_raw_data :: "script \<Rightarrow> bool" where
  "script_is_raw_data operations \<longleftrightarrow> length operations = 1 \<and> op_code (operations ! 0) = opcode_raw_data"

definition script_is_valid :: "script \<Rightarrow> bool" where
  "script_is_valid operations \<longleftrightarrow> operations \<noteq> []"

section \<open>Classification\<close>

text \<open>
  The redeem script's own pattern is asked for, and that question may again parse a redeem script.
  Only payment patterns count for the answer, and no script with a payment or null-data pattern
  reaches the recursive test, so that the recursion is cut after one level.
\<close>

definition payment_pattern :: "operation list \<Rightarrow> script_pattern option" where
  "payment_pattern operations =
     (if is_null_data_pattern operations then Some Null_data
      else if is_pay_multisig_pattern operations then Some Pay_multisig
      else if is_pay_public_key_pattern operations then Some Pay_public_key
      else if is_pay_key_hash_pattern operations then Some Pay_key_hash
      else if is_pay_key_hash_with_lock_height_pattern operations then Some Pay_key_hash_with_lock_height
      else if is_pay_script_hash_pattern operations then Some Pay_script_hash
      else None)"

definition is_sign_script_hash_pattern :: "operation list \<Rightarrow> bool" where
  "is_sign_script_hash_pattern ops =
     (if length ops < 2 \<or> \<not> is_push_only ops then False
      else
        (let redeem_data = op_data (last ops) in
         if redeem_data = [] then False
         else
           (case script_from_chunk redeem_data False Strict of
              (ok, redeem_script) \<Rightarrow>
                if \<not> ok then False
                else payment_pattern redeem_script
                       \<in> {Some Pay_multisig, Some Pay_public_key, Some Pay_key_hash,
                          Some Pay_script_hash, Some Null_data})))"

definition pattern :: "script \<Rightarrow> script_pattern" where
  "pattern operations =
     (if is_null_data_pattern operations then Null_data
      else if is_pay_multisig_pattern operations then Pay_multisig
      else if is_pay_public_key_pattern operations then Pay_public_key
      else if is_pay_key_hash_pattern operations then Pay_key_hash
      else if is_pay_key_hash_with_lock_height_pattern operations then Pay_key_hash_with_lock_height
      else if is_pay_script_hash_pattern operations then Pay_script_hash
      else if is_sign_multisig_pattern operations then Sign_multisig
      else if is_sign_public_key_pattern operations then Sign_public_key
      else if is_sign_key_hash_pattern operations then Sign_key_hash
      else if is_sign_key_hash_with_lock_height_pattern operations then Sign_key_hash_with_lock_height
      else if is_sign_script_hash_pattern operations then Sign_script_hash
      else Non_standard)"

lemma payment_pattern_agrees:
  "p \<in> {Null_data, Pay_multisig, Pay_public_key, Pay_key_hash, Pay_key_hash_with_lock_height, Pay_script_hash}
     \<Longrightarrow> payment_pattern s = Some p \<longleftrightarrow> pattern s = p"
  by (auto simp: payment_pattern_def pattern_def)

section \<open>What parsing a raw script gives\<close>

lemma parse_loop_Nil [simp]: "script_parse_loop (ready [] j) = (True, [])"
  by (simp add: script_parse_loop.simps)

lemma parse_loop_chunks:
  "script_parse_loop r = (True, ops) \<Longrightarrow> source_good r \<Longrightarrow>
     \<exists>chunks. source_bytes r = concat chunks \<and> list_all2 reencodes ops chunks"
proof (induction r arbitrary: ops rule: script_parse_loop.induct)
  case (1 r)
  show ?case
  proof (cases "source_bytes r = []")
    case True
    with "1.prems" show ?thesis
      by (intro exI [of _ "[]"]) (simp add: script_parse_loop.simps)
  next
    case False
    obtain result op r' where run: "run_state operation_from_data r = ((result, op), r')"
      by (metis prod.collapse)
    have result and ops: "\<exists>ops'. script_parse_loop r' = (True, ops') \<and> ops = op # ops'"
      using "1.prems" False run by (subst (asm) script_parse_loop.simps, auto split: if_splits prod.splits)+
    then obtain ops' where ops': "script_parse_loop r' = (True, ops')" "ops = op # ops'" by auto
    have "run_state operation_from_data (ready (source_bytes r) (source_junk r)) = ((True, op), r')"
      using run \<open>result\<close> good_reader [OF "1.prems"(2)] by simp
    then obtain pre where pre: "source_bytes r = pre @ source_bytes r'" "reencodes op pre"
      using operation_consumed by blast
    have "source_good r'" using operation_good run \<open>result\<close> by simp
    then obtain chunks where "source_bytes r' = concat chunks" "list_all2 reencodes ops' chunks"
      using "1.IH" "1.prems"(2) False run \<open>result\<close> ops'(1) by (metis)
    with pre ops'(2) show ?thesis by (intro exI [of _ "pre # chunks"]) simp
  qed
qed

lemma parse_loop_operations:
  "list_all wf_operation ops \<Longrightarrow> script_parse_loop (ready (concat (map operation_to_data ops)) j) = (True, ops)"
proof (induction ops)
  case (Cons op ops)
  have "operation_to_data op \<noteq> []"
    using reencodes_nonempty [OF wf_reencodes] Cons.prems by simp
  with Cons show ?case by (subst script_parse_loop.simps) (simp add: operation_read_back)
qed simp

section \<open>Sizes\<close>

lemma foldl_add_nat: "foldl (\<lambda>total x. total + f x) (n :: nat) xs = n + (\<Sum>x\<leftarrow>xs. f x)"
  by (induction xs arbitrary: n) auto

lemma length_script_content [size_simps]: "length (script_to_data False ops) = satoshi_content_size ops"
  by (simp add: script_to_data_def satoshi_content_size_def size_simps length_concat foldl_add_nat comp_def)

lemma script_to_data_prefix:
  "script_to_data True ops =
     write_variable_uint_little_endian (of_nat (length (script_to_data False ops))) @ script_to_data False ops"
  by (simp only: length_script_content) (simp add: script_to_data_def)

section \<open>The wire format\<close>

definition wf_script :: "script \<Rightarrow> bool" where
  "wf_script ops \<longleftrightarrow> satoshi_content_size ops < 2 ^ 32 \<and>
     (list_all wf_operation ops
      \<or> (script_is_raw_data ops \<and> \<not> fst (script_parse (op_data (ops ! 0)))))"

lemma script_to_data_parsed:
  "list_all wf_operation ops \<Longrightarrow> script_to_data False ops = concat (map operation_to_data ops)"
  by (cases ops) (auto simp: script_to_data_def wf_not_raw)

lemma script_to_data_raw [simp]: "script_to_data False [Op opcode_raw_data d] = d"
  by (simp add: script_to_data_def operation_to_data_def)

lemma raw_data_shape: "script_is_raw_data ops \<Longrightarrow> ops = [Op opcode_raw_data (op_data (ops ! 0))]"
  by (cases ops) (auto simp: script_is_raw_data_def)

lemma script_parse_operations:
  "list_all wf_operation ops \<Longrightarrow> script_parse (concat (map operation_to_data ops)) = (True, ops)"
  using parse_loop_operations [of ops 0] reencodes_nonempty [OF wf_reencodes]
  by (cases ops) (auto simp: script_parse_def)

lemma deserialize_content:
  assumes "wf_script ops"
  shows "script_deserialize (script_to_data False ops) Raw_data_fallback = (True, ops)"
proof (cases "list_all wf_operation ops")
  case True
  then show ?thesis by (simp add: script_deserialize_def script_to_data_parsed script_parse_operations)
next
  case False
  with assms have raw: "script_is_raw_data ops" "\<not> fst (script_parse (op_data (ops ! 0)))"
    by (auto simp: wf_script_def)
  obtain d where d: "ops = [Op opcode_raw_data d]" using raw_data_shape [OF raw(1)] by blast
  with raw(2) show ?thesis by (auto simp: script_deserialize_def split: prod.splits)
qed

text \<open>Reading a length-prefixed script, for the modes that do not fail.\<close>

lemma script_read_prefixed:
  assumes "length raw < 2 ^ 32" "script_deserialize raw mode = (True, ops)"
  shows "run_state (script_from_data True mode)
      (ready (write_variable_uint_little_endian (of_nat (length raw)) @ raw @ rest) j)
    = ((True, ops), ready rest j)"
proof -
  have "unat (ucast (of_nat (length raw) :: u64) :: u32) = length raw"
    using assms(1) by (simp add: unsigned_ucast_eq unat_of_nat take_bit_nat_eq_self)
  with assms show ?thesis
    by (simp add: script_from_data_def codec_simps)
qed

lemma script_read_back:
  "wf_script ops \<Longrightarrow> run_state (script_from_data True Raw_data_fallback) (ready (script_to_data True ops @ rest) j)
     = ((True, ops), ready rest j)"
  using script_read_prefixed [OF _ deserialize_content, of ops rest j]
  by (simp add: script_to_data_prefix length_script_content wf_script_def)

lemma local_script_from_data [local_intros]: "local_read (script_from_data True mode)"
  unfolding script_from_data_def Let_def if_True by (intro local_intros)

lemma script_good:
  "run_state (script_from_data True mode) r0 = ((True, ops), r) \<Longrightarrow> source_good r"
  by (auto simp: script_from_data_def Let_def split: prod.splits if_splits)

interpretation script_wire: wire_object wf_script "script_to_data True" "script_from_data True Raw_data_fallback"
  by unfold_locales (auto intro: script_read_back script_good local_intros)

text \<open>Coinbase inputs are read in raw mode: any bytes at all come back.\<close>

definition wf_raw_script :: "script \<Rightarrow> bool" where
  "wf_raw_script ops \<longleftrightarrow> satoshi_content_size ops < 2 ^ 32 \<and> script_is_raw_data ops"

interpretation raw_script_wire: wire_object wf_raw_script "script_to_data True" "script_from_data True Raw_data"
proof unfold_locales
  fix ops rest j
  assume wf: "wf_raw_script ops"
  then obtain d where d: "ops = [Op opcode_raw_data d]" using raw_data_shape by (auto simp: wf_raw_script_def)
  have "length d < 2 ^ 32" using wf d by (simp add: wf_raw_script_def flip: length_script_content)
  then show "run_state (script_from_data True Raw_data) (ready (script_to_data True ops @ rest) j)
      = ((True, ops), ready rest j)"
    using d script_read_prefixed [of d Raw_data ops rest j]
    by (simp add: script_deserialize_def script_to_data_prefix)
qed (auto intro: script_good local_intros)

section \<open>Which scripts keep their bytes\<close>

lemma parsed_chunks:
  assumes "script_parse raw = (True, ops)"
  shows "\<exists>chunks. raw = concat chunks \<and> list_all2 reencodes ops chunks"
proof (cases "raw = []")
  case True
  with assms show ?thesis by (intro exI [of _ "[]"]) (simp add: script_parse_def)
next
  case False
  with assms parse_loop_chunks [of "ready raw 0" ops] show ?thesis by (simp add: script_parse_def)
qed

lemma chunks_kept:
  "list_all2 reencodes ops chunks \<Longrightarrow> Op opcode_raw_data [] \<notin> set ops \<Longrightarrow>
     list_all wf_operation ops \<and> concat (map operation_to_data ops) = concat chunks"
  by (induction rule: list_all2_induct) (auto simp: reencodes_def split: if_splits intro: operation.equality)

lemma chunks_lost:
  "list_all2 reencodes ops chunks \<Longrightarrow> Op opcode_raw_data [] \<in> set ops \<Longrightarrow>
     length (concat (map operation_to_data ops)) < length (concat chunks)"
proof (induction rule: list_all2_induct)
  case (Cons op ops c cs)
  have le: "length (concat (map operation_to_data ops)) \<le> length (concat cs)"
    using Cons.hyps(2) Cons.IH chunks_kept by (metis less_imp_le order_refl)
  show ?case
  proof (cases "op_code op = opcode_raw_data")
    case True
    then have "c = [0xbb]" "operation_to_data op = []"
      using Cons.hyps(1) by (simp_all add: reencodes_def operation_to_data_def)
    with le show ?thesis by simp
  next
    case False
    then have "op \<noteq> Op opcode_raw_data []" by auto
    with False Cons show ?thesis by (simp add: reencodes_def)
  qed
qed simp

lemma parsed_script_bytes:
  assumes "script_parse raw = (True, ops)"
  shows "script_to_data False ops = raw \<longleftrightarrow> Op opcode_raw_data [] \<notin> set ops"
proof -
  obtain chunks where c: "raw = concat chunks" "list_all2 reencodes ops chunks"
    using parsed_chunks [OF assms] by blast
  show ?thesis
  proof (cases "Op opcode_raw_data [] \<in> set ops")
    case False
    then show ?thesis using chunks_kept [OF c(2)] c(1) by (simp add: script_to_data_parsed)
  next
    case True
    have "length (script_to_data False ops) \<le> length (concat (map operation_to_data ops))"
      by (cases ops) (auto simp: script_to_data_def)
    also have "\<dots> < length raw" using chunks_lost [OF c(2) True] c(1) by simp
    finally show ?thesis using True by auto
  qed
qed

text \<open>C28: reading a script with the raw-data fallback never fails, and it is written back with
  exactly the bytes it was read from if and only if the byte \<open>0xbb\<close> was not parsed as an
  operation of its own (the enumerator \<open>raw_data\<close> has that value).\<close>

theorem script_bytes_preserved:
  "case script_deserialize raw Raw_data_fallback of (result, operations) \<Rightarrow>
     result \<and> (script_to_data False operations = raw \<longleftrightarrow> Op opcode_raw_data [] \<notin> set operations)"
proof -
  obtain result ops where p: "script_parse raw = (result, ops)" by fastforce
  show ?thesis
  proof (cases result)
    case True
    then show ?thesis using p parsed_script_bytes by (simp add: script_deserialize_def)
  next
    case False
    then have "raw \<noteq> []" using p by (auto simp: script_parse_def)
    with False p show ?thesis by (simp add: script_deserialize_def)
  qed
qed

text \<open>C37: a script that begins with the byte \<open>0xbb\<close> and whose rest parses loses all its bytes when
  it is written back: the first operation is taken for raw data, and raw data without content.\<close>

theorem raw_data_byte_erases_script:
  assumes "fst (script_parse raw)"
  shows "script_to_data False (snd (script_deserialize (0xbb # raw) Raw_data_fallback)) = []"
proof -
  obtain ops where ops: "script_parse raw = (True, ops)" using assms by (cases "script_parse raw") auto
  have "run_state operation_from_data (ready (0xbb # raw) 0) = ((True, Op opcode_raw_data []), ready raw 0)"
    by (simp add: operation_from_data_def codec_simps must_read_data_def)
  then have "script_parse (0xbb # raw) = (True, Op opcode_raw_data [] # ops)"
    using ops by (cases raw) (simp_all add: script_parse_def script_parse_loop.simps [of "ready (_ # _) _"])
  then show ?thesis
    by (simp add: script_deserialize_def script_to_data_def operation_to_data_def)
qed

theorem raw_data_byte_erases_script_witness:
  "script_to_data False (snd (script_deserialize [0xbb, 0x51] Raw_data_fallback)) = []
   \<and> [0xbb, 0x51] \<noteq> ([] :: bytes)"
  using raw_data_byte_erases_script [of "[0x51]"]
  by (simp add: script_parse_def script_parse_loop.simps operation_from_data_def codec_simps
      must_read_data_def)

text \<open>A well-formed script survives the length-prefixed wire format, whatever bytes follow,
  and no proper prefix of its encoding is accepted.\<close>

theorem script_wire_roundtrip:
  assumes "wf_script s"
  shows "run_state (script_from_data True Raw_data_fallback) (ready (script_to_data True s @ rest) j)
           = ((True, s), ready rest j)
    \<and> length (script_to_data True s) = script_serialized_size s True
    \<and> (\<forall>p q. script_to_data True s = p @ q \<and> q \<noteq> [] \<longrightarrow>
         \<not> fst (fst (run_state (script_from_data True Raw_data_fallback) (ready p j))))"
proof (intro conjI allI impI)
  show "length (script_to_data True s) = script_serialized_size s True"
    by (simp add: script_to_data_prefix script_serialized_size_def Let_def size_simps)
qed (use script_wire.get_put [OF assms] script_wire.truncated_refused [OF assms] in auto)

theorem script_wire_roundtrip_witness:
  "run_state (script_from_data True Raw_data_fallback)
     (ready (script_to_data True [Op opcode_special [7, 8], Op opcode_dup []]) 0)
   = ((True, [Op opcode_special [7, 8], Op opcode_dup []]), ready [] 0)"
  using script_wire_roundtrip [of "[Op opcode_special [7, 8], Op opcode_dup []]" "[]" 0]
  by (simp add: wf_script_def wf_operation_def satoshi_content_size_def operation_serialized_size_def)

end
