(* ===== verification/Attachment.thy ===== *)
theory Attachment
  imports Codec
begin

text \<open>
  The attachments of an output, \<open>chain/attachment\<close>: ether points (ETP), the award of a locked
  deposit, an asset that is issued or transferred, or a message. The tagged unions
  (\<open>boost::variant\<close>) are datatypes; a \<open>std::string\<close> is its list of bytes. A \<open>from_data\<close> is applied
  to a default-constructed object, and gives the object as the call leaves it together with the
  returned flag.
\<close>

section \<open>Ether points and awards\<close>

record etp =
  etp_value :: u64

definition etp_reset :: etp where
  "etp_reset = \<lparr>etp_value = 0\<rparr>"

text \<open>The body that read the value is commented out: nothing is read or written.\<close>

definition etp_from_data :: "(bool \<times> etp) reads" where
  "etp_from_data = State_Monad.return (True, etp_reset)"

definition etp_to_data :: "etp \<Rightarrow> bytes" where
  "etp_to_data e = []"

definition etp_serialized_size :: "etp \<Rightarrow> nat" where
  "etp_serialized_size e = 0"

record etp_award =
  award_height :: u64

definition etp_award_reset :: etp_award where
  "etp_award_reset = \<lparr>award_height = 0\<rparr>"

definition etp_award_from_data :: "(bool \<times> etp_award) reads" where
  "etp_award_from_data = do {
     height \<leftarrow> read_8_bytes_little_endian;
     result \<leftarrow> source_ok;
     State_Monad.return (result, \<lparr>award_height = height\<rparr>) }"

definition etp_award_to_data :: "etp_award \<Rightarrow> bytes" where
  "etp_award_to_data a = write_8_bytes_little_endian (award_height a)"

definition etp_award_serialized_size :: "etp_award \<Rightarrow> nat" where
  "etp_award_serialized_size a = 8"

section \<open>Asset issues\<close>

record asset_detail =
  detail_symbol :: bytes
  detail_maximum_supply :: u64
  detail_decimal_number :: u8
  detail_unused1 :: u8
  detail_unused2 :: u8
  detail_unused3 :: u8
  detail_issuer :: bytes
  detail_address :: bytes
  detail_description :: bytes

abbreviation (input) asset_detail_symbol_fix_size :: nat where "asset_detail_symbol_fix_size \<equiv> 64"
abbreviation (input) asset_detail_fix_size :: nat where
  "asset_detail_fix_size \<equiv> 64 + 8 + 4 + 64 + 64 + 64"

definition asset_detail_reset :: asset_detail where
  "asset_detail_reset =
     \<lparr>detail_symbol = [], detail_maximum_supply = 0, detail_decimal_number = 0, detail_unused1 = 0,
      detail_unused2 = 0, detail_unused3 = 0, detail_issuer = [], detail_address = [],
      detail_description = []\<rparr>"

definition asset_detail_is_valid :: "asset_detail \<Rightarrow> bool" where
  "asset_detail_is_valid d \<longleftrightarrow>
     \<not> (detail_symbol d = [] \<or> detail_maximum_supply d = 0
        \<or> length (detail_symbol d) + 8 + 4 + length (detail_issuer d) + length (detail_address d)
            + length (detail_description d) + 4 > asset_detail_fix_size)"

definition asset_detail_from_data :: "(bool \<times> asset_detail) reads" where
  "asset_detail_from_data = do {
     symbol \<leftarrow> read_string;
     maximum_supply \<leftarrow> read_8_bytes_little_endian;
     decimal_number \<leftarrow> read_byte;
     unused1 \<leftarrow> read_byte;
     unused2 \<leftarrow> read_byte;
     unused3 \<leftarrow> read_byte;
     issuer \<leftarrow> read_string;
     address \<leftarrow> read_string;
     description \<leftarrow> read_string;
     result \<leftarrow> source_ok;
     State_Monad.return
       (if result then
          (True, \<lparr>detail_symbol = symbol, detail_maximum_supply = maximum_supply,
             detail_decimal_number = decimal_number, detail_unused1 = unused1,
             detail_unused2 = unused2, detail_unused3 = unused3, detail_issuer = issuer,
             detail_address = address, detail_description = description\<rparr>)
        else (False, asset_detail_reset)) }"

definition asset_detail_to_data :: "asset_detail \<Rightarrow> bytes" where
  "asset_detail_to_data d =
     write_string (detail_symbol d) @ write_8_bytes_little_endian (detail_maximum_supply d)
     @ write_byte (detail_decimal_number d) @ write_byte (detail_unused1 d)
     @ write_byte (detail_unused2 d) @ write_byte (detail_unused3 d)
     @ write_string (detail_issuer d) @ write_string (detail_address d)
     @ write_string (detail_description d)"

definition asset_detail_serialized_size :: "asset_detail \<Rightarrow> nat" where
  "asset_detail_serialized_size d =
     (let len = length (detail_symbol d) + 8 + 4 + length (detail_issuer d)
                + length (detail_address d) + length (detail_description d) + 4
      in min asset_detail_fix_size len)"

definition asset_detail_set_symbol :: "bytes \<Rightarrow> asset_detail \<Rightarrow> asset_detail" where
  "asset_detail_set_symbol symbol d =
     (let len = (if length symbol + 1 < asset_detail_symbol_fix_size then length symbol + 1
                 else asset_detail_symbol_fix_size)
      in d\<lparr>detail_symbol := take len symbol\<rparr>)"

section \<open>Asset transfers\<close>

text \<open>The member called \<open>address\<close> holds the symbol of the transferred asset.\<close>

record asset_transfer =
  transfer_address :: bytes
  transfer_quantity :: u64

abbreviation (input) asset_transfer_address_fix_size :: nat where "asset_transfer_address_fix_size \<equiv> 64"
abbreviation (input) asset_transfer_fix_size :: nat where "asset_transfer_fix_size \<equiv> 64 + 8"

definition asset_transfer_reset :: asset_transfer where
  "asset_transfer_reset = \<lparr>transfer_address = [], transfer_quantity = 0\<rparr>"

definition asset_transfer_is_valid :: "asset_transfer \<Rightarrow> bool" where
  "asset_transfer_is_valid t \<longleftrightarrow>
     \<not> (transfer_address t = [] \<or> transfer_quantity t = 0
        \<or> length (transfer_address t) + 1 > asset_transfer_address_fix_size)"

definition asset_transfer_from_data :: "(bool \<times> asset_transfer) reads" where
  "asset_transfer_from_data = do {
     address \<leftarrow> read_string;
     quantity \<leftarrow> read_8_bytes_little_endian;
     result \<leftarrow> source_ok;
     State_Monad.return
       (if result then (True, \<lparr>transfer_address = address, transfer_quantity = quantity\<rparr>)
        else (False, asset_transfer_reset)) }"

definition asset_transfer_to_data :: "asset_transfer \<Rightarrow> bytes" where
  "asset_transfer_to_data t =
     write_string (transfer_address t) @ write_8_bytes_little_endian (transfer_quantity t)"

definition asset_transfer_serialized_size :: "asset_transfer \<Rightarrow> nat" where
  "asset_transfer_serialized_size t =
     (let len = length (transfer_address t) + 8 + 1 in min len asset_transfer_fix_size)"

section \<open>Assets\<close>

datatype asset_data = Asset_detail asset_detail | Asset_transfer asset_transfer

record asset =
  asset_status :: u32
  asset_payload :: asset_data

abbreviation (input) asset_detail_type :: u32 where "asset_detail_type \<equiv> 1"
abbreviation (input) asset_transferable_type :: u32 where "asset_transferable_type \<equiv> 2"

definition asset_reset :: asset where
  "asset_reset = \<lparr>asset_status = 0, asset_payload = Asset_detail asset_detail_reset\<rparr>"

definition asset_is_valid_type :: "u32 \<Rightarrow> bool" where
  "asset_is_valid_type status \<longleftrightarrow> status = asset_detail_type \<or> status = asset_transferable_type"

definition asset_from_data :: "(bool \<times> asset) reads" where
  "asset_from_data = do {
     status \<leftarrow> read_4_bytes_little_endian;
     result \<leftarrow> source_ok;
     (if result \<and> asset_is_valid_type status then
        (if status = asset_detail_type then do {
           (result, d) \<leftarrow> asset_detail_from_data;
           State_Monad.return (result, \<lparr>asset_status = status, asset_payload = Asset_detail d\<rparr>) }
         else do {
           (result, t) \<leftarrow> asset_transfer_from_data;
           State_Monad.return (result, \<lparr>asset_status = status, asset_payload = Asset_transfer t\<rparr>) })
      else State_Monad.return (False, asset_reset)) }"

definition asset_to_data :: "asset \<Rightarrow> bytes" where
  "asset_to_data a =
     write_4_bytes_little_endian (asset_status a)
     @ (case asset_payload a of
          Asset_detail d \<Rightarrow> asset_detail_to_data d
        | Asset_transfer t \<Rightarrow> asset_transfer_to_data t)"

definition asset_serialized_size :: "asset \<Rightarrow> nat" where
  "asset_serialized_size a =
     4 + (case asset_payload a of
            Asset_detail d \<Rightarrow> asset_detail_serialized_size d
          | Asset_transfer t \<Rightarrow> asset_transfer_serialized_size t)"

section \<open>Messages\<close>

record blockchain_message =
  message_content :: bytes

abbreviation (input) blockchain_message_fix_size :: nat where "blockchain_message_fix_size \<equiv> 256"

definition message_reset :: blockchain_message where
  "message_reset = \<lparr>message_content = []\<rparr>"

definition message_is_valid :: "blockchain_message \<Rightarrow> bool" where
  "message_is_valid m \<longleftrightarrow>
     \<not> (message_content m = [] \<or> length (message_content m) + 1 > blockchain_message_fix_size)"

definition message_from_data :: "(bool \<times> blockchain_message) reads" where
  "message_from_data = do {
     content \<leftarrow> read_string;
     result \<leftarrow> source_ok;
     State_Monad.return (result, \<lparr>message_content = content\<rparr>) }"

definition message_to_data :: "blockchain_message \<Rightarrow> bytes" where
  "message_to_data m = write_string (message_content m)"

definition message_serialized_size :: "blockchain_message \<Rightarrow> nat" where
  "message_serialized_size m =
     (let len = length (message_content m) + 1 in min len blockchain_message_fix_size)"

definition message_set_content :: "bytes \<Rightarrow> blockchain_message \<Rightarrow> blockchain_message" where
  "message_set_content content m =
     (let len = (if length content + 1 < blockchain_message_fix_size then length content + 1
                 else blockchain_message_fix_size)
      in m\<lparr>message_content := take len content\<rparr>)"

section \<open>Attachments\<close>

datatype attachment_data =
    Attach_etp etp | Attach_etp_award etp_award | Attach_asset asset | Attach_message blockchain_message

record attachment =
  attach_version :: u32
  attach_type :: u32
  attach_payload :: attachment_data

abbreviation (input) etp_type :: u32 where "etp_type \<equiv> 0"
abbreviation (input) etp_award_type :: u32 where "etp_award_type \<equiv> 1"
abbreviation (input) asset_type :: u32 where "asset_type \<equiv> 2"
abbreviation (input) message_type :: u32 where "message_type \<equiv> 3"

text \<open>The reset of a default-constructed attachment, whose variant holds its first alternative.\<close>

definition attachment_reset :: attachment where
  "attachment_reset = \<lparr>attach_version = 0, attach_type = 0, attach_payload = Attach_etp etp_reset\<rparr>"

text \<open>\<open>attachment::reset\<close> on an attachment in use: the variant keeps its alternative.\<close>

definition attachment_reset_of :: "attachment \<Rightarrow> attachment" where
  "attachment_reset_of a =
     \<lparr>attach_version = 0, attach_type = 0,
      attach_payload =
        (case attach_payload a of
           Attach_etp e \<Rightarrow> Attach_etp etp_reset
         | Attach_etp_award w \<Rightarrow> Attach_etp_award etp_award_reset
         | Attach_asset s \<Rightarrow> Attach_asset \<lparr>asset_status = 0, asset_payload =
             (case asset_payload s of
                Asset_detail d \<Rightarrow> Asset_detail asset_detail_reset
              | Asset_transfer t \<Rightarrow> Asset_transfer asset_transfer_reset)\<rparr>
         | Attach_message m \<Rightarrow> Attach_message message_reset)\<rparr>"

definition attachment_is_valid_type :: "u32 \<Rightarrow> bool" where
  "attachment_is_valid_type type \<longleftrightarrow>
     type = etp_type \<or> type = asset_type \<or> type = message_type \<or> type = etp_award_type"

definition attachment_from_data :: "(bool \<times> attachment) reads" where
  "attachment_from_data = do {
     version \<leftarrow> read_4_bytes_little_endian;
     result \<leftarrow> source_ok;
     type \<leftarrow> (if result then read_4_bytes_little_endian else State_Monad.return 0);
     result \<leftarrow> source_ok;
     (if result \<and> attachment_is_valid_type type then
        (if type = etp_type then do {
           (result, e) \<leftarrow> etp_from_data;
           State_Monad.return (result, \<lparr>attach_version = version, attach_type = type, attach_payload = Attach_etp e\<rparr>) }
         else if type = etp_award_type then do {
           (result, w) \<leftarrow> etp_award_from_data;
           State_Monad.return (result, \<lparr>attach_version = version, attach_type = type, attach_payload = Attach_etp_award w\<rparr>) }
         else if type = asset_type then do {
           (result, s) \<leftarrow> asset_from_data;
           State_Monad.return (result, \<lparr>attach_version = version, attach_type = type, attach_payload = Attach_asset s\<rparr>) }
         else do {
           (result, m) \<leftarrow> message_from_data;
           State_Monad.return (result, \<lparr>attach_version = version, attach_type = type, attach_payload = Attach_message m\<rparr>) })
      else State_Monad.return (False, attachment_reset)) }"

definition attachment_to_data :: "attachment \<Rightarrow> bytes" where
  "attachment_to_data a =
     write_4_bytes_little_endian (attach_version a) @ write_4_bytes_little_endian (attach_type a)
     @ (case attach_payload a of
          Attach_etp e \<Rightarrow> etp_to_data e
        | Attach_etp_award w \<Rightarrow> etp_award_to_data w
        | Attach_asset s \<Rightarrow> asset_to_data s
        | Attach_message m \<Rightarrow> message_to_data m)"

definition attachment_serialized_size :: "attachment \<Rightarrow> nat" where
  "attachment_serialized_size a =
     4 + 4 + (case attach_payload a of
                Attach_etp e \<Rightarrow> etp_serialized_size e
              | Attach_etp_award w \<Rightarrow> etp_award_serialized_size w
              | Attach_asset s \<Rightarrow> asset_serialized_size s
              | Attach_message m \<Rightarrow> message_serialized_size m)"

section \<open>The wire format\<close>

definition wf_asset :: "asset \<Rightarrow> bool" where
  "wf_asset a \<longleftrightarrow>
     (case asset_payload a of
        Asset_detail d \<Rightarrow> asset_status a = asset_detail_type \<and> wire_string (detail_symbol d)
          \<and> wire_string (detail_issuer d) \<and> wire_string (detail_address d)
          \<and> wire_string (detail_description d)
      | Asset_transfer t \<Rightarrow> asset_status a = asset_transferable_type \<and> wire_string (transfer_address t))"

definition wf_attachment :: "attachment \<Rightarrow> bool" where
  "wf_attachment a \<longleftrightarrow>
     (case attach_payload a of
        Attach_etp e \<Rightarrow> attach_type a = etp_type \<and> e = etp_reset
      | Attach_etp_award w \<Rightarrow> attach_type a = etp_award_type
      | Attach_asset s \<Rightarrow> attach_type a = asset_type \<and> wf_asset s
      | Attach_message m \<Rightarrow> attach_type a = message_type \<and> wire_string (message_content m))"

lemmas attachment_codec =
  attachment_from_data_def attachment_to_data_def attachment_is_valid_type_def
  asset_from_data_def asset_to_data_def asset_is_valid_type_def
  asset_detail_from_data_def asset_detail_to_data_def
  asset_transfer_from_data_def asset_transfer_to_data_def
  etp_from_data_def etp_to_data_def etp_award_from_data_def etp_award_to_data_def
  message_from_data_def message_to_data_def write_byte_def

lemma asset_read_back:
  "wf_asset a \<Longrightarrow> run_state asset_from_data (ready (asset_to_data a @ rest) j) = ((True, a), ready rest j)"
  by (cases a) (auto simp: wf_asset_def attachment_codec codec_simps split: asset_data.splits)

lemma attachment_read_back:
  "wf_attachment a \<Longrightarrow>
     run_state attachment_from_data (ready (attachment_to_data a @ rest) j) = ((True, a), ready rest j)"
  by (cases a)
    (auto simp: wf_attachment_def attachment_from_data_def attachment_to_data_def asset_read_back
      attachment_is_valid_type_def etp_from_data_def etp_to_data_def etp_award_from_data_def
      etp_award_to_data_def message_from_data_def message_to_data_def codec_simps
      split: attachment_data.splits)

lemma asset_good: "run_state asset_from_data r0 = ((True, a), r) \<Longrightarrow> source_good r"
  by (auto simp: attachment_codec split: prod.splits if_splits)

lemma attachment_good: "run_state attachment_from_data r0 = ((True, a), r) \<Longrightarrow> source_good r"
  by (auto simp: attachment_from_data_def etp_from_data_def etp_award_from_data_def message_from_data_def
      dest: asset_good split: prod.splits if_splits)

lemma local_asset_from_data [local_intros]: "local_read asset_from_data"
  unfolding asset_from_data_def asset_detail_from_data_def asset_transfer_from_data_def
  by (intro local_intros)

lemma local_attachment_from_data [local_intros]: "local_read attachment_from_data"
  unfolding attachment_from_data_def etp_from_data_def etp_award_from_data_def message_from_data_def
  by (intro local_intros)

interpretation attachment_wire: wire_object wf_attachment attachment_to_data attachment_from_data
  by unfold_locales (auto intro: attachment_read_back attachment_good local_intros)

section \<open>Properties\<close>

lemma variable_uint_size_pos: "1 \<le> variable_uint_size v"
  by (simp add: variable_uint_size_def)

lemma variable_uint_size_small: "n < 2 ^ 64 \<Longrightarrow> variable_uint_size (of_nat n) = 1 \<longleftrightarrow> n < 253"
  by (simp add: variable_uint_size_def word_less_nat_alt unat_of_nat_u64)

lemma length_asset_to_data:
  "length (asset_to_data a) =
     4 + (case asset_payload a of
        Asset_detail d \<Rightarrow> length (write_string (detail_symbol d)) + 12 + length (write_string (detail_issuer d))
          + length (write_string (detail_address d)) + length (write_string (detail_description d))
      | Asset_transfer t \<Rightarrow> length (write_string (transfer_address t)) + 8)"
  by (simp add: asset_to_data_def asset_detail_to_data_def asset_transfer_to_data_def size_simps
      split: asset_data.splits)

lemma length_write_string_ge: "length s + 1 \<le> length (write_string s)"
  using variable_uint_size_pos [of "of_nat (length s)"] by (simp add: size_simps)

lemma asset_size_le: "asset_serialized_size s \<le> length (asset_to_data s)"
proof (cases "asset_payload s")
  case (Asset_detail d)
  have "length (detail_symbol d) + 8 + 4 + length (detail_issuer d) + length (detail_address d)
      + length (detail_description d) + 4 \<le> length (asset_to_data s) - 4"
    using length_write_string_ge [of "detail_symbol d"] length_write_string_ge [of "detail_issuer d"]
      length_write_string_ge [of "detail_address d"] length_write_string_ge [of "detail_description d"]
    unfolding length_asset_to_data Asset_detail asset_data.case by linarith
  then show ?thesis
    by (simp add: asset_serialized_size_def asset_detail_serialized_size_def Asset_detail Let_def
        length_asset_to_data)
next
  case (Asset_transfer t)
  then show ?thesis
    using length_write_string_ge [of "transfer_address t"]
    by (simp add: asset_serialized_size_def asset_transfer_serialized_size_def Let_def length_asset_to_data)
qed

lemma asset_size_bound: "asset_serialized_size s \<le> 272"
  by (simp add: asset_serialized_size_def asset_detail_serialized_size_def
      asset_transfer_serialized_size_def Let_def min_def split: asset_data.splits)

lemma attachment_size_le: "attachment_serialized_size a \<le> length (attachment_to_data a)"
proof (cases "attach_payload a")
  case (Attach_message m)
  have "min (length (message_content m) + 1) 256 \<le> length (write_string (message_content m))"
    using length_write_string_ge [of "message_content m"] by linarith
  with Attach_message show ?thesis
    by (simp add: attachment_serialized_size_def attachment_to_data_def message_serialized_size_def
        message_to_data_def length_write_word)
qed (simp_all add: attachment_serialized_size_def attachment_to_data_def etp_serialized_size_def
    etp_to_data_def etp_award_serialized_size_def etp_award_to_data_def asset_size_le size_simps)

lemma attachment_size_bound: "attachment_serialized_size a \<le> 280"
  using asset_size_bound
  by (simp add: attachment_serialized_size_def etp_serialized_size_def etp_award_serialized_size_def
      message_serialized_size_def Let_def min_def split: attachment_data.splits)

text \<open>C33: the size an attachment reports never exceeds the size of its encoding, nor 280 bytes
  whatever the attachment holds; a message of 253 bytes or more is always under-reported.\<close>

theorem attachment_size_understated:
  "attachment_serialized_size a \<le> length (attachment_to_data a)
   \<and> attachment_serialized_size a \<le> 280
   \<and> (case attach_payload a of
        Attach_message m \<Rightarrow> 253 \<le> length (message_content m) \<and> length (message_content m) < 2 ^ 64
          \<longrightarrow> attachment_serialized_size a < length (attachment_to_data a)
      | _ \<Rightarrow> True)"
proof -
  have "attachment_serialized_size a < length (attachment_to_data a)"
    if "attach_payload a = Attach_message m" "253 \<le> length (message_content m)"
      "length (message_content m) < 2 ^ 64" for m
    using that variable_uint_size_small [of "length (message_content m)"]
      variable_uint_size_pos [of "of_nat (length (message_content m))"]
    by (simp add: attachment_serialized_size_def attachment_to_data_def message_serialized_size_def
        message_to_data_def size_simps Let_def min_def)
  then show ?thesis
    using attachment_size_le attachment_size_bound by (auto split: attachment_data.splits)
qed

theorem attachment_size_understated_witness:
  "attachment_serialized_size
     \<lparr>attach_version = 1, attach_type = message_type, attach_payload = Attach_message \<lparr>message_content = replicate 300 0x41\<rparr>\<rparr>
   < length (attachment_to_data
     \<lparr>attach_version = 1, attach_type = message_type, attach_payload = Attach_message \<lparr>message_content = replicate 300 0x41\<rparr>\<rparr>)"
  using attachment_size_understated [of
      "\<lparr>attach_version = 1, attach_type = message_type, attach_payload = Attach_message \<lparr>message_content = replicate 300 0x41\<rparr>\<rparr>"]
  by simp

end
