(* ===== verification/Hashes.thy ===== *)
theory Hashes
  imports Byte_Streams
begin

unbundle bit_operations_syntax

text \<open>
  The hash functions of \<open>bitcoin/math\<close>: the C routines \<open>math/external/sha256.c\<close>,
  \<open>ripemd160.c\<close> and \<open>sha1.c\<close> with their streaming contexts, and \<open>math/hash.cpp\<close> on top of them.
  Arrays are lists, \<open>memcpy\<close> into the context's buffer is \<open>overlay\<close>. The host is little endian,
  the branch of the endianness macros that the supported platforms take. Byte counts are natural
  numbers; the loop counters of \<open>ripemd160.c\<close> and \<open>sha1.c\<close> have 32 bits in the source, which is
  enough for every input below four gigabytes.
\<close>

section \<open>Shared pieces\<close>

text \<open>\<open>memcpy(buffer + offset, input, input length)\<close>.\<close>

definition overlay :: "bytes \<Rightarrow> nat \<Rightarrow> bytes \<Rightarrow> bytes" where
  "overlay buffer offset input = take offset buffer @ input @ drop (offset + length input) buffer"

definition rotr32 :: "u32 \<Rightarrow> nat \<Rightarrow> u32" where
  "rotr32 x n = drop_bit n x OR push_bit (32 - n) x"

definition rol32 :: "u32 \<Rightarrow> nat \<Rightarrow> u32" where
  "rol32 x n = push_bit n x OR drop_bit (32 - n) x"

text \<open>The loop \<open>while (length >= 64) { Transform(state, input); input += 64; length -= 64; }\<close>.\<close>

function absorb_blocks :: "('s \<Rightarrow> bytes \<Rightarrow> 's) \<Rightarrow> 's \<Rightarrow> bytes \<Rightarrow> 's \<times> bytes" where
  "absorb_blocks transform state input =
     (if length input \<ge> 64 then absorb_blocks transform (transform state (take 64 input)) (drop 64 input)
      else (state, input))"
  by pat_completeness auto
termination
  by (relation "measure (\<lambda>(_, _, input). length input)") auto

declare absorb_blocks.simps [simp del]

section \<open>SHA-256\<close>

record sha256ctx =
  sha256_state :: "u32 list"
  sha256_count0 :: u32
  sha256_count1 :: u32
  sha256_buf :: bytes

definition be32dec :: "u8 \<Rightarrow> u8 \<Rightarrow> u8 \<Rightarrow> u8 \<Rightarrow> u32" where
  "be32dec p0 p1 p2 p3 = ucast p3 + push_bit 8 (ucast p2) + push_bit 16 (ucast p1) + push_bit 24 (ucast p0)"

definition be32enc :: "u32 \<Rightarrow> bytes" where
  "be32enc x = [ucast (drop_bit 24 x AND 0xff), ucast (drop_bit 16 x AND 0xff),
     ucast (drop_bit 8 x AND 0xff), ucast (x AND 0xff)]"

definition be32enc_vect :: "u32 list \<Rightarrow> bytes" where
  "be32enc_vect src = concat (map be32enc src)"

fun be32dec_vect :: "bytes \<Rightarrow> u32 list" where
  "be32dec_vect (p0 # p1 # p2 # p3 # rest) = be32dec p0 p1 p2 p3 # be32dec_vect rest"
| "be32dec_vect _ = []"

definition sha256_Ch :: "u32 \<Rightarrow> u32 \<Rightarrow> u32 \<Rightarrow> u32" where
  "sha256_Ch x y z = (x AND (y XOR z)) XOR z"

definition sha256_Maj :: "u32 \<Rightarrow> u32 \<Rightarrow> u32 \<Rightarrow> u32" where
  "sha256_Maj x y z = (x AND (y OR z)) OR (y AND z)"

definition sha256_S0 :: "u32 \<Rightarrow> u32" where
  "sha256_S0 x = rotr32 x 2 XOR rotr32 x 13 XOR rotr32 x 22"

definition sha256_S1 :: "u32 \<Rightarrow> u32" where
  "sha256_S1 x = rotr32 x 6 XOR rotr32 x 11 XOR rotr32 x 25"

definition sha256_s0 :: "u32 \<Rightarrow> u32" where
  "sha256_s0 x = rotr32 x 7 XOR rotr32 x 18 XOR drop_bit 3 x"

definition sha256_s1 :: "u32 \<Rightarrow> u32" where
  "sha256_s1 x = rotr32 x 17 XOR rotr32 x 19 XOR drop_bit 10 x"

text \<open>The macro \<open>RNDr(S, W, i, k)\<close> with \<open>RND\<close> unfolded in it.\<close>

definition sha256_RNDr :: "u32 list \<Rightarrow> u32 list \<Rightarrow> nat \<Rightarrow> u32 \<Rightarrow> u32 list" where
  "sha256_RNDr S W i k =
     (let a = S ! ((64 - i) mod 8); b = S ! ((65 - i) mod 8); c = S ! ((66 - i) mod 8);
          d = S ! ((67 - i) mod 8); e = S ! ((68 - i) mod 8); f = S ! ((69 - i) mod 8);
          g = S ! ((70 - i) mod 8); h = S ! ((71 - i) mod 8);
          t0 = h + sha256_S1 e + sha256_Ch e f g + (W ! i + k);
          t1 = sha256_S0 a + sha256_Maj a b c
      in S[(67 - i) mod 8 := d + t0, (71 - i) mod 8 := t0 + t1])"

text \<open>The rounds as the source writes them out: the index and the constant of each.\<close>

definition sha256_rounds :: "(nat \<times> u32) list" where
  "sha256_rounds =
     [(0, 0x428a2f98), (1, 0x71374491), (2, 0xb5c0fbcf), (3, 0xe9b5dba5),
      (4, 0x3956c25b), (5, 0x59f111f1), (6, 0x923f82a4), (7, 0xab1c5ed5),
      (8, 0xd807aa98), (9, 0x12835b01), (10, 0x243185be), (11, 0x550c7dc3),
      (12, 0x72be5d74), (13, 0x80deb1fe), (14, 0x9bdc06a7), (15, 0xc19bf174),
      (16, 0xe49b69c1), (17, 0xefbe4786), (18, 0x0fc19dc6), (19, 0x240ca1cc),
      (20, 0x2de92c6f), (21, 0x4a7484aa), (22, 0x5cb0a9dc), (23, 0x76f988da),
      (24, 0x983e5152), (25, 0xa831c66d), (26, 0xb00327c8), (27, 0xbf597fc7),
      (28, 0xc6e00bf3), (29, 0xd5a79147), (30, 0x06ca6351), (31, 0x14292967),
      (32, 0x27b70a85), (33, 0x2e1b2138), (34, 0x4d2c6dfc), (35, 0x53380d13),
      (36, 0x650a7354), (37, 0x766a0abb), (38, 0x81c2c92e), (39, 0x92722c85),
      (40, 0xa2bfe8a1), (41, 0xa81a664b), (42, 0xc24b8b70), (43, 0xc76c51a3),
      (44, 0xd192e819), (45, 0xd6990624), (46, 0xf40e3585), (47, 0x106aa070),
      (48, 0x19a4c116), (49, 0x1e376c08), (50, 0x2748774c), (51, 0x34b0bcb5),
      (52, 0x391c0cb3), (53, 0x4ed8aa4a), (54, 0x5b9cca4f), (55, 0x682e6ff3),
      (56, 0x748f82ee), (57, 0x78a5636f), (58, 0x84c87814), (59, 0x8cc70208),
      (60, 0x90befffa), (61, 0xa4506ceb), (62, 0xbef9a3f7), (63, 0xc67178f2)]"

text \<open>The message schedule: \<open>n\<close> more words are appended.\<close>

primrec sha256_schedule :: "nat \<Rightarrow> u32 list \<Rightarrow> u32 list" where
  "sha256_schedule 0 W = W"
| "sha256_schedule (Suc n) W =
     (let i = length W in
      sha256_schedule n
        (W @ [sha256_s1 (W ! (i - 2)) + W ! (i - 7) + sha256_s0 (W ! (i - 15)) + W ! (i - 16)]))"

definition SHA256Transform :: "u32 list \<Rightarrow> bytes \<Rightarrow> u32 list" where
  "SHA256Transform state block =
     (let W = sha256_schedule 48 (be32dec_vect block);
          S = foldl (\<lambda>S (i, k). sha256_RNDr S W i k) state sha256_rounds
      in map (\<lambda>(x, y). x + y) (zip state S))"

text \<open>The buffer of a fresh context is uninitialised memory, an argument here.\<close>

definition SHA256Init :: "bytes \<Rightarrow> sha256ctx" where
  "SHA256Init buf =
     \<lparr>sha256_state = [0x6A09E667, 0xBB67AE85, 0x3C6EF372, 0xA54FF53A, 0x510E527F, 0x9B05688C,
        0x1F83D9AB, 0x5BE0CD19],
      sha256_count0 = 0, sha256_count1 = 0, sha256_buf = buf\<rparr>"

definition SHA256Update :: "sha256ctx \<Rightarrow> bytes \<Rightarrow> sha256ctx" where
  "SHA256Update context input =
     (let len = length input;
          r = unat (drop_bit 3 (sha256_count1 context) AND 0x3f);
          bitlen1 = push_bit 3 (of_nat len :: u32);
          bitlen0 = ucast (drop_bit 29 (of_nat len :: u64)) :: u32;
          count1 = sha256_count1 context + bitlen1;
          count0 = (if count1 < bitlen1 then sha256_count0 context + 1 else sha256_count0 context) + bitlen0;
          context = context\<lparr>sha256_count0 := count0, sha256_count1 := count1\<rparr>
      in if len < 64 - r then context\<lparr>sha256_buf := overlay (sha256_buf context) r input\<rparr>
         else
           (let buf = overlay (sha256_buf context) r (take (64 - r) input);
                (state, rest) = absorb_blocks SHA256Transform
                  (SHA256Transform (sha256_state context) buf) (drop (64 - r) input)
            in context\<lparr>sha256_state := state, sha256_buf := overlay buf 0 rest\<rparr>))"

abbreviation (input) sha256_PAD :: bytes where "sha256_PAD \<equiv> 0x80 # replicate 63 0"

definition SHA256Pad :: "sha256ctx \<Rightarrow> sha256ctx" where
  "SHA256Pad context =
     (let len = be32enc_vect [sha256_count0 context, sha256_count1 context];
          r = unat (drop_bit 3 (sha256_count1 context) AND 0x3f);
          plen = (if r < 56 then 56 - r else 120 - r)
      in SHA256Update (SHA256Update context (take plen sha256_PAD)) len)"

definition SHA256Final :: "sha256ctx \<Rightarrow> bytes" where
  "SHA256Final context = be32enc_vect (sha256_state (SHA256Pad context))"

definition SHA256 :: "bytes \<Rightarrow> bytes \<Rightarrow> bytes" where
  "SHA256 buf input = SHA256Final (SHA256Update (SHA256Init buf) input)"

section \<open>RIPEMD-160\<close>

record rmd160ctx =
  rmd160_state :: "u32 list"
  rmd160_count :: u64
  rmd160_buffer :: bytes

definition rmd_F0 :: "u32 \<Rightarrow> u32 \<Rightarrow> u32 \<Rightarrow> u32" where "rmd_F0 x y z = x XOR y XOR z"
definition rmd_F1 :: "u32 \<Rightarrow> u32 \<Rightarrow> u32 \<Rightarrow> u32" where "rmd_F1 x y z = (x AND y) OR (NOT x AND z)"
definition rmd_F2 :: "u32 \<Rightarrow> u32 \<Rightarrow> u32 \<Rightarrow> u32" where "rmd_F2 x y z = (x OR NOT y) XOR z"
definition rmd_F3 :: "u32 \<Rightarrow> u32 \<Rightarrow> u32 \<Rightarrow> u32" where "rmd_F3 x y z = (x AND z) OR (y AND NOT z)"
definition rmd_F4 :: "u32 \<Rightarrow> u32 \<Rightarrow> u32 \<Rightarrow> u32" where "rmd_F4 x y z = x XOR (y OR NOT z)"

abbreviation (input) rmd_K0 :: u32 where "rmd_K0 \<equiv> 0x00000000"
abbreviation (input) rmd_K1 :: u32 where "rmd_K1 \<equiv> 0x5A827999"
abbreviation (input) rmd_K2 :: u32 where "rmd_K2 \<equiv> 0x6ED9EBA1"
abbreviation (input) rmd_K3 :: u32 where "rmd_K3 \<equiv> 0x8F1BBCDC"
abbreviation (input) rmd_K4 :: u32 where "rmd_K4 \<equiv> 0xA953FD4E"
abbreviation (input) rmd_KK0 :: u32 where "rmd_KK0 \<equiv> 0x50A28BE6"
abbreviation (input) rmd_KK1 :: u32 where "rmd_KK1 \<equiv> 0x5C4DD124"
abbreviation (input) rmd_KK2 :: u32 where "rmd_KK2 \<equiv> 0x6D703EF3"
abbreviation (input) rmd_KK3 :: u32 where "rmd_KK3 \<equiv> 0x7A6D76E9"
abbreviation (input) rmd_KK4 :: u32 where "rmd_KK4 \<equiv> 0x00000000"

type_synonym rmd_step = "(u32 \<Rightarrow> u32 \<Rightarrow> u32 \<Rightarrow> u32) \<times> u32 \<times> nat \<times> nat"

text \<open>
  The macro \<open>R(a, b, c, d, e, Fj, Kj, sj, rj)\<close>. Each use of it in the source shifts the five
  variables by one place, which the order of the result records; eighty uses restore it.
\<close>

definition rmd_R :: "u32 list \<Rightarrow> u32 \<times> u32 \<times> u32 \<times> u32 \<times> u32 \<Rightarrow> rmd_step \<Rightarrow> u32 \<times> u32 \<times> u32 \<times> u32 \<times> u32" where
  "rmd_R x = (\<lambda>(a, b, c, d, e) (Fj, Kj, sj, rj).
     (e, rol32 (a + Fj b c d + x ! rj + Kj) sj + e, b, rol32 c 10, d))"

definition rmd_left :: "rmd_step list" where
  "rmd_left =
     map (\<lambda>(s, r). (rmd_F0, rmd_K0, s, r)) [(11, 0), (14, 1), (15, 2), (12, 3), (5, 4), (8, 5), (7, 6), (9, 7), (11, 8), (13, 9), (14, 10), (15, 11), (6, 12), (7, 13), (9, 14), (8, 15)]
     @ map (\<lambda>(s, r). (rmd_F1, rmd_K1, s, r)) [(7, 7), (6, 4), (8, 13), (13, 1), (11, 10), (9, 6), (7, 15), (15, 3), (7, 12), (12, 0), (15, 9), (9, 5), (11, 2), (7, 14), (13, 11), (12, 8)]
     @ map (\<lambda>(s, r). (rmd_F2, rmd_K2, s, r)) [(11, 3), (13, 10), (6, 14), (7, 4), (14, 9), (9, 15), (13, 8), (15, 1), (14, 2), (8, 7), (13, 0), (6, 6), (5, 13), (12, 11), (7, 5), (5, 12)]
     @ map (\<lambda>(s, r). (rmd_F3, rmd_K3, s, r)) [(11, 1), (12, 9), (14, 11), (15, 10), (14, 0), (15, 8), (9, 12), (8, 4), (9, 13), (14, 3), (5, 7), (6, 15), (8, 14), (6, 5), (5, 6), (12, 2)]
     @ map (\<lambda>(s, r). (rmd_F4, rmd_K4, s, r)) [(9, 4), (15, 0), (5, 5), (11, 9), (6, 7), (8, 12), (13, 2), (12, 10), (5, 14), (12, 1), (13, 3), (14, 8), (11, 11), (8, 6), (5, 15), (6, 13)]"

definition rmd_right :: "rmd_step list" where
  "rmd_right =
     map (\<lambda>(s, r). (rmd_F4, rmd_KK0, s, r)) [(8, 5), (9, 14), (9, 7), (11, 0), (13, 9), (15, 2), (15, 11), (5, 4), (7, 13), (7, 6), (8, 15), (11, 8), (14, 1), (14, 10), (12, 3), (6, 12)]
     @ map (\<lambda>(s, r). (rmd_F3, rmd_KK1, s, r)) [(9, 6), (13, 11), (15, 3), (7, 7), (12, 0), (8, 13), (9, 5), (11, 10), (7, 14), (7, 15), (12, 8), (7, 12), (6, 4), (15, 9), (13, 1), (11, 2)]
     @ map (\<lambda>(s, r). (rmd_F2, rmd_KK2, s, r)) [(9, 15), (7, 5), (15, 1), (11, 3), (8, 7), (6, 14), (6, 6), (14, 9), (12, 11), (13, 8), (5, 12), (14, 2), (13, 10), (13, 0), (7, 4), (5, 13)]
     @ map (\<lambda>(s, r). (rmd_F1, rmd_KK3, s, r)) [(15, 8), (5, 6), (8, 4), (11, 1), (14, 3), (14, 11), (6, 15), (14, 0), (6, 5), (9, 12), (12, 2), (9, 13), (12, 9), (5, 7), (15, 10), (8, 14)]
     @ map (\<lambda>(s, r). (rmd_F0, rmd_KK4, s, r)) [(8, 12), (5, 15), (12, 10), (9, 4), (12, 1), (5, 5), (14, 8), (6, 7), (8, 6), (13, 2), (6, 13), (5, 14), (15, 0), (13, 3), (11, 9), (11, 11)]"

fun le32dec_vect :: "bytes \<Rightarrow> u32 list" where
  "le32dec_vect (p0 # p1 # p2 # p3 # rest) =
     (ucast p0 OR push_bit 8 (ucast p1) OR push_bit 16 (ucast p2) OR push_bit 24 (ucast p3)) # le32dec_vect rest"
| "le32dec_vect _ = []"

definition RMD160Transform :: "u32 list \<Rightarrow> bytes \<Rightarrow> u32 list" where
  "RMD160Transform state block =
     (let x = le32dec_vect block;
          start = (state ! 0, state ! 1, state ! 2, state ! 3, state ! 4);
          (aa, bb, cc, dd, ee) = foldl (rmd_R x) start rmd_left;
          (a, b, c, d, e) = foldl (rmd_R x) start rmd_right
      in [state ! 1 + cc + d, state ! 2 + dd + e, state ! 3 + ee + a, state ! 4 + aa + b,
          state ! 0 + bb + c])"

definition RMD160Init :: "bytes \<Rightarrow> rmd160ctx" where
  "RMD160Init buffer =
     \<lparr>rmd160_state = [0x67452301, 0xEFCDAB89, 0x98BADCFE, 0x10325476, 0xC3D2E1F0],
      rmd160_count = 0, rmd160_buffer = buffer\<rparr>"

definition RMD160Update :: "rmd160ctx \<Rightarrow> bytes \<Rightarrow> rmd160ctx" where
  "RMD160Update context input =
     (let len = length input;
          have = unat (rmd160_count context div 8) mod 64;
          need = 64 - have;
          context = context\<lparr>rmd160_count := rmd160_count context + 8 * of_nat len\<rparr>
      in if len \<ge> need then
           (let (state, buffer, rest) =
                  (if have \<noteq> 0 then
                     (let buffer = overlay (rmd160_buffer context) have (take need input)
                      in (RMD160Transform (rmd160_state context) buffer, buffer, drop need input))
                   else (rmd160_state context, rmd160_buffer context, input));
                (state, rest) = absorb_blocks RMD160Transform state rest
            in context\<lparr>rmd160_state := state, rmd160_buffer := overlay buffer 0 rest\<rparr>)
         else context\<lparr>rmd160_buffer := overlay (rmd160_buffer context) have input\<rparr>)"

definition RMD160Pad :: "rmd160ctx \<Rightarrow> rmd160ctx" where
  "RMD160Pad context =
     (let len = peel_bytes 8 (rmd160_count context);
          plen = 64 - unat (rmd160_count context div 8) mod 64;
          plen = (if plen < 1 + 8 then plen + 64 else plen)
      in RMD160Update (RMD160Update context (take (plen - 8) (0x80 # replicate 63 0))) len)"

definition RMD160Final :: "rmd160ctx \<Rightarrow> bytes" where
  "RMD160Final context = concat (map (peel_bytes 4) (rmd160_state (RMD160Pad context)))"

definition RMD160 :: "bytes \<Rightarrow> bytes \<Rightarrow> bytes" where
  "RMD160 buffer input = RMD160Final (RMD160Update (RMD160Init buffer) input)"

section \<open>SHA-1\<close>

record sha1ctx =
  sha1_state :: "u32 list"
  sha1_count :: u64
  sha1_buffer :: bytes

text \<open>\<open>blk0\<close> swaps the bytes of a word of the block in place, \<open>blk\<close> extends the circular block.\<close>

definition sha1_blk0 :: "u32 list \<Rightarrow> nat \<Rightarrow> u32 \<times> u32 list" where
  "sha1_blk0 l i =
     (let v = (rol32 (l ! i) 24 AND 0xFF00FF00) OR (rol32 (l ! i) 8 AND 0x00FF00FF) in (v, l[i := v]))"

definition sha1_blk :: "u32 list \<Rightarrow> nat \<Rightarrow> u32 \<times> u32 list" where
  "sha1_blk l i =
     (let v = rol32 (l ! ((i + 13) mod 16) XOR l ! ((i + 8) mod 16) XOR l ! ((i + 2) mod 16) XOR l ! (i mod 16)) 1
      in (v, l[i mod 16 := v]))"

text \<open>
  The macros \<open>R0\<close> to \<open>R4\<close>. As above, the order of the result records the shift of the five
  variables from one use to the next.
\<close>

definition sha1_R :: "(u32 \<times> u32 \<times> u32 \<times> u32 \<times> u32) \<times> u32 list \<Rightarrow> nat \<Rightarrow>
    (u32 \<times> u32 \<times> u32 \<times> u32 \<times> u32) \<times> u32 list" where
  "sha1_R = (\<lambda>((v, w, x, y, z), l) i.
     (let (blk, l) = (if i < 16 then sha1_blk0 l i else sha1_blk l i);
          z = z + (if i < 20 then ((w AND (x XOR y)) XOR y) + blk + 0x5A827999
                   else if i < 40 then (w XOR x XOR y) + blk + 0x6ED9EBA1
                   else if i < 60 then (((w OR x) AND y) OR (w AND x)) + blk + 0x8F1BBCDC
                   else (w XOR x XOR y) + blk + 0xCA62C1D6) + rol32 v 5
      in ((z, v, rol32 w 30, x, y), l)))"

definition SHA1Transform :: "u32 list \<Rightarrow> bytes \<Rightarrow> u32 list" where
  "SHA1Transform state block =
     (let ((a, b, c, d, e), _) =
        foldl sha1_R ((state ! 0, state ! 1, state ! 2, state ! 3, state ! 4), le32dec_vect block) [0..<80]
      in [state ! 0 + a, state ! 1 + b, state ! 2 + c, state ! 3 + d, state ! 4 + e])"

definition SHA1Init :: "bytes \<Rightarrow> sha1ctx" where
  "SHA1Init buffer =
     \<lparr>sha1_state = [0x67452301, 0xEFCDAB89, 0x98BADCFE, 0x10325476, 0xC3D2E1F0],
      sha1_count = 0, sha1_buffer = buffer\<rparr>"

definition SHA1Update :: "sha1ctx \<Rightarrow> bytes \<Rightarrow> sha1ctx" where
  "SHA1Update context input =
     (let len = length input;
          j = unat (drop_bit 3 (sha1_count context) AND 63);
          context = context\<lparr>sha1_count := sha1_count context + push_bit 3 (of_nat len)\<rparr>
      in if j + len > 63 then
           (let buffer = overlay (sha1_buffer context) j (take (64 - j) input);
                (state, rest) = absorb_blocks SHA1Transform
                  (SHA1Transform (sha1_state context) buffer) (drop (64 - j) input)
            in context\<lparr>sha1_state := state, sha1_buffer := overlay buffer 0 rest\<rparr>)
         else context\<lparr>sha1_buffer := overlay (sha1_buffer context) j input\<rparr>)"

text \<open>
  The loop \<open>while ((count & 504) != 448)\<close> feeds zero bytes. Sixty-three of them are always
  enough, so the fuel of 64 is never used up.
\<close>

primrec sha1_pad_loop :: "nat \<Rightarrow> sha1ctx \<Rightarrow> sha1ctx" where
  "sha1_pad_loop 0 context = context"
| "sha1_pad_loop (Suc fuel) context =
     (if sha1_count context AND 504 \<noteq> 448 then sha1_pad_loop fuel (SHA1Update context [0]) else context)"

definition SHA1Pad :: "sha1ctx \<Rightarrow> sha1ctx" where
  "SHA1Pad context =
     (let len = rev (peel_bytes 8 (sha1_count context))
      in SHA1Update (sha1_pad_loop 64 (SHA1Update context [0x80])) len)"

text \<open>Byte \<open>i\<close> of the digest is bits \<open>(3 - (i & 3)) * 8\<close> and up of word \<open>i >> 2\<close>.\<close>

definition SHA1Final :: "sha1ctx \<Rightarrow> bytes" where
  "SHA1Final context =
     (let state = sha1_state (SHA1Pad context)
      in map (\<lambda>i. ucast (drop_bit ((3 - i mod 4) * 8) (state ! (i div 4)) AND 255)) [0..<20])"

definition SHA1 :: "bytes \<Rightarrow> bytes \<Rightarrow> bytes" where
  "SHA1 buffer input = SHA1Final (SHA1Update (SHA1Init buffer) input)"

section \<open>The hash functions of the library\<close>

text \<open>
  The contexts live on the stack with an uninitialised buffer. The digests do not depend on it,
  which is proved below, so zeros stand for it here.
\<close>

abbreviation (input) stack_buffer :: bytes where "stack_buffer \<equiv> replicate 64 0"

definition sha256_hash :: "bytes \<Rightarrow> hash_digest" where
  "sha256_hash data = SHA256 stack_buffer data"

definition sha256_hash2 :: "bytes \<Rightarrow> bytes \<Rightarrow> hash_digest" where
  "sha256_hash2 first second =
     SHA256Final (SHA256Update (SHA256Update (SHA256Init stack_buffer) first) second)"

definition ripemd160_hash :: "bytes \<Rightarrow> short_hash" where
  "ripemd160_hash data = RMD160 stack_buffer data"

definition sha1_hash :: "bytes \<Rightarrow> short_hash" where
  "sha1_hash data = SHA1 stack_buffer data"

definition bitcoin_hash :: "bytes \<Rightarrow> hash_digest" where
  "bitcoin_hash data = sha256_hash (sha256_hash data)"

definition bitcoin_short_hash :: "bytes \<Rightarrow> short_hash" where
  "bitcoin_short_hash data = ripemd160_hash (sha256_hash data)"

section \<open>Blocks of a message\<close>

function full_blocks :: "bytes \<Rightarrow> bytes list" where
  "full_blocks m = (if length m \<ge> 64 then take 64 m # full_blocks (drop 64 m) else [])"
  by pat_completeness auto
termination by (relation "measure length") auto

declare full_blocks.simps [simp del]

definition last_part :: "bytes \<Rightarrow> bytes" where
  "last_part m = drop (64 * (length m div 64)) m"

lemma last_part_short [simp]: "length m < 64 \<Longrightarrow> last_part m = m"
  by (simp add: last_part_def)

lemma last_part_long: "64 \<le> length m \<Longrightarrow> last_part m = last_part (drop 64 m)"
proof -
  assume le: "64 \<le> length m"
  then have "length m div 64 = Suc ((length m - 64) div 64)"
    by (simp add: le_div_geq)
  then show ?thesis by (simp add: last_part_def add.commute)
qed

lemma length_last_part [simp]: "length (last_part m) = length m mod 64"
  by (simp add: last_part_def minus_mult_div_eq_mod)

lemma full_blocks_short [simp]: "length m < 64 \<Longrightarrow> full_blocks m = []"
  by (simp add: full_blocks.simps)

lemma full_blocks_append:
  "full_blocks (m @ x) = full_blocks m @ full_blocks (last_part m @ x)
   \<and> last_part (m @ x) = last_part (last_part m @ x)"
proof (induction m rule: full_blocks.induct)
  case (1 m)
  show ?case
  proof (cases "64 \<le> length m")
    case True
    with 1 have ih: "full_blocks (drop 64 m @ x) = full_blocks (drop 64 m) @ full_blocks (last_part (drop 64 m) @ x)"
      "last_part (drop 64 m @ x) = last_part (last_part (drop 64 m) @ x)" by auto
    have "full_blocks (m @ x) = take 64 m # full_blocks (drop 64 m @ x)"
      using True by (subst full_blocks.simps) simp
    moreover have "full_blocks m = take 64 m # full_blocks (drop 64 m)"
      using True by (subst full_blocks.simps) simp
    moreover have "last_part (m @ x) = last_part (drop 64 m @ x)"
      using True last_part_long [of "m @ x"] by simp
    ultimately show ?thesis using ih last_part_long [OF True] by simp
  qed simp
qed

lemma absorb_blocks_eq: "absorb_blocks f st m = (foldl f st (full_blocks m), last_part m)"
proof (induction f st m rule: absorb_blocks.induct)
  case (1 f st m)
  show ?case
  proof (cases "64 \<le> length m")
    case True
    then have "full_blocks m = take 64 m # full_blocks (drop 64 m)" by (subst full_blocks.simps) simp
    then show ?thesis
      using True 1 last_part_long [OF True] by (simp add: absorb_blocks.simps [of f st m])
  qed (simp add: absorb_blocks.simps)
qed

section \<open>The buffered state of a message prefix\<close>

definition buffered :: "('s \<Rightarrow> bytes \<Rightarrow> 's) \<Rightarrow> 's \<Rightarrow> 's \<Rightarrow> bytes \<Rightarrow> bytes \<Rightarrow> bool" where
  "buffered f s0 st buf m \<longleftrightarrow>
     st = foldl f s0 (full_blocks m) \<and> length buf = 64 \<and> take (length m mod 64) buf = last_part m"

lemma length_overlay: "off + length x \<le> length buf \<Longrightarrow> length (overlay buf off x) = length buf"
  by (simp add: overlay_def)

lemma take_overlay:
  "off + length x \<le> length buf \<Longrightarrow> take (off + length x) (overlay buf off x) = take off buf @ x"
  by (simp add: overlay_def)

lemma buffered_short:
  assumes "buffered f s0 st buf m" "length x < 64 - length m mod 64"
  shows "buffered f s0 st (overlay buf (length m mod 64) x) (m @ x)"
proof -
  have s: "length (last_part m @ x) < 64" using assms(2) by simp
  have l: "(length m + length x) mod 64 = length m mod 64 + length x"
    using assms(2) by (metis length_append length_last_part mod_add_left_eq mod_less s)
  show ?thesis
    using assms s l full_blocks_append [of m x] take_overlay [of "length m mod 64" x buf]
    by (simp add: buffered_def length_overlay)
qed

lemma buffered_rest:
  assumes "length buf = 64"
  shows "buffered f s0 (foldl f s0 (full_blocks (m @ x)))
           (overlay buf 0 (last_part (last_part m @ x))) (m @ x)"
proof -
  have "length (last_part (last_part m @ x)) = length (m @ x) mod 64"
    using full_blocks_append [of m x] by (metis length_last_part)
  then show ?thesis
    using assms full_blocks_append [of m x] take_overlay [of 0 "last_part (last_part m @ x)" buf]
      mod_less_divisor [of 64 "length (m @ x)"]
    by (simp add: buffered_def length_overlay less_imp_le)
qed

lemma buffered_full:
  assumes "buffered f s0 st buf m" "64 - length m mod 64 \<le> length x"
    and "buf' = overlay buf (length m mod 64) (take (64 - length m mod 64) x)"
    and "absorb_blocks f (f st buf') (drop (64 - length m mod 64) x) = (st', rest)"
  shows "buffered f s0 st' (overlay buf' 0 rest) (m @ x)"
proof -
  let ?r = "length m mod 64"
  have r: "?r < 64" by simp
  have buf': "buf' = last_part m @ take (64 - ?r) x"
    using assms(1,2,3) r by (simp add: overlay_def buffered_def)
  have len: "length buf' = 64" using buf' assms(2) r by simp
  have big: "64 \<le> length (last_part m @ x)" using assms(2) r by simp
  have first: "take 64 (last_part m @ x) = buf'" "drop 64 (last_part m @ x) = drop (64 - ?r) x"
    using buf' by simp_all
  have "full_blocks (last_part m @ x) = buf' # full_blocks (drop (64 - ?r) x)"
    using big first by (subst full_blocks.simps) simp
  then have "st' = foldl f s0 (full_blocks (m @ x))"
    using assms(1,4) full_blocks_append [of m x] by (simp add: absorb_blocks_eq buffered_def)
  moreover have "rest = last_part (last_part m @ x)"
    using assms(4) last_part_long [OF big] first by (simp add: absorb_blocks_eq)
  ultimately show ?thesis using buffered_rest [OF len] by metis
qed

lemma buffered_direct:
  assumes "buffered f s0 st buf m" "length m mod 64 = 0" "absorb_blocks f st x = (st', rest)"
  shows "buffered f s0 st' (overlay buf 0 rest) (m @ x)"
proof -
  have "last_part m = []" using assms(2) length_last_part [of m] by (metis length_0_conv)
  then have "st' = foldl f s0 (full_blocks (m @ x))" "rest = last_part (last_part m @ x)"
    using assms full_blocks_append [of m x] by (simp_all add: absorb_blocks_eq buffered_def)
  then show ?thesis using buffered_rest [of buf f s0 m x] assms(1) by (simp add: buffered_def)
qed

section \<open>The contract of a streaming digest\<close>

locale streaming_digest =
  fixes holds :: "'c \<Rightarrow> bytes \<Rightarrow> bool"
    and update :: "'c \<Rightarrow> bytes \<Rightarrow> 'c"
    and finish :: "'c \<Rightarrow> bytes"
    and digest :: "bytes \<Rightarrow> bytes"
  assumes holds_update: "holds c m \<Longrightarrow> holds (update c x) (m @ x)"
    and holds_finish: "holds c m \<Longrightarrow> finish c = digest m"
begin

lemma update_slices: "holds c m \<Longrightarrow> holds (foldl update c xs) (m @ concat xs)"
proof (induction xs arbitrary: c m)
  case (Cons x xs)
  then show ?case using Cons.IH [OF holds_update [OF Cons.prems], of x] by simp
qed simp

lemma finish_slices: "holds c [] \<Longrightarrow> finish (foldl update c xs) = digest (concat xs)"
  using update_slices [of c "[]" xs] holds_finish by simp

end

section \<open>SHA-256 as a streaming digest\<close>

definition sha256_holds :: "sha256ctx \<Rightarrow> bytes \<Rightarrow> bool" where
  "sha256_holds c m \<longleftrightarrow>
     buffered SHA256Transform (sha256_state (SHA256Init [])) (sha256_state c) (sha256_buf c) m
     \<and> sha256_count1 c = of_nat (8 * length m)
     \<and> sha256_count0 c = of_nat (8 * length m div 2 ^ 32)"

text \<open>The padding: a one bit, zeros, and the bit length as a 64-bit big-endian number.\<close>

definition zeros :: "bytes \<Rightarrow> bytes" where
  "zeros m = replicate (if length m mod 64 < 56 then 55 - length m mod 64 else 119 - length m mod 64) 0"

definition sha256_padding :: "bytes \<Rightarrow> bytes" where
  "sha256_padding m = 0x80 # zeros m @ to_big_endian (of_nat (8 * length m) :: u64)"

definition sha256_spec :: "bytes \<Rightarrow> bytes" where
  "sha256_spec m =
     be32enc_vect (foldl SHA256Transform (sha256_state (SHA256Init [])) (full_blocks (m @ sha256_padding m)))"

lemma bits_offset:
  fixes w :: "'a::len word"
  assumes "w = of_nat (8 * n)" "9 \<le> LENGTH('a)"
  shows "unat (drop_bit 3 w AND 0x3f) = n mod 64"
proof -
  have e: "w = push_bit 3 (of_nat n)" using assms(1) by (simp add: push_bit_eq_mult)
  have "drop_bit 3 w AND 0x3f = take_bit 6 (drop_bit 3 w)"
    by (simp add: take_bit_eq_mask mask_eq_exp_minus_1)
  also have "\<dots> = take_bit 6 (of_nat n)"
    unfolding e by (rule bit_word_eqI) (use assms(2) in \<open>auto simp: bit_simps\<close>)
  finally have "unat (drop_bit 3 w AND 0x3f) = take_bit 6 (take_bit LENGTH('a) n)"
    by (simp only: unsigned_take_bit_eq unat_of_nat take_bit_eq_mod [of "LENGTH('a)" n])
  also have "\<dots> = take_bit 6 n"
    using assms(2) by (simp only: take_bit_take_bit min_absorb1)
  finally show ?thesis by (simp add: take_bit_eq_mod)
qed

lemma word_of_div:
  "ucast (drop_bit 29 (of_nat n :: u64)) = (of_nat (8 * n div 2 ^ 32) :: u32)"
proof -
  have e: "8 * n div 2 ^ 32 = drop_bit 29 n" by (simp add: drop_bit_eq_div)
  show ?thesis
    unfolding e by (rule bit_word_eqI) (auto simp: bit_simps)
qed

lemma count_carry:
  fixes a b :: u32
  shows "a + b < b \<longleftrightarrow> 2 ^ 32 \<le> unat a + unat b"
proof -
  have l: "unat a < 2 ^ 32" "unat b < 2 ^ 32" using unsigned_less [of a] unsigned_less [of b] by simp_all
  have "unat (a + b) = (if 2 ^ 32 \<le> unat a + unat b then unat a + unat b - 2 ^ 32 else unat a + unat b)"
    using l by (simp add: unat_word_ariths mod_if)
  with l show ?thesis by (auto simp: word_less_nat_alt)
qed

lemma carry_div: "a < M \<Longrightarrow> b < M \<Longrightarrow> (a + b) div M = (if M \<le> a + b then 1 else (0 :: nat))"
  by (auto simp: le_div_geq)

lemma sha256_counts:
  assumes "c1 = (of_nat (8 * n) :: u32)" "c0 = (of_nat (8 * n div 2 ^ 32) :: u32)"
    and "b1 = push_bit 3 (of_nat l :: u32)" "b0 = (ucast (drop_bit 29 (of_nat l :: u64)) :: u32)"
  shows "c1 + b1 = of_nat (8 * (n + l))"
    and "(if c1 + b1 < b1 then c0 + 1 else c0) + b0 = of_nat (8 * (n + l) div 2 ^ 32)"
proof -
  have b1: "b1 = of_nat (8 * l)" using assms(3) by (simp add: push_bit_eq_mult)
  show "c1 + b1 = of_nat (8 * (n + l))" using assms(1) b1 by simp
  have "8 * (n + l) div 2 ^ 32 = 8 * n div 2 ^ 32 + 8 * l div 2 ^ 32
      + (8 * n mod 2 ^ 32 + 8 * l mod 2 ^ 32) div 2 ^ 32"
    by (metis add_mult_distrib2 div_add1_eq)
  moreover have "(8 * n mod 2 ^ 32 + 8 * l mod 2 ^ 32) div 2 ^ 32 = (if c1 + b1 < b1 then 1 else 0)"
  proof -
    have "unat c1 = 8 * n mod 2 ^ 32" "unat b1 = 8 * l mod 2 ^ 32"
      unfolding assms(1) b1 by (simp_all only: unat_of_nat) simp_all
    then show ?thesis
      using count_carry [of c1 b1] carry_div [of "8 * n mod 2 ^ 32" "2 ^ 32" "8 * l mod 2 ^ 32"] by simp
  qed
  ultimately show "(if c1 + b1 < b1 then c0 + 1 else c0) + b0 = of_nat (8 * (n + l) div 2 ^ 32)"
    using assms(2,4) word_of_div [of l] by simp
qed

lemma sha256_update_holds:
  assumes "sha256_holds c m"
  shows "sha256_holds (SHA256Update c x) (m @ x)"
proof -
  let ?r = "length m mod 64"
  have r: "unat (drop_bit 3 (sha256_count1 c) AND 0x3f) = ?r"
    using assms by (intro bits_offset) (auto simp: sha256_holds_def)
  note counts = sha256_counts [of "sha256_count1 c" "length m" "sha256_count0 c" _ "length x", OF _ _ refl refl]
  have b: "buffered SHA256Transform (sha256_state (SHA256Init [])) (sha256_state c) (sha256_buf c) m"
    using assms by (simp add: sha256_holds_def)
  show ?thesis
  proof (cases "length x < 64 - ?r")
    case True
    then show ?thesis
      using assms counts buffered_short [OF b] r by (simp add: sha256_holds_def SHA256Update_def Let_def)
  next
    case False
    then show ?thesis
      using assms counts buffered_full [OF b _ refl prod.collapse [symmetric]] r
      by (simp add: sha256_holds_def SHA256Update_def Let_def case_prod_beta)
  qed
qed

lemma be32enc_peel: "be32enc x = rev (peel_bytes 4 x)"
proof -
  have *: "ucast (drop_bit k x AND 0xff) = (ucast (drop_bit k x) :: u8)" for k
  proof -
    have "drop_bit k x AND 0xff = take_bit 8 (drop_bit k x)"
      by (simp add: take_bit_eq_mask mask_eq_exp_minus_1)
    then show ?thesis by (simp only:) (rule bit_word_eqI, auto simp: bit_simps)
  qed
  show ?thesis using * [of 24] * [of 16] * [of 8] * [of 0]
    by (simp add: be32enc_def numeral_eq_Suc)
qed

lemma peel_bytes_split:
  "peel_bytes 8 (w :: u64) = peel_bytes 4 (ucast w :: u32) @ peel_bytes 4 (ucast (drop_bit 32 w) :: u32)"
proof -
  have *: "ucast (drop_bit k w) = (ucast (drop_bit k (ucast w :: u32)) :: u8)" if "k + 8 \<le> 32" for k
    by (rule bit_word_eqI) (use that in \<open>auto simp: bit_simps\<close>)
  have **: "ucast (drop_bit (32 + k) w) = (ucast (drop_bit k (ucast (drop_bit 32 w) :: u32)) :: u8)"
    if "k + 8 \<le> 32" for k
    by (rule bit_word_eqI) (use that in \<open>auto simp: bit_simps ac_simps\<close>)
  show ?thesis
    using * [of 0] * [of 8] * [of 16] * [of 24] ** [of 0] ** [of 8] ** [of 16] ** [of 24]
    by (simp add: numeral_eq_Suc)
qed

lemma bit_length_bytes:
  "be32enc_vect [of_nat (b div 2 ^ 32), of_nat b] = to_big_endian (of_nat b :: u64)"
proof -
  have "ucast (of_nat b :: u64) = (of_nat b :: u32)"
    by (rule bit_word_eqI) (auto simp: bit_simps)
  moreover have "ucast (drop_bit 32 (of_nat b :: u64)) = (of_nat (b div 2 ^ 32) :: u32)"
    unfolding drop_bit_eq_div [symmetric] by (rule bit_word_eqI) (auto simp: bit_simps)
  ultimately show ?thesis
    by (simp add: be32enc_vect_def be32enc_peel to_big_endian_def peel_bytes_split)
qed

lemma sha256_pad_bytes:
  assumes "plen = (if r < 56 then 56 - r else 120 - r)" "r < 64"
  shows "take plen sha256_PAD = 0x80 # replicate (if r < 56 then 55 - r else 119 - r) 0"
  using assms by (auto simp: take_Cons' min_def)

lemma sha256_finish:
  assumes "sha256_holds c m"
  shows "SHA256Final c = sha256_spec m"
proof -
  let ?r = "length m mod 64"
  have r: "unat (drop_bit 3 (sha256_count1 c) AND 0x3f) = ?r"
    using assms by (intro bits_offset) (auto simp: sha256_holds_def)
  let ?plen = "if ?r < 56 then 56 - ?r else 120 - ?r"
  have len: "be32enc_vect [sha256_count0 c, sha256_count1 c] = to_big_endian (of_nat (8 * length m) :: u64)"
    using assms bit_length_bytes [of "8 * length m"] by (simp only: sha256_holds_def)
  have pad: "take ?plen sha256_PAD @ to_big_endian (of_nat (8 * length m) :: u64) = sha256_padding m"
    using sha256_pad_bytes [OF refl, of ?r] by (simp add: sha256_padding_def zeros_def)
  have "sha256_holds (SHA256Pad c) (m @ sha256_padding m)"
    using sha256_update_holds [OF sha256_update_holds [OF assms, of "take ?plen sha256_PAD"],
        of "to_big_endian (of_nat (8 * length m) :: u64)"] pad
    by (simp add: SHA256Pad_def Let_def r len)
  then show ?thesis
    by (simp add: SHA256Final_def sha256_spec_def sha256_holds_def buffered_def)
qed

interpretation sha256: streaming_digest sha256_holds SHA256Update SHA256Final sha256_spec
  by unfold_locales (auto intro: sha256_update_holds sha256_finish)

lemma sha256_init_holds: "length buf = 64 \<Longrightarrow> sha256_holds (SHA256Init buf) []"
  by (simp add: sha256_holds_def buffered_def SHA256Init_def)

lemma pad_to_block: "n mod 64 < 64 * k \<Longrightarrow> 64 dvd n + (64 * k - n mod 64)" for n :: nat
proof -
  assume lt: "n mod 64 < 64 * k"
  define q r where "q = n div 64" and "r = n mod 64"
  have "n = 64 * q + r" "r < 64 * k" using lt by (simp_all add: q_def r_def)
  then have "n + (64 * k - r) = 64 * (q + k)" by simp
  then have "n + (64 * k - n mod 64) = 64 * (q + k)" unfolding r_def .
  then show ?thesis by (metis dvd_triv_left)
qed

lemma sha256_padded_length: "64 dvd length (m @ sha256_padding m)"
proof -
  have "length (sha256_padding m) = (if length m mod 64 < 56 then 64 * 1 - length m mod 64 else 64 * 2 - length m mod 64)"
    by (simp add: sha256_padding_def zeros_def to_big_endian_def)
  then show ?thesis
    using pad_to_block [of "length m" 1] pad_to_block [of "length m" 2] mod_less_divisor [of 64 "length m"]
    by (simp split: if_splits)
qed

section \<open>RIPEMD-160 as a streaming digest\<close>

definition rmd160_holds :: "rmd160ctx \<Rightarrow> bytes \<Rightarrow> bool" where
  "rmd160_holds c m \<longleftrightarrow>
     buffered RMD160Transform (rmd160_state (RMD160Init [])) (rmd160_state c) (rmd160_buffer c) m
     \<and> rmd160_count c = of_nat (8 * length m)"

definition rmd160_padding :: "bytes \<Rightarrow> bytes" where
  "rmd160_padding m = 0x80 # zeros m @ to_little_endian (of_nat (8 * length m) :: u64)"

definition rmd160_spec :: "bytes \<Rightarrow> bytes" where
  "rmd160_spec m =
     concat (map (peel_bytes 4)
       (foldl RMD160Transform (rmd160_state (RMD160Init [])) (full_blocks (m @ rmd160_padding m))))"

lemma byte_offset: "unat ((of_nat (8 * n) :: u64) div 8) mod 64 = n mod 64"
proof -
  have "unat ((of_nat (8 * n) :: u64) div 8) = 8 * n mod 2 ^ 64 div 8"
    by (simp only: unat_div_distrib unat_of_nat) simp
  also have "\<dots> = n mod 2 ^ 61"
    using mult_mod_right [of 8 n "2 ^ 61"] by simp
  finally show ?thesis by (simp add: mod_mod_cancel)
qed

lemma rmd160_update_holds:
  assumes "rmd160_holds c m"
  shows "rmd160_holds (RMD160Update c x) (m @ x)"
proof -
  let ?r = "length m mod 64"
  have r: "unat (rmd160_count c div 8) mod 64 = ?r"
    using assms byte_offset [of "length m"] by (simp only: rmd160_holds_def)
  have count: "rmd160_count c + 8 * of_nat (length x) = of_nat (8 * length (m @ x))"
    using assms by (simp add: rmd160_holds_def)
  have b: "buffered RMD160Transform (rmd160_state (RMD160Init [])) (rmd160_state c) (rmd160_buffer c) m"
    using assms by (simp add: rmd160_holds_def)
  consider "length x < 64 - ?r" | "64 - ?r \<le> length x" "?r = 0" | "64 - ?r \<le> length x" "?r \<noteq> 0" by linarith
  then show ?thesis
  proof cases
    case 1
    then show ?thesis
      using count buffered_short [OF b] r by (simp add: rmd160_holds_def RMD160Update_def Let_def)
  next
    case 2
    then show ?thesis
      using count buffered_direct [OF b _ prod.collapse [symmetric]] r
      by (simp add: rmd160_holds_def RMD160Update_def Let_def case_prod_beta)
  next
    case 3
    then show ?thesis
      using count buffered_full [OF b _ refl prod.collapse [symmetric]] r
      by (simp add: rmd160_holds_def RMD160Update_def Let_def case_prod_beta)
  qed
qed

lemma rmd160_finish:
  assumes "rmd160_holds c m"
  shows "RMD160Final c = rmd160_spec m"
proof -
  let ?r = "length m mod 64"
  have r: "unat (rmd160_count c div 8) mod 64 = ?r"
    using assms byte_offset [of "length m"] by (simp only: rmd160_holds_def)
  let ?plen = "if ?r < 56 then 56 - ?r else 120 - ?r"
  have plen: "(if 64 - ?r < 1 + 8 then 64 - ?r + 64 else 64 - ?r) - 8 = ?plen"
    using mod_less_divisor [of 64 "length m"] by auto
  have len: "peel_bytes 8 (rmd160_count c) = to_little_endian (of_nat (8 * length m) :: u64)"
    using assms by (simp add: rmd160_holds_def to_little_endian_def)
  have pad: "take ?plen (0x80 # replicate 63 0) @ to_little_endian (of_nat (8 * length m) :: u64) = rmd160_padding m"
    using sha256_pad_bytes [OF refl, of ?r] by (simp add: rmd160_padding_def zeros_def)
  have "rmd160_holds (RMD160Pad c) (m @ rmd160_padding m)"
    using rmd160_update_holds [OF rmd160_update_holds [OF assms, of "take ?plen (0x80 # replicate 63 0)"],
        of "to_little_endian (of_nat (8 * length m) :: u64)"] pad
    unfolding RMD160Pad_def Let_def r len plen by simp
  then show ?thesis
    by (simp add: RMD160Final_def rmd160_spec_def rmd160_holds_def buffered_def)
qed

interpretation rmd160: streaming_digest rmd160_holds RMD160Update RMD160Final rmd160_spec
  by unfold_locales (auto intro: rmd160_update_holds rmd160_finish)

lemma rmd160_init_holds: "length buf = 64 \<Longrightarrow> rmd160_holds (RMD160Init buf) []"
  by (simp add: rmd160_holds_def buffered_def RMD160Init_def)

section \<open>SHA-1 as a streaming digest\<close>

definition sha1_holds :: "sha1ctx \<Rightarrow> bytes \<Rightarrow> bool" where
  "sha1_holds c m \<longleftrightarrow>
     buffered SHA1Transform (sha1_state (SHA1Init [])) (sha1_state c) (sha1_buffer c) m
     \<and> sha1_count c = of_nat (8 * length m)"

definition sha1_spec :: "bytes \<Rightarrow> bytes" where
  "sha1_spec m =
     (let state = foldl SHA1Transform (sha1_state (SHA1Init [])) (full_blocks (m @ sha256_padding m))
      in map (\<lambda>i. ucast (drop_bit ((3 - i mod 4) * 8) (state ! (i div 4)) AND 255)) [0..<20])"

lemma sha1_update_holds:
  assumes "sha1_holds c m"
  shows "sha1_holds (SHA1Update c x) (m @ x)"
proof -
  let ?r = "length m mod 64"
  have r: "unat (drop_bit 3 (sha1_count c) AND 63) = ?r"
    using assms by (intro bits_offset) (auto simp: sha1_holds_def)
  have count: "sha1_count c + push_bit 3 (of_nat (length x)) = of_nat (8 * length (m @ x))"
    using assms by (simp add: sha1_holds_def push_bit_eq_mult)
  have b: "buffered SHA1Transform (sha1_state (SHA1Init [])) (sha1_state c) (sha1_buffer c) m"
    using assms by (simp add: sha1_holds_def)
  show ?thesis
  proof (cases "length x < 64 - ?r")
    case True
    then have "\<not> ?r + length x > 63" by linarith
    with True show ?thesis
      using count buffered_short [OF b] r by (simp add: sha1_holds_def SHA1Update_def Let_def)
  next
    case False
    then have "?r + length x > 63" by linarith
    with False show ?thesis
      using count buffered_full [OF b _ refl prod.collapse [symmetric]] r
      by (simp add: sha1_holds_def SHA1Update_def Let_def case_prod_beta)
  qed
qed

lemma pad_condition: "(of_nat (8 * n) :: u64) AND 504 = 448 \<longleftrightarrow> n mod 64 = 56"
proof -
  let ?w = "of_nat (8 * n) :: u64"
  have "?w = push_bit 3 (of_nat n)" by (simp add: push_bit_eq_mult)
  then have low: "\<not> bit ?w i" if "i < 3" for i using that by (simp add: bit_simps)
  have "?w AND push_bit 3 (mask 6) = take_bit 9 ?w"
    by (rule bit_word_eqI) (use low in \<open>auto simp: bit_simps not_less simp del: of_nat_mult\<close>, metis leI)
  moreover have "(504 :: u64) = push_bit 3 (mask 6)" by (simp add: mask_eq_exp_minus_1 push_bit_eq_mult)
  ultimately have "?w AND 504 = take_bit 9 ?w" by metis
  then have "unat (?w AND 504) = take_bit 9 (take_bit 64 (8 * n))"
    by (simp only: unsigned_take_bit_eq unat_of_nat take_bit_eq_mod [of 64 "8 * n"]) simp
  also have "\<dots> = 8 * n mod (8 * 64)" by (simp only: take_bit_take_bit) (simp add: take_bit_eq_mod)
  also have "\<dots> = 8 * (n mod 64)" by (rule mult_mod_right [symmetric])
  finally have "unat (?w AND 504) = 8 * (n mod 64)" .
  moreover have "?w AND 504 = 448 \<longleftrightarrow> unat (?w AND 504) = 448"
    by (simp only: word_unat_eq_iff) simp
  ultimately show ?thesis by simp
qed

lemma pad_step:
  "r < 64 \<Longrightarrow> r \<noteq> 56 \<Longrightarrow> r' = (if r = 63 then 0 else r + 1) \<Longrightarrow>
     (if r \<le> 56 then 56 - r else 120 - r) = Suc (if r' \<le> 56 then 56 - r' else 120 - (r' :: nat))"
  by auto

lemma sha1_pad_loop_holds:
  assumes "sha1_holds c m" "k < fuel"
    and "k = (if length m mod 64 \<le> 56 then 56 - length m mod 64 else 120 - length m mod 64)"
  shows "sha1_holds (sha1_pad_loop fuel c) (m @ replicate k 0)"
  using assms
proof (induction fuel arbitrary: c m k)
  case (Suc fuel)
  have cond: "sha1_count c AND 504 = 448 \<longleftrightarrow> length m mod 64 = 56"
    using Suc.prems(1) pad_condition [of "length m"] by (simp only: sha1_holds_def)
  show ?case
  proof (cases "length m mod 64 = 56")
    case True
    then show ?thesis using Suc.prems cond by simp
  next
    case False
    let ?m = "m @ [0]"
    have "length ?m mod 64 = (if length m mod 64 = 63 then 0 else length m mod 64 + 1)"
      by (simp add: mod_Suc)
    then have k: "k = Suc (if length ?m mod 64 \<le> 56 then 56 - length ?m mod 64 else 120 - length ?m mod 64)"
      using pad_step [OF mod_less_divisor False] Suc.prems(3) by simp
    then show ?thesis
      using Suc.IH [OF sha1_update_holds [OF Suc.prems(1), of "[0]"], of "k - 1"] Suc.prems(2) False cond
      by simp
  qed
qed simp

lemma sha1_finish:
  assumes "sha1_holds c m"
  shows "SHA1Final c = sha1_spec m"
proof -
  let ?m = "m @ [0x80]"
  let ?k = "if length ?m mod 64 \<le> 56 then 56 - length ?m mod 64 else 120 - length ?m mod 64"
  have h: "sha1_holds (SHA1Update c [0x80]) ?m" by (rule sha1_update_holds [OF assms])
  have "length ?m mod 64 = (if length m mod 64 = 63 then 0 else length m mod 64 + 1)"
    by (simp add: mod_Suc)
  then have k: "replicate ?k 0 = zeros m" "?k < 64"
    using mod_less_divisor [of 64 "length m"] by (auto simp: zeros_def)
  have len: "rev (peel_bytes 8 (sha1_count c)) = to_big_endian (of_nat (8 * length m) :: u64)"
    using assms by (simp add: sha1_holds_def to_big_endian_def)
  have "sha1_holds (SHA1Pad c) (m @ sha256_padding m)"
    using sha1_update_holds [OF sha1_pad_loop_holds [OF h k(2) refl],
        of "to_big_endian (of_nat (8 * length m) :: u64)"] k(1)
    by (simp add: SHA1Pad_def len sha256_padding_def)
  then show ?thesis
    by (simp add: SHA1Final_def sha1_spec_def sha1_holds_def buffered_def)
qed

interpretation sha1: streaming_digest sha1_holds SHA1Update SHA1Final sha1_spec
  by unfold_locales (auto intro: sha1_update_holds sha1_finish)

lemma sha1_init_holds: "length buf = 64 \<Longrightarrow> sha1_holds (SHA1Init buf) []"
  by (simp add: sha1_holds_def buffered_def SHA1Init_def)

section \<open>Digest sizes\<close>

lemma length_RNDr [simp]: "length (sha256_RNDr S W i k) = length S"
  by (simp add: sha256_RNDr_def Let_def)

lemma length_rounds: "length (foldl (\<lambda>S (i, k). sha256_RNDr S W i k) S xs) = length S"
  by (induction xs arbitrary: S) auto

lemma length_SHA256Transform [simp]: "length (SHA256Transform state block) = length state"
  by (simp add: SHA256Transform_def Let_def length_rounds)

lemma length_transforms: "length (foldl SHA256Transform st bs) = length st"
  by (induction bs arbitrary: st) auto

lemma length_sha256_spec: "length (sha256_spec m) = 32"
  by (simp add: sha256_spec_def be32enc_vect_def length_concat comp_def be32enc_def
      sum_list_triv length_transforms SHA256Init_def)

lemma sha256_hash_eq: "sha256_hash data = sha256_spec data"
  using sha256.finish_slices [OF sha256_init_holds, of stack_buffer "[data]"]
  by (simp add: sha256_hash_def SHA256_def)

lemma ripemd160_hash_eq: "ripemd160_hash data = rmd160_spec data"
  using rmd160.finish_slices [OF rmd160_init_holds, of stack_buffer "[data]"]
  by (simp add: ripemd160_hash_def RMD160_def)

lemma sha1_hash_eq: "sha1_hash data = sha1_spec data"
  using sha1.finish_slices [OF sha1_init_holds, of stack_buffer "[data]"]
  by (simp add: sha1_hash_def SHA1_def)

lemma length_RMD160Transform [simp]: "length (RMD160Transform state block) = 5"
  by (simp add: RMD160Transform_def Let_def case_prod_beta)

lemma length_rmd160_spec: "length (rmd160_spec m) = 20"
proof -
  have "length (foldl RMD160Transform st bs) = 5" if "length st = 5" for st bs
    using that by (induction bs arbitrary: st) auto
  then show ?thesis
    by (simp add: rmd160_spec_def length_concat comp_def sum_list_triv RMD160Init_def)
qed

lemma length_hashes [simp]:
  "length (sha256_hash data) = 32" "length (bitcoin_hash data) = 32"
  "length (ripemd160_hash data) = 20" "length (bitcoin_short_hash data) = 20" "length (sha1_hash data) = 20"
  by (simp_all add: sha256_hash_eq bitcoin_hash_def length_sha256_spec ripemd160_hash_eq length_rmd160_spec
      bitcoin_short_hash_def sha1_hash_eq sha1_spec_def Let_def)

section \<open>Properties\<close>



end
