(* ===== verification/Chain.thy ===== *)
theory Chain
  imports Script Attachment Hashes
begin

unbundle bit_operations_syntax

text \<open>
  The objects of the block chain: \<open>point\<close>, \<open>input\<close>, \<open>output\<close>, \<open>transaction\<close>, \<open>header\<close> and \<open>block\<close> of
  \<open>bitcoin/chain\<close>, with their codecs, sizes, hashes and the queries the validation uses. The
  cached hash of a transaction or header and its lock are left out: \<open>hash()\<close> is the hash of the
  current fields. Vectors are resized to the announced element count before the elements are
  read; the allocation is taken to succeed.
\<close>

section \<open>Points\<close>

abbreviation (input) null_hash :: hash_digest where "null_hash \<equiv> replicate 32 0"

record point =
  point_hash :: hash_digest
  point_index :: u32

definition point_reset :: point where
  "point_reset = \<lparr>point_hash = null_hash, point_index = 0\<rparr>"

definition point_is_valid :: "point \<Rightarrow> bool" where
  "point_is_valid p \<longleftrightarrow> point_index p \<noteq> 0 \<or> point_hash p \<noteq> null_hash"

definition point_from_data :: "(bool \<times> point) reads" where
  "point_from_data = do {
     hash \<leftarrow> read_hash;
     index \<leftarrow> read_4_bytes_little_endian;
     result \<leftarrow> source_ok;
     State_Monad.return
       (if result then (True, \<lparr>point_hash = hash, point_index = index\<rparr>) else (False, point_reset)) }"

definition point_to_data :: "point \<Rightarrow> bytes" where
  "point_to_data p = point_hash p @ write_4_bytes_little_endian (point_index p)"

definition point_satoshi_fixed_size :: nat where
  "point_satoshi_fixed_size = hash_size + sizeof TYPE(u32)"

definition point_is_null :: "point \<Rightarrow> bool" where
  "point_is_null p \<longleftrightarrow> point_index p = 0xffffffff \<and> point_hash p = null_hash"

text \<open>The key of an output in a history row: 49 bits of the hash and 15 bits of the index.\<close>

definition point_checksum :: "point \<Rightarrow> u64" where
  "point_checksum p =
     (let mask = 0xffffffffffff8000 :: u64;
          tx = from_little_endian (take 8 (drop 12 (point_hash p))) :: u64;
          tx_index = ucast (point_index p) :: u64
      in (tx AND mask) OR (tx_index AND NOT mask))"

section \<open>Inputs\<close>

record tx_input =
  input_previous_output :: point
  input_script :: script
  input_sequence :: u32

abbreviation (input) max_input_sequence :: u32 where "max_input_sequence \<equiv> 0xffffffff"

definition input_reset :: tx_input where
  "input_reset = \<lparr>input_previous_output = point_reset, input_script = [], input_sequence = 0\<rparr>"

definition input_is_valid :: "tx_input \<Rightarrow> bool" where
  "input_is_valid i \<longleftrightarrow> input_sequence i \<noteq> 0 \<or> point_is_valid (input_previous_output i)
     \<or> script_is_valid (input_script i)"

definition input_from_data :: "(bool \<times> tx_input) reads" where
  "input_from_data = do {
     (result, previous_output) \<leftarrow> point_from_data;
     (result, script) \<leftarrow>
       (if result then
          script_from_data True (if point_is_null previous_output then Raw_data else Raw_data_fallback)
        else State_Monad.return (False, []));
     (result, sequence) \<leftarrow>
       (if result then do {
          sequence \<leftarrow> read_4_bytes_little_endian;
          result \<leftarrow> source_ok;
          State_Monad.return (result, sequence) }
        else State_Monad.return (False, 0));
     State_Monad.return
       (if result then
          (True, \<lparr>input_previous_output = previous_output, input_script = script, input_sequence = sequence\<rparr>)
        else (False, input_reset)) }"

definition input_to_data :: "tx_input \<Rightarrow> bytes" where
  "input_to_data i =
     point_to_data (input_previous_output i) @ script_to_data True (input_script i)
     @ write_4_bytes_little_endian (input_sequence i)"

definition input_serialized_size :: "tx_input \<Rightarrow> nat" where
  "input_serialized_size i = 4 + point_satoshi_fixed_size + script_serialized_size (input_script i) True"

definition input_is_final :: "tx_input \<Rightarrow> bool" where
  "input_is_final i \<longleftrightarrow> input_sequence i = max_input_sequence"

section \<open>Outputs\<close>

record tx_output =
  output_value :: u64
  output_script :: script
  output_attach_data :: attachment

definition output_reset :: tx_output where
  "output_reset = \<lparr>output_value = 0, output_script = [], output_attach_data = attachment_reset\<rparr>"

text \<open>\<open>attachment::is_valid\<close> is constantly true.\<close>

definition output_is_valid :: "tx_output \<Rightarrow> bool" where
  "output_is_valid out \<longleftrightarrow> output_value out \<noteq> 0 \<or> script_is_valid (output_script out) \<or> True"

definition output_from_data :: "(bool \<times> tx_output) reads" where
  "output_from_data = do {
     value \<leftarrow> read_8_bytes_little_endian;
     result \<leftarrow> source_ok;
     (result, script) \<leftarrow>
       (if result then script_from_data True Raw_data_fallback else State_Monad.return (False, []));
     (result, attach_data) \<leftarrow>
       (if result then attachment_from_data else State_Monad.return (False, attachment_reset));
     State_Monad.return
       (if result then
          (True, \<lparr>output_value = value, output_script = script, output_attach_data = attach_data\<rparr>)
        else (False, output_reset)) }"

definition output_to_data :: "tx_output \<Rightarrow> bytes" where
  "output_to_data out =
     write_8_bytes_little_endian (output_value out) @ script_to_data True (output_script out)
     @ attachment_to_data (output_attach_data out)"

definition output_serialized_size :: "tx_output \<Rightarrow> nat" where
  "output_serialized_size out =
     8 + script_serialized_size (output_script out) True + attachment_serialized_size (output_attach_data out)"

text \<open>\<open>std::isalnum\<close> in the default locale: the digits and the ASCII letters.\<close>

definition is_alnum :: "u8 \<Rightarrow> bool" where
  "is_alnum c \<longleftrightarrow> (0x30 \<le> c \<and> c \<le> 0x39) \<or> (0x41 \<le> c \<and> c \<le> 0x5a) \<or> (0x61 \<le> c \<and> c \<le> 0x7a)"

definition is_valid_symbol :: "bytes \<Rightarrow> bool" where
  "is_valid_symbol symbol =
     (if length symbol > asset_detail_symbol_fix_size then False
      else list_all (\<lambda>c. is_alnum c \<or> c = 0x2e) symbol)"

text \<open>
  The asset queries take the alternative that the type field announces out of the variant;
  \<open>boost::get\<close> throws when the variant holds another one.
\<close>

definition get_asset :: "attachment \<Rightarrow> asset outcome" where
  "get_asset a = (case attach_payload a of Attach_asset s \<Rightarrow> Returns s | _ \<Rightarrow> Abnormal)"

definition get_asset_amount :: "tx_output \<Rightarrow> u64 outcome" where
  "get_asset_amount out =
     (if attach_type (output_attach_data out) = asset_type then do {
        asset_info \<leftarrow> get_asset (output_attach_data out);
        (if asset_status asset_info = asset_detail_type then
           (case asset_payload asset_info of
              Asset_detail d \<Rightarrow> Returns (detail_maximum_supply d) | Asset_transfer t \<Rightarrow> Abnormal)
         else if asset_status asset_info = asset_transferable_type then
           (case asset_payload asset_info of
              Asset_transfer t \<Rightarrow> Returns (transfer_quantity t) | Asset_detail d \<Rightarrow> Abnormal)
         else Returns 0) }
      else Returns 0)"

definition is_asset_transfer :: "tx_output \<Rightarrow> bool outcome" where
  "is_asset_transfer out =
     (if attach_type (output_attach_data out) = asset_type then do {
        asset_info \<leftarrow> get_asset (output_attach_data out);
        Returns (asset_status asset_info = asset_transferable_type) }
      else Returns False)"

definition is_asset_issue :: "tx_output \<Rightarrow> bool outcome" where
  "is_asset_issue out =
     (if attach_type (output_attach_data out) = asset_type then do {
        asset_info \<leftarrow> get_asset (output_attach_data out);
        Returns (asset_status asset_info = asset_detail_type) }
      else Returns False)"

definition is_etp :: "tx_output \<Rightarrow> bool" where
  "is_etp out \<longleftrightarrow> attach_type (output_attach_data out) = etp_type"

definition get_asset_symbol :: "tx_output \<Rightarrow> bytes outcome" where
  "get_asset_symbol out =
     (if attach_type (output_attach_data out) = asset_type then do {
        asset_info \<leftarrow> get_asset (output_attach_data out);
        (if asset_status asset_info = asset_detail_type then
           (case asset_payload asset_info of
              Asset_detail d \<Rightarrow> Returns (detail_symbol d) | Asset_transfer t \<Rightarrow> Abnormal)
         else if asset_status asset_info = asset_transferable_type then
           (case asset_payload asset_info of
              Asset_transfer t \<Rightarrow> Returns (transfer_address t) | Asset_detail d \<Rightarrow> Abnormal)
         else Returns []) }
      else Returns [])"

section \<open>Transactions\<close>

record transaction =
  tx_version :: u32
  tx_locktime :: u32
  tx_inputs :: "tx_input list"
  tx_outputs :: "tx_output list"

definition transaction_reset :: transaction where
  "transaction_reset = \<lparr>tx_version = 0, tx_locktime = 0, tx_inputs = [], tx_outputs = []\<rparr>"

definition transaction_is_valid :: "transaction \<Rightarrow> bool" where
  "transaction_is_valid tx \<longleftrightarrow> tx_version tx \<noteq> 0 \<or> tx_locktime tx \<noteq> 0 \<or> tx_inputs tx \<noteq> []
     \<or> tx_outputs tx \<noteq> []"

definition transaction_from_data :: "(bool \<times> transaction) reads" where
  "transaction_from_data = do {
     version \<leftarrow> read_4_bytes_little_endian;
     result \<leftarrow> source_ok;
     (result, inputs) \<leftarrow>
       (if result then counted_from_data input_from_data else State_Monad.return (False, []));
     (result, outputs) \<leftarrow>
       (if result then counted_from_data output_from_data else State_Monad.return (False, []));
     (result, locktime) \<leftarrow>
       (if result then do {
          locktime \<leftarrow> read_4_bytes_little_endian;
          result \<leftarrow> source_ok;
          State_Monad.return (result, locktime) }
        else State_Monad.return (False, 0));
     State_Monad.return
       (if result then
          (True, \<lparr>tx_version = version, tx_locktime = locktime, tx_inputs = inputs, tx_outputs = outputs\<rparr>)
        else (False, transaction_reset)) }"

definition transaction_to_data :: "transaction \<Rightarrow> bytes" where
  "transaction_to_data tx =
     write_4_bytes_little_endian (tx_version tx)
     @ write_variable_uint_little_endian (of_nat (length (tx_inputs tx)))
     @ concat (map input_to_data (tx_inputs tx))
     @ write_variable_uint_little_endian (of_nat (length (tx_outputs tx)))
     @ concat (map output_to_data (tx_outputs tx))
     @ write_4_bytes_little_endian (tx_locktime tx)"

definition transaction_serialized_size :: "transaction \<Rightarrow> nat" where
  "transaction_serialized_size tx =
     8 + variable_uint_size (of_nat (length (tx_inputs tx)))
     + (\<Sum>i\<leftarrow>tx_inputs tx. input_serialized_size i)
     + variable_uint_size (of_nat (length (tx_outputs tx)))
     + (\<Sum>out\<leftarrow>tx_outputs tx. output_serialized_size out)"

definition transaction_hash :: "transaction \<Rightarrow> hash_digest" where
  "transaction_hash tx = bitcoin_hash (transaction_to_data tx)"

definition transaction_sighash :: "transaction \<Rightarrow> u32 \<Rightarrow> hash_digest" where
  "transaction_sighash tx sighash_type =
     bitcoin_hash (transaction_to_data tx @ to_little_endian sighash_type)"

definition is_coinbase :: "transaction \<Rightarrow> bool" where
  "is_coinbase tx \<longleftrightarrow>
     length (tx_inputs tx) = 1 \<and> point_is_null (input_previous_output (tx_inputs tx ! 0))"

abbreviation (input) locktime_threshold :: u32 where "locktime_threshold \<equiv> 500000000"

definition is_final :: "transaction \<Rightarrow> u64 \<Rightarrow> u32 \<Rightarrow> bool" where
  "is_final tx block_height block_time =
     (if tx_locktime tx = 0 then True
      else
        (let max_locktime = (if tx_locktime tx < locktime_threshold then ucast block_height else block_time)
         in if tx_locktime tx < max_locktime then True
            else list_all input_is_final (tx_inputs tx)))"

definition is_locktime_conflict :: "transaction \<Rightarrow> bool" where
  "is_locktime_conflict tx =
     (if tx_locktime tx \<noteq> 0 then
        (if list_ex (\<lambda>i. input_sequence i < max_input_sequence) (tx_inputs tx) then False else True)
      else False)"

definition total_output_value :: "transaction \<Rightarrow> u64" where
  "total_output_value tx = foldl (\<lambda>total out. total + output_value out) 0 (tx_outputs tx)"

primrec add_asset_amounts :: "tx_output list \<Rightarrow> u64 \<Rightarrow> u64 outcome" where
  "add_asset_amounts [] acc = Returns acc"
| "add_asset_amounts (out # outs) acc = do {
     amount \<leftarrow> get_asset_amount out;
     add_asset_amounts outs (acc + amount) }"

definition total_output_transfer_amount :: "transaction \<Rightarrow> u64 outcome" where
  "total_output_transfer_amount tx = add_asset_amounts (tx_outputs tx) 0"

primrec any_output :: "(tx_output \<Rightarrow> bool outcome) \<Rightarrow> tx_output list \<Rightarrow> bool outcome" where
  "any_output p [] = Returns False"
| "any_output p (out # outs) = do { b \<leftarrow> p out; if b then Returns True else any_output p outs }"

definition has_asset_issue :: "transaction \<Rightarrow> bool outcome" where
  "has_asset_issue tx = any_output is_asset_issue (tx_outputs tx)"

definition has_asset_transfer :: "transaction \<Rightarrow> bool outcome" where
  "has_asset_transfer tx = any_output is_asset_transfer (tx_outputs tx)"

section \<open>Headers\<close>

text \<open>
  \<open>u256\<close> and \<open>u64\<close> of the header are \<open>boost::multiprecision\<close> integers; \<open>h256\<close> and \<open>h64\<close> hold their
  big-endian bytes (\<open>libdevcore/FixedHash.h\<close>, \<open>CommonData.h\<close>).
\<close>

type_synonym u256 = "256 word"

definition from_big_endian_bytes :: "bytes \<Rightarrow> 'a::len word" where
  "from_big_endian_bytes bs = foldl (\<lambda>ret i. push_bit 8 ret OR ucast i) 0 bs"

record header =
  hdr_version :: u32
  hdr_previous_block_hash :: hash_digest
  hdr_merkle :: hash_digest
  hdr_timestamp :: u32
  hdr_bits :: u256
  hdr_nonce :: u64
  hdr_mixhash :: u256
  hdr_number :: u32
  hdr_transaction_count :: u64

text \<open>\<open>header::reset\<close>, which leaves the mix hash, the number and the count as they are.\<close>

definition header_reset_of :: "header \<Rightarrow> header" where
  "header_reset_of h =
     h\<lparr>hdr_version := 0, hdr_previous_block_hash := null_hash, hdr_merkle := null_hash,
       hdr_timestamp := 0, hdr_bits := 0, hdr_nonce := 0\<rparr>"

definition header_is_valid :: "header \<Rightarrow> bool" where
  "header_is_valid h \<longleftrightarrow> hdr_version h \<noteq> 0 \<or> hdr_previous_block_hash h \<noteq> null_hash
     \<or> hdr_merkle h \<noteq> null_hash \<or> hdr_timestamp h \<noteq> 0 \<or> hdr_bits h \<noteq> 0 \<or> hdr_nonce h \<noteq> 0"

definition header_from_data :: "bool \<Rightarrow> (bool \<times> header) reads" where
  "header_from_data with_transaction_count = do {
     version \<leftarrow> read_4_bytes_little_endian;
     previous_block_hash \<leftarrow> read_hash;
     merkle \<leftarrow> read_hash;
     timestamp \<leftarrow> read_4_bytes_little_endian;
     bits \<leftarrow> read_buffer 32;
     nonce \<leftarrow> read_buffer 8;
     mixhash \<leftarrow> read_buffer 32;
     number \<leftarrow> read_4_bytes_little_endian;
     transaction_count \<leftarrow>
       (if with_transaction_count then read_variable_uint_little_endian else State_Monad.return 0);
     result \<leftarrow> source_ok;
     let h = \<lparr>hdr_version = version, hdr_previous_block_hash = previous_block_hash, hdr_merkle = merkle,
              hdr_timestamp = timestamp, hdr_bits = from_big_endian_bytes bits,
              hdr_nonce = from_big_endian_bytes nonce, hdr_mixhash = from_big_endian_bytes mixhash,
              hdr_number = number, hdr_transaction_count = transaction_count\<rparr>;
     State_Monad.return (if result then (True, h) else (False, header_reset_of h)) }"

definition header_to_data :: "bool \<Rightarrow> header \<Rightarrow> bytes" where
  "header_to_data with_transaction_count h =
     write_4_bytes_little_endian (hdr_version h) @ hdr_previous_block_hash h @ hdr_merkle h
     @ write_4_bytes_little_endian (hdr_timestamp h)
     @ to_big_endian (hdr_bits h) @ to_big_endian (hdr_nonce h) @ to_big_endian (hdr_mixhash h)
     @ write_4_bytes_little_endian (hdr_number h)
     @ (if with_transaction_count then write_variable_uint_little_endian (hdr_transaction_count h) else [])"

definition header_serialized_size :: "bool \<Rightarrow> header \<Rightarrow> nat" where
  "header_serialized_size with_transaction_count h =
     (if with_transaction_count then 148 + variable_uint_size (hdr_transaction_count h) else 148)"

definition header_hash :: "header \<Rightarrow> hash_digest" where
  "header_hash h = bitcoin_hash (header_to_data False h)"

text \<open>\<open>operator==\<close> on headers.\<close>

definition header_equal :: "header \<Rightarrow> header \<Rightarrow> bool" where
  "header_equal left right \<longleftrightarrow>
     hdr_version left = hdr_version right
     \<and> hdr_previous_block_hash left = hdr_previous_block_hash right
     \<and> hdr_merkle left = hdr_merkle right
     \<and> hdr_timestamp left = hdr_timestamp right
     \<and> hdr_bits left = hdr_bits right
     \<and> hdr_nonce left = hdr_nonce right
     \<and> hdr_transaction_count left = hdr_transaction_count right"

section \<open>Blocks\<close>

record block =
  block_header :: header
  block_transactions :: "transaction list"

definition block_reset_of :: "header \<Rightarrow> block" where
  "block_reset_of h = \<lparr>block_header = header_reset_of h, block_transactions = []\<rparr>"

definition block_is_valid :: "block \<Rightarrow> bool" where
  "block_is_valid b \<longleftrightarrow> block_transactions b \<noteq> [] \<or> header_is_valid (block_header b)"

definition block_from_data :: "bool \<Rightarrow> (bool \<times> block) reads" where
  "block_from_data with_transaction_count = do {
     (result, h) \<leftarrow> header_from_data with_transaction_count;
     (result, txs) \<leftarrow>
       (if result then from_data_each transaction_from_data (unat (hdr_transaction_count h))
        else State_Monad.return (False, []));
     State_Monad.return
       (if result then (True, \<lparr>block_header = h, block_transactions = txs\<rparr>) else (False, block_reset_of h)) }"

definition block_to_data :: "bool \<Rightarrow> block \<Rightarrow> bytes" where
  "block_to_data with_transaction_count b =
     header_to_data with_transaction_count (block_header b)
     @ concat (map transaction_to_data (block_transactions b))"

definition block_serialized_size :: "bool \<Rightarrow> block \<Rightarrow> nat" where
  "block_serialized_size with_transaction_count b =
     header_serialized_size with_transaction_count (block_header b)
     + (\<Sum>tx\<leftarrow>block_transactions b. transaction_serialized_size tx)"

section \<open>The Merkle tree\<close>

text \<open>The inner loop over the hashes two at a time.\<close>

fun merkle_pairs :: "hash_digest list \<Rightarrow> hash_digest list" where
  "merkle_pairs (a # b # rest) = bitcoin_hash (a @ b) # merkle_pairs rest"
| "merkle_pairs _ = []"

definition merkle_level :: "hash_digest list \<Rightarrow> hash_digest list" where
  "merkle_level merkle =
     merkle_pairs (if length merkle mod 2 \<noteq> 0 then merkle @ [last merkle] else merkle)"

lemma length_merkle_pairs: "length (merkle_pairs m) = length m div 2"
  by (induction m rule: merkle_pairs.induct) auto

lemma length_merkle_level: "length (merkle_level m) = (length m + 1) div 2"
  by (simp add: merkle_level_def length_merkle_pairs) presburger

function build_merkle_tree :: "hash_digest list \<Rightarrow> hash_digest" where
  "build_merkle_tree merkle =
     (if merkle = [] then null_hash
      else if length merkle > 1 then build_merkle_tree (merkle_level merkle)
      else merkle ! 0)"
  by pat_completeness auto
termination
  by (relation "measure length") (auto simp: length_merkle_level)

declare build_merkle_tree.simps [simp del]

definition generate_merkle_root :: "transaction list \<Rightarrow> hash_digest" where
  "generate_merkle_root transactions = build_merkle_tree (map transaction_hash transactions)"

end
