(* ===== verification/Signatures.thy ===== *)
theory Signatures
  imports Prelude
begin

unbundle bit_operations_syntax

text \<open>
  Signatures: the part of \<open>math/elliptic_curve.cpp\<close> the script engine calls, and the tolerant DER
  parser \<open>math/external/lax_der_parsing.c\<close>. The library \<open>secp256k1\<close> is not part of the program:
  the functions of it that are called are the fields of a record, an argument of every
  definition that depends on them.
\<close>

section \<open>The elliptic-curve library\<close>

type_synonym ec_signature = bytes

record secp256k1 =
  ecdsa_signature_parse_der :: "bytes \<Rightarrow> ec_signature option"
  ecdsa_signature_parse_compact :: "bytes \<Rightarrow> ec_signature option"
  ecdsa_signature_normalize :: "ec_signature \<Rightarrow> ec_signature"
  ec_pubkey_parse :: "bytes \<Rightarrow> bytes option"
  ecdsa_verify :: "ec_signature \<Rightarrow> hash_digest \<Rightarrow> bytes \<Rightarrow> bool"
  ecdsa_sign :: "bytes \<Rightarrow> hash_digest \<Rightarrow> ec_signature option"
  ecdsa_signature_serialize_der :: "ec_signature \<Rightarrow> bytes option"

section \<open>The tolerant DER parser\<close>

text \<open>
  The position in the input is the list of the bytes from there on. The bytes of a long length
  field: leading zeros are skipped, then at most seven bytes are accumulated.
\<close>

definition lax_long_length :: "nat \<Rightarrow> bytes \<Rightarrow> (nat \<times> bytes) option" where
  "lax_long_length lenbyte input =
     (if lenbyte > length input then None
      else
        (let field = take lenbyte input; digits = dropWhile (\<lambda>b. b = 0) field
         in if length digits \<ge> 8 then None
            else Some (foldl (\<lambda>n b. n * 256 + unat b) 0 digits, drop lenbyte input)))"

definition lax_length :: "bytes \<Rightarrow> (nat \<times> bytes) option" where
  "lax_length input =
     (case input of
        [] \<Rightarrow> None
      | lenbyte # rest \<Rightarrow>
          if lenbyte AND 0x80 \<noteq> 0 then lax_long_length (unat lenbyte - 0x80) rest
          else Some (unat lenbyte, rest))"

text \<open>An integer: its tag, its length and its bytes; and what follows.\<close>

definition lax_integer :: "bytes \<Rightarrow> (bytes \<times> bytes) option" where
  "lax_integer input =
     (case input of
        [] \<Rightarrow> None
      | tag # rest \<Rightarrow>
          if tag \<noteq> 0x02 then None
          else (case lax_length rest of
                  None \<Rightarrow> None
                | Some (len, rest) \<Rightarrow>
                    if len > length rest then None else Some (take len rest, drop len rest)))"

text \<open>The sequence tag and its length, whose value is not looked at.\<close>

definition lax_sequence :: "bytes \<Rightarrow> bytes option" where
  "lax_sequence input =
     (case input of
        [] \<Rightarrow> None
      | tag # rest \<Rightarrow>
          if tag \<noteq> 0x30 then None
          else (case rest of
                  [] \<Rightarrow> None
                | lenbyte # rest \<Rightarrow>
                    if lenbyte AND 0x80 \<noteq> 0 then
                      (if unat lenbyte - 0x80 > length rest then None
                       else Some (drop (unat lenbyte - 0x80) rest))
                    else Some rest))"

definition ecdsa_signature_parse_der_lax :: "secp256k1 \<Rightarrow> bytes \<Rightarrow> ec_signature option" where
  "ecdsa_signature_parse_der_lax lib input = do {
     rest \<leftarrow> lax_sequence input;
     (r, rest) \<leftarrow> lax_integer rest;
     (s, rest) \<leftarrow> lax_integer rest;
     let r = dropWhile (\<lambda>b. b = 0) r;
     let s = dropWhile (\<lambda>b. b = 0) s;
     let tmpsig = replicate (32 - length r) 0 @ r @ replicate (32 - length s) 0 @ s;
     let zero_sig = (case ecdsa_signature_parse_compact lib (replicate 64 0) of Some z \<Rightarrow> z | None \<Rightarrow> replicate 64 0);
     Some (if length r > 32 \<or> length s > 32 then zero_sig
           else (case ecdsa_signature_parse_compact lib tmpsig of Some sig \<Rightarrow> sig | None \<Rightarrow> zero_sig)) }"

section \<open>Parsing, verifying, signing\<close>

definition parse_signature :: "secp256k1 \<Rightarrow> bytes \<Rightarrow> bool \<Rightarrow> ec_signature option" where
  "parse_signature lib der_signature strict =
     (if der_signature = [] then None
      else if strict then ecdsa_signature_parse_der lib der_signature
      else ecdsa_signature_parse_der_lax lib der_signature)"

definition verify_signature :: "secp256k1 \<Rightarrow> bytes \<Rightarrow> hash_digest \<Rightarrow> ec_signature \<Rightarrow> bool" where
  "verify_signature lib point hash signature =
     (let normal = ecdsa_signature_normalize lib signature
      in case ec_pubkey_parse lib point of
           None \<Rightarrow> False
         | Some pubkey \<Rightarrow> ecdsa_verify lib normal hash pubkey)"

definition sign :: "secp256k1 \<Rightarrow> bytes \<Rightarrow> hash_digest \<Rightarrow> ec_signature option" where
  "sign lib secret hash = ecdsa_sign lib secret hash"

definition encode_signature :: "secp256k1 \<Rightarrow> ec_signature \<Rightarrow> bytes option" where
  "encode_signature lib signature = ecdsa_signature_serialize_der lib signature"

end
