(* ===== verification/Evaluation.thy ===== *)
theory Evaluation
  imports Chain Signatures
begin

unbundle bit_operations_syntax

text \<open>
  The script engine: the evaluating half of \<open>chain/script/script.cpp\<close> with
  \<open>evaluation_context.cpp\<close> and \<open>conditional_stack.cpp\<close>. The back of a vector that is used as a
  stack is the head of a list. An operation gives the returned flag and the context as it leaves
  it, also when it returns false; \<open>Abnormal\<close> stands for undefined behaviour.
\<close>

section \<open>The context\<close>

record evaluation_context =
  code_begin :: nat
  operation_counter :: nat
  ctx_stack :: "bytes list"
  ctx_alternate :: "bytes list"
  ctx_conditional :: "bool list"
  ctx_flags :: u32

type_synonym evaluation = "(bool \<times> evaluation_context) outcome"

abbreviation (input) stack_false_value :: bytes where "stack_false_value \<equiv> []"
abbreviation (input) stack_true_value :: bytes where "stack_true_value \<equiv> [1]"
abbreviation (input) op_counter_limit :: nat where "op_counter_limit \<equiv> 201"

definition push_stack :: "bytes \<Rightarrow> evaluation_context \<Rightarrow> evaluation_context" where
  "push_stack value context = context\<lparr>ctx_stack := value # ctx_stack context\<rparr>"

definition pop_stack :: "evaluation_context \<Rightarrow> (bytes \<times> evaluation_context) outcome" where
  "pop_stack context =
     (case ctx_stack context of
        [] \<Rightarrow> Abnormal
      | value # rest \<Rightarrow> Returns (value, context\<lparr>ctx_stack := rest\<rparr>))"

definition conditional_closed :: "evaluation_context \<Rightarrow> bool" where
  "conditional_closed context \<longleftrightarrow> ctx_conditional context = []"

definition conditional_succeeded :: "evaluation_context \<Rightarrow> bool" where
  "conditional_succeeded context \<longleftrightarrow> length (filter (\<lambda>b. b = False) (ctx_conditional context)) = 0"

definition conditional_open :: "bool \<Rightarrow> evaluation_context \<Rightarrow> evaluation_context" where
  "conditional_open value context = context\<lparr>ctx_conditional := value # ctx_conditional context\<rparr>"

definition conditional_else :: "evaluation_context \<Rightarrow> evaluation_context outcome" where
  "conditional_else context =
     (case ctx_conditional context of
        [] \<Rightarrow> Abnormal
      | b # rest \<Rightarrow> Returns (context\<lparr>ctx_conditional := (\<not> b) # rest\<rparr>))"

definition conditional_close :: "evaluation_context \<Rightarrow> evaluation_context outcome" where
  "conditional_close context =
     (case ctx_conditional context of
        [] \<Rightarrow> Abnormal
      | b # rest \<Rightarrow> Returns (context\<lparr>ctx_conditional := rest\<rparr>))"

section \<open>Helpers\<close>

text \<open>The loop of \<open>cast_to_bool\<close>: the first byte that is not zero decides, a final \<open>0x80\<close> is zero.\<close>

fun cast_to_bool :: "bytes \<Rightarrow> bool" where
  "cast_to_bool [] = False"
| "cast_to_bool (b # rest) =
     (if b \<noteq> 0 then (if rest = [] \<and> b = 0x80 then False else True) else cast_to_bool rest)"

definition stack_swap :: "bytes list \<Rightarrow> nat \<Rightarrow> nat \<Rightarrow> bytes list" where
  "stack_swap stack index_a index_b =
     stack[index_a - 1 := stack ! (index_b - 1), index_b - 1 := stack ! (index_a - 1)]"

text \<open>\<open>read_value\<close>: the number and the context, or the context alone when the function returns false.\<close>

definition read_value :: "evaluation_context \<Rightarrow> (int option \<times> evaluation_context) outcome" where
  "read_value context =
     (if ctx_stack context = [] then Returns (None, context)
      else do {
        (item, context) \<leftarrow> pop_stack context;
        mid \<leftarrow> set_data item max_script_number_size;
        Returns (map_option script_number_int32 mid, context) })"

definition pick_roll_impl :: "bool \<Rightarrow> evaluation_context \<Rightarrow> evaluation" where
  "pick_roll_impl is_roll context =
     (if length (ctx_stack context) < 2 then Returns (False, context)
      else do {
        (value, context) \<leftarrow> read_value context;
        (case value of
           None \<Rightarrow> Returns (False, context)
         | Some value \<Rightarrow>
             (let stack = ctx_stack context in
              if value < 0 \<or> value \<ge> int (length stack) then Returns (False, context)
              else
                (let i = nat value; item = stack ! i;
                     stack = (if is_roll then take i stack @ drop (Suc i) stack else stack)
                 in Returns (True, context\<lparr>ctx_stack := item # stack\<rparr>)))) })"

text \<open>\<open>arithmetic_start_new\<close> followed by what the operation makes of the two numbers.\<close>

definition arithmetic_start_new ::
  "evaluation_context \<Rightarrow> ((int \<times> int) option \<times> evaluation_context) outcome" where
  "arithmetic_start_new context =
     (if length (ctx_stack context) < 2 then Returns (None, context)
      else do {
        (item_b, context) \<leftarrow> pop_stack context;
        number_b \<leftarrow> set_data item_b max_script_number_size;
        (case number_b of
           None \<Rightarrow> Returns (None, context)
         | Some number_b \<Rightarrow> do {
             (item_a, context) \<leftarrow> pop_stack context;
             number_a \<leftarrow> set_data item_a max_script_number_size;
             (case number_a of
                None \<Rightarrow> Returns (None, context)
              | Some number_a \<Rightarrow> Returns (Some (number_a, number_b), context)) }) })"

definition binary_number :: "(int \<Rightarrow> int \<Rightarrow> int) \<Rightarrow> evaluation_context \<Rightarrow> evaluation" where
  "binary_number f context = do {
     (numbers, context) \<leftarrow> arithmetic_start_new context;
     (case numbers of
        None \<Rightarrow> Returns (False, context)
      | Some (number_a, number_b) \<Rightarrow>
          Returns (True, push_stack (script_number_serialize (f number_a number_b)) context)) }"

definition unary_number :: "(int \<Rightarrow> int) \<Rightarrow> evaluation_context \<Rightarrow> evaluation" where
  "unary_number f context =
     (if length (ctx_stack context) < 1 then Returns (False, context)
      else do {
        (item, context) \<leftarrow> pop_stack context;
        number \<leftarrow> set_data item max_script_number_size;
        (case number of
           None \<Rightarrow> Returns (False, context)
         | Some number \<Rightarrow> Returns (True, push_stack (script_number_serialize (f number)) context)) })"

definition hash_top :: "(bytes \<Rightarrow> bytes) \<Rightarrow> evaluation_context \<Rightarrow> evaluation" where
  "hash_top f context =
     (if length (ctx_stack context) < 1 then Returns (False, context)
      else do {
        (item, context) \<leftarrow> pop_stack context;
        Returns (True, push_stack (f item) context) })"

definition is_condition_opcode :: "opcode \<Rightarrow> bool" where
  "is_condition_opcode code \<longleftrightarrow> code = opcode_if \<or> code = opcode_notif \<or> code = opcode_else \<or> code = opcode_endif"

definition greater_op_16 :: "opcode \<Rightarrow> bool" where
  "greater_op_16 code \<longleftrightarrow> code > opcode_16"

section \<open>Constants and conditionals\<close>

definition op_negative_1 :: "evaluation_context \<Rightarrow> evaluation" where
  "op_negative_1 context = Returns (True, push_stack (script_number_serialize (- 1)) context)"

definition op_x :: "opcode \<Rightarrow> evaluation_context \<Rightarrow> evaluation" where
  "op_x code context =
     Returns (True, push_stack (script_number_serialize (int (unat code) - int (unat opcode_1) + 1)) context)"

definition op_if :: "evaluation_context \<Rightarrow> evaluation" where
  "op_if context =
     (if conditional_succeeded context then
        (if length (ctx_stack context) < 1 then Returns (False, context)
         else do {
           (item, context) \<leftarrow> pop_stack context;
           Returns (True, conditional_open (cast_to_bool item) context) })
      else Returns (True, conditional_open False context))"

definition op_notif :: "evaluation_context \<Rightarrow> evaluation" where
  "op_notif context = do {
     (ok, context) \<leftarrow> op_if context;
     (if \<not> ok then Returns (False, context)
      else do { context \<leftarrow> conditional_else context; Returns (True, context) }) }"

definition op_else :: "evaluation_context \<Rightarrow> evaluation" where
  "op_else context =
     (if conditional_closed context then Returns (False, context)
      else do { context \<leftarrow> conditional_else context; Returns (True, context) })"

definition op_endif :: "evaluation_context \<Rightarrow> evaluation" where
  "op_endif context =
     (if conditional_closed context then Returns (False, context)
      else do { context \<leftarrow> conditional_close context; Returns (True, context) })"

definition op_verify :: "evaluation_context \<Rightarrow> evaluation" where
  "op_verify context =
     (if length (ctx_stack context) < 1 then Returns (False, context)
      else if \<not> cast_to_bool (hd (ctx_stack context)) then Returns (False, context)
      else do { (item, context) \<leftarrow> pop_stack context; Returns (True, context) })"

section \<open>Stack operations\<close>

definition op_toaltstack :: "evaluation_context \<Rightarrow> evaluation" where
  "op_toaltstack context =
     (if length (ctx_stack context) < 1 then Returns (False, context)
      else do {
        (move_data, context) \<leftarrow> pop_stack context;
        Returns (True, context\<lparr>ctx_alternate := move_data # ctx_alternate context\<rparr>) })"

definition op_fromaltstack :: "evaluation_context \<Rightarrow> evaluation" where
  "op_fromaltstack context =
     (if length (ctx_alternate context) < 1 then Returns (False, context)
      else Returns (True, push_stack (hd (ctx_alternate context)) context\<lparr>ctx_alternate := tl (ctx_alternate context)\<rparr>))"

text \<open>Operations that need \<open>n\<close> items and rearrange the stack.\<close>

definition rearrange :: "nat \<Rightarrow> (bytes list \<Rightarrow> bytes list) \<Rightarrow> evaluation_context \<Rightarrow> evaluation" where
  "rearrange n f context =
     (if length (ctx_stack context) < n then Returns (False, context)
      else Returns (True, context\<lparr>ctx_stack := f (ctx_stack context)\<rparr>))"

definition op_2drop :: "evaluation_context \<Rightarrow> evaluation" where
  "op_2drop = rearrange 2 (drop 2)"

definition op_2dup :: "evaluation_context \<Rightarrow> evaluation" where
  "op_2dup = rearrange 2 (\<lambda>stack. stack ! 0 # stack ! 1 # stack)"

definition op_3dup :: "evaluation_context \<Rightarrow> evaluation" where
  "op_3dup = rearrange 3 (\<lambda>stack. stack ! 0 # stack ! 1 # stack ! 2 # stack)"

definition copy_item_over_stack :: "nat \<Rightarrow> bytes list \<Rightarrow> bytes list" where
  "copy_item_over_stack index stack = stack ! (index - 1) # stack"

definition op_2over :: "evaluation_context \<Rightarrow> evaluation" where
  "op_2over = rearrange 4 (\<lambda>stack. copy_item_over_stack 4 (copy_item_over_stack 4 stack))"

definition op_2rot :: "evaluation_context \<Rightarrow> evaluation" where
  "op_2rot = rearrange 6 (\<lambda>stack. stack ! 4 # stack ! 5 # take 4 stack @ drop 6 stack)"

definition op_2swap :: "evaluation_context \<Rightarrow> evaluation" where
  "op_2swap = rearrange 4 (\<lambda>stack. stack_swap (stack_swap stack 4 2) 3 1)"

definition op_ifdup :: "evaluation_context \<Rightarrow> evaluation" where
  "op_ifdup = rearrange 1 (\<lambda>stack. if cast_to_bool (stack ! 0) then stack ! 0 # stack else stack)"

definition op_depth :: "evaluation_context \<Rightarrow> evaluation" where
  "op_depth context =
     Returns (True, push_stack (script_number_serialize (int (length (ctx_stack context)))) context)"

definition op_drop :: "evaluation_context \<Rightarrow> evaluation" where
  "op_drop = rearrange 1 (drop 1)"

definition op_dup :: "evaluation_context \<Rightarrow> evaluation" where
  "op_dup = rearrange 1 (\<lambda>stack. stack ! 0 # stack)"

definition op_nip :: "evaluation_context \<Rightarrow> evaluation" where
  "op_nip = rearrange 2 (\<lambda>stack. take 1 stack @ drop 2 stack)"

definition op_over :: "evaluation_context \<Rightarrow> evaluation" where
  "op_over = rearrange 2 (copy_item_over_stack 2)"

definition op_pick :: "evaluation_context \<Rightarrow> evaluation" where
  "op_pick = pick_roll_impl False"

definition op_roll :: "evaluation_context \<Rightarrow> evaluation" where
  "op_roll = pick_roll_impl True"

definition op_rot :: "evaluation_context \<Rightarrow> evaluation" where
  "op_rot = rearrange 3 (\<lambda>stack. stack_swap (stack_swap stack 3 2) 2 1)"

definition op_swap :: "evaluation_context \<Rightarrow> evaluation" where
  "op_swap = rearrange 2 (\<lambda>stack. stack_swap stack 2 1)"

definition op_tuck :: "evaluation_context \<Rightarrow> evaluation" where
  "op_tuck = rearrange 2 (\<lambda>stack. take 2 stack @ stack ! 0 # drop 2 stack)"

definition op_size :: "evaluation_context \<Rightarrow> evaluation" where
  "op_size = rearrange 1 (\<lambda>stack. script_number_serialize (int (length (stack ! 0))) # stack)"

definition op_equal :: "evaluation_context \<Rightarrow> evaluation" where
  "op_equal context =
     (if length (ctx_stack context) < 2 then Returns (False, context)
      else do {
        (a, context) \<leftarrow> pop_stack context;
        (b, context) \<leftarrow> pop_stack context;
        Returns (True, push_stack (if a = b then stack_true_value else stack_false_value) context) })"

definition op_equalverify :: "evaluation_context \<Rightarrow> evaluation" where
  "op_equalverify context =
     (if length (ctx_stack context) < 2 then Returns (False, context)
      else do {
        (a, context) \<leftarrow> pop_stack context;
        (b, context) \<leftarrow> pop_stack context;
        Returns (a = b, context) })"

section \<open>Arithmetic\<close>

text \<open>\<open>script_number(bool)\<close>.\<close>

definition truth :: "bool \<Rightarrow> int" where
  "truth b = (if b then 1 else 0)"

definition op_1add :: "evaluation_context \<Rightarrow> evaluation" where "op_1add = unary_number (\<lambda>n. n + 1)"
definition op_1sub :: "evaluation_context \<Rightarrow> evaluation" where "op_1sub = unary_number (\<lambda>n. n - 1)"
definition op_negate :: "evaluation_context \<Rightarrow> evaluation" where "op_negate = unary_number (\<lambda>n. - n)"
definition op_abs :: "evaluation_context \<Rightarrow> evaluation" where "op_abs = unary_number (\<lambda>n. if n < 0 then - n else n)"
definition op_not :: "evaluation_context \<Rightarrow> evaluation" where "op_not = unary_number (\<lambda>n. truth (n = 0))"
definition op_0notequal :: "evaluation_context \<Rightarrow> evaluation" where "op_0notequal = unary_number (\<lambda>n. truth (n \<noteq> 0))"
definition op_add :: "evaluation_context \<Rightarrow> evaluation" where "op_add = binary_number (\<lambda>a b. a + b)"
definition op_sub :: "evaluation_context \<Rightarrow> evaluation" where "op_sub = binary_number (\<lambda>a b. a - b)"
definition op_booland :: "evaluation_context \<Rightarrow> evaluation" where
  "op_booland = binary_number (\<lambda>a b. truth (a \<noteq> 0 \<and> b \<noteq> 0))"
definition op_boolor :: "evaluation_context \<Rightarrow> evaluation" where
  "op_boolor = binary_number (\<lambda>a b. truth (a \<noteq> 0 \<or> b \<noteq> 0))"
definition op_numequal :: "evaluation_context \<Rightarrow> evaluation" where
  "op_numequal = binary_number (\<lambda>a b. truth (a = b))"

definition op_numequalverify :: "evaluation_context \<Rightarrow> evaluation" where
  "op_numequalverify context = do {
     (numbers, context) \<leftarrow> arithmetic_start_new context;
     (case numbers of
        None \<Rightarrow> Returns (False, context)
      | Some (number_a, number_b) \<Rightarrow> Returns (number_a = number_b, context)) }"

definition op_numnotequal :: "evaluation_context \<Rightarrow> evaluation" where
  "op_numnotequal = binary_number (\<lambda>a b. truth (a \<noteq> b))"
definition op_lessthan :: "evaluation_context \<Rightarrow> evaluation" where
  "op_lessthan = binary_number (\<lambda>a b. truth (a < b))"
definition op_greaterthan :: "evaluation_context \<Rightarrow> evaluation" where
  "op_greaterthan = binary_number (\<lambda>a b. truth (a > b))"
definition op_lessthanorequal :: "evaluation_context \<Rightarrow> evaluation" where
  "op_lessthanorequal = binary_number (\<lambda>a b. truth (a \<le> b))"
definition op_greaterthanorequal :: "evaluation_context \<Rightarrow> evaluation" where
  "op_greaterthanorequal = binary_number (\<lambda>a b. truth (a \<ge> b))"
definition op_min :: "evaluation_context \<Rightarrow> evaluation" where
  "op_min = binary_number (\<lambda>a b. if a < b then a else b)"
definition op_max :: "evaluation_context \<Rightarrow> evaluation" where
  "op_max = binary_number (\<lambda>a b. if a < b then b else a)"

definition op_within :: "evaluation_context \<Rightarrow> evaluation" where
  "op_within context =
     (if length (ctx_stack context) < 3 then Returns (False, context)
      else do {
        (item, context) \<leftarrow> pop_stack context;
        upper \<leftarrow> set_data item max_script_number_size;
        (case upper of
           None \<Rightarrow> Returns (False, context)
         | Some upper \<Rightarrow> do {
             (item, context) \<leftarrow> pop_stack context;
             lower \<leftarrow> set_data item max_script_number_size;
             (case lower of
                None \<Rightarrow> Returns (False, context)
              | Some lower \<Rightarrow> do {
                  (item, context) \<leftarrow> pop_stack context;
                  value \<leftarrow> set_data item max_script_number_size;
                  (case value of
                     None \<Rightarrow> Returns (False, context)
                   | Some value \<Rightarrow> Returns (True,
                       push_stack (if lower \<le> value \<and> value < upper then stack_true_value else stack_false_value)
                         context)) }) }) })"

section \<open>Hashing\<close>

definition op_ripemd160 :: "evaluation_context \<Rightarrow> evaluation" where "op_ripemd160 = hash_top ripemd160_hash"
definition op_sha1 :: "evaluation_context \<Rightarrow> evaluation" where "op_sha1 = hash_top sha1_hash"
definition op_sha256 :: "evaluation_context \<Rightarrow> evaluation" where "op_sha256 = hash_top sha256_hash"
definition op_hash160 :: "evaluation_context \<Rightarrow> evaluation" where "op_hash160 = hash_top bitcoin_short_hash"
definition op_hash256 :: "evaluation_context \<Rightarrow> evaluation" where "op_hash256 = hash_top bitcoin_hash"

end
