(* ===== verification/Script_Engine.thy ===== *)
theory Script_Engine
  imports Evaluation
begin

unbundle bit_operations_syntax

text \<open>
  The second half of the script engine of \<open>chain/script/script.cpp\<close>: the signature hash, the
  operations that check signatures and lock times, the dispatch of an operation, the evaluation
  loop and the verification of an input script against an output script.
\<close>

section \<open>The signature hash\<close>

abbreviation (input) sighash_all :: u8 where "sighash_all \<equiv> 0x01"
abbreviation (input) sighash_none :: u8 where "sighash_none \<equiv> 0x02"
abbreviation (input) sighash_single :: u8 where "sighash_single \<equiv> 0x03"
abbreviation (input) sighash_anyone_can_pay :: u8 where "sighash_anyone_can_pay \<equiv> 0x80"

definition one_hash :: hash_digest where
  "one_hash = 1 # replicate 31 0"

definition nullify_input_sequences :: "tx_input list \<Rightarrow> nat \<Rightarrow> tx_input list" where
  "nullify_input_sequences inputs except_input =
     map (\<lambda>(index, i). if index \<noteq> except_input then i\<lparr>input_sequence := 0\<rparr> else i)
       (zip [0..<length inputs] inputs)"

text \<open>The mask is the complement of \<open>anyone_can_pay\<close>; on a byte it is \<open>0x7f\<close>.\<close>

definition is_sighash_enum :: "u8 \<Rightarrow> u8 \<Rightarrow> bool" where
  "is_sighash_enum sighash_type value \<longleftrightarrow> sighash_type AND 0x7f = value"

definition is_sighash_flag :: "u8 \<Rightarrow> u8 \<Rightarrow> bool" where
  "is_sighash_flag sighash_type value \<longleftrightarrow> sighash_type AND value \<noteq> 0"

text \<open>The last step: the flag that keeps only the signed input, and the hash.\<close>

definition hash_for_signature :: "transaction \<Rightarrow> nat \<Rightarrow> u8 \<Rightarrow> hash_digest" where
  "hash_for_signature parent input_index sighash_type =
     (let parent = (if is_sighash_flag sighash_type sighash_anyone_can_pay
                    then parent\<lparr>tx_inputs := [tx_inputs parent ! input_index]\<rparr> else parent)
      in transaction_sighash parent (ucast sighash_type))"

definition generate_signature_hash :: "transaction \<Rightarrow> nat \<Rightarrow> script \<Rightarrow> u8 \<Rightarrow> hash_digest" where
  "generate_signature_hash parent_tx input_index script_code sighash_type =
     (if input_index \<ge> length (tx_inputs parent_tx) then one_hash
      else
        (let inputs = map (\<lambda>i. i\<lparr>input_script := []\<rparr>) (tx_inputs parent_tx);
             inputs = inputs[input_index := (inputs ! input_index)\<lparr>input_script := script_code\<rparr>];
             parent = parent_tx\<lparr>tx_inputs := inputs\<rparr>
         in if is_sighash_enum sighash_type sighash_none then
              hash_for_signature
                (parent\<lparr>tx_outputs := [], tx_inputs := nullify_input_sequences inputs input_index\<rparr>)
                input_index sighash_type
            else if is_sighash_enum sighash_type sighash_single then
              (if input_index \<ge> length (tx_outputs parent) then one_hash
               else
                 (let outputs = take (input_index + 1) (tx_outputs parent);
                      outputs = map (\<lambda>out. out\<lparr>output_value := - 1, output_script := []\<rparr>) (butlast outputs)
                        @ [last outputs]
                  in hash_for_signature
                       (parent\<lparr>tx_outputs := outputs, tx_inputs := nullify_input_sequences inputs input_index\<rparr>)
                       input_index sighash_type))
            else hash_for_signature parent input_index sighash_type))"

section \<open>Signature checks\<close>

datatype signature_parse_result = Signature_valid | Signature_invalid | Signature_lax_encoding

definition check_signature ::
  "secp256k1 \<Rightarrow> ec_signature \<Rightarrow> u8 \<Rightarrow> bytes \<Rightarrow> script \<Rightarrow> transaction \<Rightarrow> nat \<Rightarrow> bool" where
  "check_signature lib signature sighash_type public_key script_code parent_tx input_index =
     (if public_key = [] then False
      else verify_signature lib public_key
        (generate_signature_hash parent_tx input_index script_code sighash_type) signature)"

definition create_endorsement ::
  "secp256k1 \<Rightarrow> bytes \<Rightarrow> script \<Rightarrow> transaction \<Rightarrow> nat \<Rightarrow> u8 \<Rightarrow> bytes option" where
  "create_endorsement lib secret prevout_script new_tx input_index sighash_type = do {
     signature \<leftarrow> sign lib secret (generate_signature_hash new_tx input_index prevout_script sighash_type);
     out \<leftarrow> encode_signature lib signature;
     Some (out @ [sighash_type]) }"

text \<open>
  \<open>distinguished\<close> is a reference to \<open>endorsement\<close>: removing its last byte removes it from both, and
  the operations of the script are compared with the endorsement without that byte.
\<close>

definition op_checksigverify ::
  "secp256k1 \<Rightarrow> script \<Rightarrow> transaction \<Rightarrow> nat \<Rightarrow> bool \<Rightarrow> evaluation_context \<Rightarrow>
     (signature_parse_result \<times> evaluation_context) outcome" where
  "op_checksigverify lib script parent_tx input_index strict context =
     (if length (ctx_stack context) < 2 then Returns (Signature_invalid, context)
      else do {
        (pubkey, context) \<leftarrow> pop_stack context;
        (endorsement, context) \<leftarrow> pop_stack context;
        (if endorsement = [] then Abnormal
         else
           (let sighash_type = last endorsement;
                distinguished = butlast endorsement;
                script_code = filter (\<lambda>op. op_data op \<noteq> distinguished \<and> op_code op \<noteq> opcode_codeseparator)
                  (drop (code_begin context) script)
            in case parse_signature lib distinguished strict of
                 None \<Rightarrow> Returns (if strict then Signature_lax_encoding else Signature_invalid, context)
               | Some signature \<Rightarrow>
                   Returns
                     (if check_signature lib signature sighash_type pubkey script_code parent_tx input_index
                      then Signature_valid else Signature_invalid, context))) })"

definition push_result ::
  "(signature_parse_result \<times> evaluation_context) outcome \<Rightarrow> evaluation" where
  "push_result m = do {
     (result, context) \<leftarrow> m;
     (case result of
        Signature_valid \<Rightarrow> Returns (True, push_stack stack_true_value context)
      | Signature_invalid \<Rightarrow> Returns (True, push_stack stack_false_value context)
      | Signature_lax_encoding \<Rightarrow> Returns (False, context)) }"

definition op_checksig ::
  "secp256k1 \<Rightarrow> script \<Rightarrow> transaction \<Rightarrow> nat \<Rightarrow> bool \<Rightarrow> evaluation_context \<Rightarrow> evaluation" where
  "op_checksig lib script parent_tx input_index strict context =
     push_result (op_checksigverify lib script parent_tx input_index strict context)"

text \<open>\<open>read_section\<close>: the popped items, the last popped one last, or nothing.\<close>

definition read_section :: "nat \<Rightarrow> evaluation_context \<Rightarrow> bytes list option \<times> evaluation_context" where
  "read_section count context =
     (if length (ctx_stack context) < count then (None, context)
      else (Some (take count (ctx_stack context)),
            context\<lparr>ctx_stack := drop count (ctx_stack context)\<rparr>))"

text \<open>
  The loop over the endorsements. The iterator over the public keys is the list of the keys from
  it on; it is advanced past a key that does not verify and stays on one that does.
\<close>

fun match_endorsements ::
  "secp256k1 \<Rightarrow> bool \<Rightarrow> script \<Rightarrow> transaction \<Rightarrow> nat \<Rightarrow> bytes list \<Rightarrow> bytes list \<Rightarrow>
     signature_parse_result outcome" where
  "match_endorsements lib strict script_code parent_tx input_index pubkeys [] = Returns Signature_valid"
| "match_endorsements lib strict script_code parent_tx input_index pubkeys (endorsement # rest) =
     (if endorsement = [] then Abnormal
      else
        (let sighash_type = last endorsement; distinguished = butlast endorsement
         in case parse_signature lib distinguished strict of
              None \<Rightarrow> Returns (if strict then Signature_lax_encoding else Signature_invalid)
            | Some signature \<Rightarrow>
                if pubkeys = [] then Abnormal
                else
                  (let pubkeys = dropWhile
                     (\<lambda>point. \<not> check_signature lib signature sighash_type point script_code parent_tx input_index)
                     pubkeys
                   in if pubkeys = [] then Returns Signature_invalid
                      else match_endorsements lib strict script_code parent_tx input_index pubkeys rest)))"

definition op_checkmultisigverify ::
  "secp256k1 \<Rightarrow> script \<Rightarrow> transaction \<Rightarrow> nat \<Rightarrow> bool \<Rightarrow> evaluation_context \<Rightarrow>
     (signature_parse_result \<times> evaluation_context) outcome" where
  "op_checkmultisigverify lib script parent_tx input_index strict context = do {
     (pubkeys_count, context) \<leftarrow> read_value context;
     (case pubkeys_count of
        None \<Rightarrow> Returns (Signature_invalid, context)
      | Some pubkeys_count \<Rightarrow>
          if pubkeys_count < 0 \<or> pubkeys_count > 20 then Returns (Signature_invalid, context)
          else
            (let context = context\<lparr>operation_counter := operation_counter context + nat pubkeys_count\<rparr> in
             if operation_counter context > op_counter_limit then Returns (Signature_invalid, context)
             else
               (case read_section (nat pubkeys_count) context of
                  (None, context) \<Rightarrow> Returns (Signature_invalid, context)
                | (Some pubkeys, context) \<Rightarrow> do {
                    (sigs_count, context) \<leftarrow> read_value context;
                    (case sigs_count of
                       None \<Rightarrow> Returns (Signature_invalid, context)
                     | Some sigs_count \<Rightarrow>
                         if sigs_count < 0 \<or> sigs_count > pubkeys_count then Returns (Signature_invalid, context)
                         else
                           (case read_section (nat sigs_count) context of
                              (None, context) \<Rightarrow> Returns (Signature_invalid, context)
                            | (Some endorsements, context) \<Rightarrow>
                                if ctx_stack context = [] then Returns (Signature_invalid, context)
                                else
                                  (let context = context\<lparr>ctx_stack := tl (ctx_stack context)\<rparr>;
                                       script_code = filter
                                         (\<lambda>op. op_code op \<noteq> opcode_codeseparator \<and> op_data op \<notin> set endorsements)
                                         (drop (code_begin context) script)
                                   in do {
                                     result \<leftarrow> match_endorsements lib strict script_code parent_tx input_index
                                       pubkeys endorsements;
                                     Returns (result, context) }))) }))) }"

definition op_checkmultisig ::
  "secp256k1 \<Rightarrow> script \<Rightarrow> transaction \<Rightarrow> nat \<Rightarrow> bool \<Rightarrow> evaluation_context \<Rightarrow> evaluation" where
  "op_checkmultisig lib script parent_tx input_index strict context =
     push_result (op_checkmultisigverify lib script parent_tx input_index strict context)"

section \<open>Lock times\<close>

definition is_locktime_type_match :: "int \<Rightarrow> int \<Rightarrow> bool" where
  "is_locktime_type_match left right =
     (let threshold = uint locktime_threshold in (left < threshold) = (right < threshold))"

definition op_checklocktimeverify :: "transaction \<Rightarrow> nat \<Rightarrow> evaluation_context \<Rightarrow> evaluation" where
  "op_checklocktimeverify parent_tx input_index context =
     (if input_index \<ge> length (tx_inputs parent_tx) then Returns (False, context)
      else if input_is_final (tx_inputs parent_tx ! input_index) then Returns (False, context)
      else if ctx_stack context = [] then Returns (False, context)
      else do {
        (item, context) \<leftarrow> pop_stack context;
        number \<leftarrow> set_data item cltv_max_script_number_size;
        (case number of
           None \<Rightarrow> Returns (False, context)
         | Some number \<Rightarrow>
             if number < 0 then Returns (False, context)
             else if number > uint (tx_locktime parent_tx) then Returns (False, context)
             else Returns (is_locktime_type_match number (uint (tx_locktime parent_tx)), context)) })"

section \<open>Dispatch\<close>

definition is_active :: "u32 \<Rightarrow> u32 \<Rightarrow> bool" where
  "is_active flags flag \<longleftrightarrow> flag AND flags \<noteq> 0"

definition run_operation ::
  "secp256k1 \<Rightarrow> operation \<Rightarrow> transaction \<Rightarrow> nat \<Rightarrow> script \<Rightarrow> u32 \<Rightarrow> evaluation_context \<Rightarrow> evaluation" where
  "run_operation lib op parent_tx input_index script flags context =
     (let code = op_code op in
      if code = opcode_zero \<or> code = opcode_special \<or> code = opcode_pushdata1 \<or> code = opcode_pushdata2
           \<or> code = opcode_pushdata4 then Returns (True, context)
      else if code = opcode_negative_1 then op_negative_1 context
      else if code = opcode_reserved then Returns (False, context)
      else if code = opcode_1 \<or> code = opcode_2 \<or> code = opcode_3 \<or> code = opcode_4
           \<or> code = opcode_5 \<or> code = opcode_6 \<or> code = opcode_7 \<or> code = opcode_8
           \<or> code = opcode_9 \<or> code = opcode_10 \<or> code = opcode_11 \<or> code = opcode_12
           \<or> code = opcode_13 \<or> code = opcode_14 \<or> code = opcode_15 \<or> code = opcode_16 then op_x code context
      else if code = opcode_nop then Returns (True, context)
      else if code = opcode_ver then Returns (False, context)
      else if code = opcode_if then op_if context
      else if code = opcode_notif then op_notif context
      else if code = opcode_verif \<or> code = opcode_vernotif then Returns (False, context)
      else if code = opcode_else then op_else context
      else if code = opcode_endif then op_endif context
      else if code = opcode_verify then op_verify context
      else if code = opcode_return then Returns (False, context)
      else if code = opcode_toaltstack then op_toaltstack context
      else if code = opcode_fromaltstack then op_fromaltstack context
      else if code = opcode_2drop then op_2drop context
      else if code = opcode_2dup then op_2dup context
      else if code = opcode_3dup then op_3dup context
      else if code = opcode_2over then op_2over context
      else if code = opcode_2rot then op_2rot context
      else if code = opcode_2swap then op_2swap context
      else if code = opcode_ifdup then op_ifdup context
      else if code = opcode_depth then op_depth context
      else if code = opcode_drop then op_drop context
      else if code = opcode_dup then op_dup context
      else if code = opcode_nip then op_nip context
      else if code = opcode_over then op_over context
      else if code = opcode_pick then op_pick context
      else if code = opcode_roll then op_roll context
      else if code = opcode_rot then op_rot context
      else if code = opcode_swap then op_swap context
      else if code = opcode_cat \<or> code = opcode_substr \<or> code = opcode_left \<or> code = opcode_right then Returns (False, context)
      else if code = opcode_tuck then op_tuck context
      else if code = opcode_size then op_size context
      else if code = opcode_invert \<or> code = opcode_and \<or> code = opcode_or \<or> code = opcode_xor then Returns (False, context)
      else if code = opcode_equal then op_equal context
      else if code = opcode_equalverify then op_equalverify context
      else if code = opcode_reserved1 \<or> code = opcode_reserved2 then Returns (False, context)
      else if code = opcode_1add then op_1add context
      else if code = opcode_1sub then op_1sub context
      else if code = opcode_2mul \<or> code = opcode_2div then Returns (False, context)
      else if code = opcode_negate then op_negate context
      else if code = opcode_abs then op_abs context
      else if code = opcode_not then op_not context
      else if code = opcode_0notequal then op_0notequal context
      else if code = opcode_add then op_add context
      else if code = opcode_sub then op_sub context
      else if code = opcode_mul \<or> code = opcode_div \<or> code = opcode_mod \<or> code = opcode_lshift
           \<or> code = opcode_rshift then Returns (False, context)
      else if code = opcode_booland then op_booland context
      else if code = opcode_boolor then op_boolor context
      else if code = opcode_numequal then op_numequal context
      else if code = opcode_numequalverify then op_numequalverify context
      else if code = opcode_numnotequal then op_numnotequal context
      else if code = opcode_lessthan then op_lessthan context
      else if code = opcode_greaterthan then op_greaterthan context
      else if code = opcode_lessthanorequal then op_lessthanorequal context
      else if code = opcode_greaterthanorequal then op_greaterthanorequal context
      else if code = opcode_min then op_min context
      else if code = opcode_max then op_max context
      else if code = opcode_within then op_within context
      else if code = opcode_ripemd160 then op_ripemd160 context
      else if code = opcode_sha1 then op_sha1 context
      else if code = opcode_sha256 then op_sha256 context
      else if code = opcode_hash160 then op_hash160 context
      else if code = opcode_hash256 then op_hash256 context
      else if code = opcode_codeseparator then Returns (True, context)
      else if code = opcode_checksig then op_checksig lib script parent_tx input_index (is_active flags bip66_enabled) context
      else if code = opcode_checksigverify then do {
        (result, context) \<leftarrow> op_checksigverify lib script parent_tx input_index (is_active flags bip66_enabled) context;
        Returns (result = Signature_valid, context) }
      else if code = opcode_checkmultisig then op_checkmultisig lib script parent_tx input_index (is_active flags bip66_enabled) context
      else if code = opcode_checkmultisigverify then do {
        (result, context) \<leftarrow> op_checkmultisigverify lib script parent_tx input_index (is_active flags bip66_enabled) context;
        Returns (result = Signature_valid, context) }
      else if code = opcode_checklocktimeverify then (if is_active (ctx_flags context) bip65_enabled
         then op_checklocktimeverify parent_tx input_index context else Returns (True, context))
      else if code = opcode_nop1 \<or> code = opcode_nop3 \<or> code = opcode_nop4 \<or> code = opcode_nop5
           \<or> code = opcode_nop6 \<or> code = opcode_nop7 \<or> code = opcode_nop8 \<or> code = opcode_nop9
           \<or> code = opcode_nop10 then Returns (True, context)
      else if code = opcode_raw_data then Returns (False, context)
      else Returns (False, context))"

definition increment_op_counter :: "opcode \<Rightarrow> evaluation_context \<Rightarrow> bool \<times> evaluation_context" where
  "increment_op_counter code context =
     (let context = (if greater_op_16 code then context\<lparr>operation_counter := operation_counter context + 1\<rparr>
                     else context)
      in (\<not> operation_counter context > op_counter_limit, context))"

definition opcode_is_disabled :: "opcode \<Rightarrow> bool" where
  "opcode_is_disabled code \<longleftrightarrow>
     code = opcode_cat \<or> code = opcode_substr \<or> code = opcode_left \<or> code = opcode_right \<or> code = opcode_invert
     \<or> code = opcode_and \<or> code = opcode_or \<or> code = opcode_xor \<or> code = opcode_2mul \<or> code = opcode_2div
     \<or> code = opcode_mul \<or> code = opcode_div \<or> code = opcode_mod \<or> code = opcode_lshift \<or> code = opcode_rshift
     \<or> code = opcode_verif \<or> code = opcode_vernotif"

definition opcode_is_empty_pusher :: "opcode \<Rightarrow> bool" where
  "opcode_is_empty_pusher code \<longleftrightarrow> code = opcode_special \<or> code = opcode_pushdata1
     \<or> code = opcode_pushdata2 \<or> code = opcode_pushdata4"

section \<open>Evaluation\<close>

text \<open>The iterator is the position of the operation in the script.\<close>

definition next_step ::
  "secp256k1 \<Rightarrow> transaction \<Rightarrow> nat \<Rightarrow> nat \<Rightarrow> operation \<Rightarrow> script \<Rightarrow> u32 \<Rightarrow> evaluation_context \<Rightarrow> evaluation" where
  "next_step lib parent_tx input_index it op script flags context =
     (if length (op_data op) > 520 then Returns (False, context)
      else
        (let (ok, context) = increment_op_counter (op_code op) context in
         if \<not> ok then Returns (False, context)
         else if opcode_is_disabled (op_code op) then Returns (False, context)
         else if \<not> conditional_succeeded context \<and> \<not> is_condition_opcode (op_code op) then Returns (True, context)
         else do {
           (ok, context) \<leftarrow>
             (if op_code op = opcode_zero then Returns (True, push_stack [] context)
              else if op_code op = opcode_codeseparator then Returns (True, context\<lparr>code_begin := it\<rparr>)
              else if opcode_is_empty_pusher (op_code op) then Returns (True, push_stack (op_data op) context)
              else run_operation lib op parent_tx input_index script flags context);
           Returns (ok \<and> length (ctx_stack context) + length (ctx_alternate context) \<le> 1000, context) }))"

primrec evaluate_loop ::
  "secp256k1 \<Rightarrow> transaction \<Rightarrow> nat \<Rightarrow> script \<Rightarrow> u32 \<Rightarrow> nat \<Rightarrow> operation list \<Rightarrow> evaluation_context \<Rightarrow> evaluation" where
  "evaluate_loop lib parent_tx input_index script flags it [] context = Returns (True, context)"
| "evaluate_loop lib parent_tx input_index script flags it (op # ops) context = do {
     (ok, context) \<leftarrow> next_step lib parent_tx input_index it op script flags context;
     (if ok then evaluate_loop lib parent_tx input_index script flags (it + 1) ops context
      else Returns (False, context)) }"

definition evaluate ::
  "secp256k1 \<Rightarrow> transaction \<Rightarrow> nat \<Rightarrow> script \<Rightarrow> u32 \<Rightarrow> evaluation_context \<Rightarrow> evaluation" where
  "evaluate lib parent_tx input_index script flags context =
     (if satoshi_content_size script > 10000 then Returns (False, context)
      else do {
        (ok, context) \<leftarrow> evaluate_loop lib parent_tx input_index script flags 0 script
          (context\<lparr>operation_counter := 0, code_begin := 0\<rparr>);
        (if ok then Returns (conditional_closed context, context) else Returns (False, context)) })"

text \<open>A default-constructed context with the flags and a starting stack.\<close>

definition fresh_context :: "u32 \<Rightarrow> bytes list \<Rightarrow> evaluation_context" where
  "fresh_context flags stack =
     \<lparr>code_begin = 0, operation_counter = 0, ctx_stack = stack, ctx_alternate = [], ctx_conditional = [],
      ctx_flags = flags\<rparr>"

definition verify_script ::
  "secp256k1 \<Rightarrow> script \<Rightarrow> script \<Rightarrow> transaction \<Rightarrow> nat \<Rightarrow> u32 \<Rightarrow> bool outcome" where
  "verify_script lib in_script out_script parent_tx input_index flags = do {
     (ok, input_context) \<leftarrow> evaluate lib parent_tx input_index in_script flags (fresh_context flags []);
     (if \<not> ok then Returns False
      else do {
        (ok, output_context) \<leftarrow> evaluate lib parent_tx input_index out_script flags
          (fresh_context flags (ctx_stack input_context));
        (if \<not> ok then Returns False
         else if ctx_stack output_context = [] \<or> \<not> cast_to_bool (hd (ctx_stack output_context)) then Returns False
         else if is_active flags bip16_enabled \<and> pattern out_script = Pay_script_hash then
           (if \<not> is_push_only in_script then Returns False
            else
              (case ctx_stack input_context of
                 [] \<Rightarrow> Abnormal
               | serialized # stack \<Rightarrow>
                   (case script_from_chunk serialized False Raw_data_fallback of
                      (ok, eval_script) \<Rightarrow>
                        if \<not> ok then Returns False
                        else do {
                          (ok, eval_context) \<leftarrow> evaluate lib parent_tx input_index eval_script flags
                            (fresh_context flags stack);
                          (if \<not> ok then Returns False
                           else if ctx_stack eval_context = [] then Returns False
                           else Returns (cast_to_bool (hd (ctx_stack eval_context)))) })))
         else Returns True) }) }"

end
