(* ===== verification/Engine_Limits.thy ===== *)
theory Engine_Limits
  imports Script_Engine
begin

unbundle bit_operations_syntax

text \<open>
  What the script engine guarantees of every script. \<open>bounded\<close> is the contract all operations
  share: started within the limits, they leave items of at most 520 bytes, keep the flags and
  add at most twenty to the operation counter. \<open>returns\<close> is the contract of the operations
  that read no signature and no lock time: they end normally on every context. Both are
  established operation by operation, then for the dispatch, a step, a run and an evaluation.
\<close>

section \<open>The limits the engine keeps\<close>

definition small_item :: "bytes \<Rightarrow> bool" where
  "small_item x \<longleftrightarrow> length x \<le> 520"

definition items_ok :: "evaluation_context \<Rightarrow> bool" where
  "items_ok c \<longleftrightarrow> list_all small_item (ctx_stack c) \<and> list_all small_item (ctx_alternate c)"

definition within_limits :: "evaluation_context \<Rightarrow> bool" where
  "within_limits c \<longleftrightarrow> items_ok c \<and> length (ctx_stack c) + length (ctx_alternate c) \<le> 1000"

text \<open>An evaluation that, started within the limits, leaves only items of allowed size.\<close>

definition bounded :: "evaluation_context \<Rightarrow> evaluation \<Rightarrow> bool" where
  "bounded c m \<longleftrightarrow> (within_limits c \<longrightarrow> (\<forall>ok c'. m = Returns (ok, c') \<longrightarrow>
     items_ok c' \<and> ctx_flags c' = ctx_flags c \<and> operation_counter c \<le> operation_counter c' \<and> operation_counter c' \<le> operation_counter c + 20))"

named_theorems bounded_intros \<open>evaluations that keep the size of the items\<close>

lemma bounded_Returns [bounded_intros]:
  "(within_limits c \<Longrightarrow> items_ok c' \<and> ctx_flags c' = ctx_flags c \<and> operation_counter c \<le> operation_counter c' \<and> operation_counter c' \<le> operation_counter c + 20) \<Longrightarrow> bounded c (Returns (ok, c'))"
  by (simp add: bounded_def)

lemma bounded_if [bounded_intros]:
  "(b \<Longrightarrow> bounded c m) \<Longrightarrow> (\<not> b \<Longrightarrow> bounded c n) \<Longrightarrow> bounded c (if b then m else n)"
  by simp

lemma items_ok_self: "within_limits c \<Longrightarrow> items_ok c"
  by (simp add: within_limits_def)

lemma length_serialize_bound:
  "\<bar>v\<bar> < 256 ^ k \<Longrightarrow> length (script_number_serialize v) \<le> Suc k"
proof -
  assume "\<bar>v\<bar> < 256 ^ k"
  then have "nat \<bar>v\<bar> < 256 ^ k" by (simp add: nat_less_iff)
  then have "length (magnitude_bytes (nat \<bar>v\<bar>)) \<le> k" by (rule length_magnitude)
  then show ?thesis
    by (cases "v = 0") (auto simp: script_number_serialize_def Let_def)
qed

lemma small_number: "\<bar>v\<bar> < 2 ^ 40 \<Longrightarrow> small_item (script_number_serialize v)"
  using length_serialize_bound [of v 5] by (simp add: small_item_def)

lemma set_data_small: "set_data d 4 = Returns (Some v) \<Longrightarrow> \<bar>v\<bar> < 2 ^ 31"
  using deserialize_bound [of d] by (auto simp: set_data_def split: if_splits)

lemma set_data_returns: "\<exists>v. set_data d 4 = Returns v"
  using deserialize_bound [of d] by (cases "length d \<le> 4") (auto simp: set_data_def)

lemma items_ok_push: "items_ok c \<Longrightarrow> small_item x \<Longrightarrow> items_ok (push_stack x c)"
  by (simp add: items_ok_def push_stack_def)

lemma push_flags [simp]:
  "ctx_flags (push_stack x c) = ctx_flags c" "operation_counter (push_stack x c) = operation_counter c"
  by (simp_all add: push_stack_def)

lemma pop_stack_items:
  "pop_stack c = Returns (x, c') \<Longrightarrow> items_ok c \<Longrightarrow> items_ok c' \<and> small_item x \<and> ctx_flags c' = ctx_flags c \<and> operation_counter c' = operation_counter c"
  by (auto simp: pop_stack_def items_ok_def split: list.splits)

lemma bounded_rearrange [bounded_intros]:
  assumes "\<And>s. n \<le> length s \<Longrightarrow> list_all small_item s \<Longrightarrow> list_all small_item (f s)"
  shows "bounded c (rearrange n f c)"
  using assms by (auto simp: bounded_def rearrange_def within_limits_def items_ok_def)

lemma bounded_unary [bounded_intros]:
  assumes "\<And>v. \<bar>v\<bar> < 2 ^ 31 \<Longrightarrow> \<bar>f v\<bar> < 2 ^ 40"
  shows "bounded c (unary_number f c)"
  using assms
  by (auto simp: bounded_def unary_number_def items_ok_self bind_eq_Some_conv
      dest!: pop_stack_items set_data_small intro!: items_ok_push small_number split: option.splits if_splits)

lemma arithmetic_start_items:
  "arithmetic_start_new c = Returns (r, c') \<Longrightarrow> items_ok c \<Longrightarrow>
     items_ok c' \<and> ctx_flags c' = ctx_flags c \<and> operation_counter c' = operation_counter c \<and> (\<forall>a b. r = Some (a, b) \<longrightarrow> \<bar>a\<bar> < 2 ^ 31 \<and> \<bar>b\<bar> < 2 ^ 31)"
  by (auto simp: arithmetic_start_new_def bind_eq_Some_conv
      dest!: pop_stack_items set_data_small split: option.splits if_splits)

lemma bounded_binary [bounded_intros]:
  assumes "\<And>a b. \<bar>a\<bar> < 2 ^ 31 \<Longrightarrow> \<bar>b\<bar> < 2 ^ 31 \<Longrightarrow> \<bar>f a b\<bar> < 2 ^ 40"
  shows "bounded c (binary_number f c)"
  using assms
  by (auto simp: bounded_def binary_number_def items_ok_self bind_eq_Some_conv
      dest!: arithmetic_start_items intro!: items_ok_push small_number split: option.splits)

lemma bounded_hash [bounded_intros]:
  assumes "\<And>x. length (f x) \<le> 520"
  shows "bounded c (hash_top f c)"
  using assms
  by (auto simp: bounded_def hash_top_def items_ok_self bind_eq_Some_conv
      dest!: pop_stack_items intro!: items_ok_push simp: small_item_def split: if_splits)

lemma nth_small: "list_all small_item s \<Longrightarrow> i < length s \<Longrightarrow> small_item (s ! i)"
  by (simp add: list_all_length)

lemma take_small: "list_all small_item s \<Longrightarrow> list_all small_item (take n s)"
  by (auto simp: list_all_iff dest: in_set_takeD)

lemma drop_small: "list_all small_item s \<Longrightarrow> list_all small_item (drop n s)"
  by (auto simp: list_all_iff dest: in_set_dropD)

lemma update_small: "list_all small_item s \<Longrightarrow> small_item x \<Longrightarrow> list_all small_item (s[i := x])"
  by (auto simp: list_all_iff dest!: set_update_subset_insert [THEN subsetD])

lemmas small_rules = nth_small take_small drop_small update_small

lemma swap_small:
  "list_all small_item s \<Longrightarrow> 0 < i \<Longrightarrow> i \<le> length s \<Longrightarrow> 0 < k \<Longrightarrow> k \<le> length s \<Longrightarrow>
     list_all small_item (stack_swap s i k)"
  by (simp add: stack_swap_def small_rules)

lemma length_stack_swap [simp]: "length (stack_swap s i k) = length s"
  by (simp add: stack_swap_def)

lemma bounded_stack_ops [bounded_intros]:
  "bounded c (op_2drop c)" "bounded c (op_2dup c)" "bounded c (op_3dup c)" "bounded c (op_2over c)"
  "bounded c (op_2rot c)" "bounded c (op_2swap c)" "bounded c (op_ifdup c)" "bounded c (op_drop c)"
  "bounded c (op_dup c)" "bounded c (op_nip c)" "bounded c (op_over c)" "bounded c (op_rot c)"
  "bounded c (op_swap c)" "bounded c (op_tuck c)"
  unfolding op_2drop_def op_2dup_def op_3dup_def op_2over_def op_2rot_def op_2swap_def op_ifdup_def
    op_drop_def op_dup_def op_nip_def op_over_def op_rot_def op_swap_def op_tuck_def copy_item_over_stack_def
  by (rule bounded_rearrange; auto intro!: small_rules swap_small simp: nth_Cons')+

lemma bounded_op_size [bounded_intros]: "bounded c (op_size c)"
  unfolding op_size_def
proof (rule bounded_rearrange)
  fix s
  assume s: "1 \<le> length s" "list_all small_item s"
  have "small_item (s ! 0)" using nth_small [OF s(2), of 0] s(1) by linarith
  then have "small_item (script_number_serialize (int (length (s ! 0))))"
    by (intro small_number) (simp add: small_item_def)
  with s show "list_all small_item (script_number_serialize (int (length (s ! 0))) # s)" by simp
qed

lemma bounded_numbers [bounded_intros]:
  "bounded c (op_1add c)" "bounded c (op_1sub c)" "bounded c (op_negate c)" "bounded c (op_abs c)"
  "bounded c (op_not c)" "bounded c (op_0notequal c)" "bounded c (op_add c)" "bounded c (op_sub c)"
  "bounded c (op_booland c)" "bounded c (op_boolor c)" "bounded c (op_numequal c)" "bounded c (op_numnotequal c)"
  "bounded c (op_lessthan c)" "bounded c (op_greaterthan c)" "bounded c (op_lessthanorequal c)"
  "bounded c (op_greaterthanorequal c)" "bounded c (op_min c)" "bounded c (op_max c)"
  unfolding op_1add_def op_1sub_def op_negate_def op_abs_def op_not_def op_0notequal_def op_add_def op_sub_def
    op_booland_def op_boolor_def op_numequal_def op_numnotequal_def op_lessthan_def op_greaterthan_def
    op_lessthanorequal_def op_greaterthanorequal_def op_min_def op_max_def truth_def
  by (rule bounded_intros; simp; linarith)+

lemma bounded_hashes [bounded_intros]:
  "bounded c (op_ripemd160 c)" "bounded c (op_sha1 c)" "bounded c (op_sha256 c)" "bounded c (op_hash160 c)"
  "bounded c (op_hash256 c)"
  unfolding op_ripemd160_def op_sha1_def op_sha256_def op_hash160_def op_hash256_def
  by (rule bounded_hash; simp)+

lemma small_flags: "small_item stack_false_value" "small_item stack_true_value"
  by (simp_all add: small_item_def)

lemma bounded_constants [bounded_intros]:
  "bounded c (op_negative_1 c)" "bounded c (op_x code c)" "bounded c (op_depth c)"
proof -
  have "int (unat code) < 256" using unat_u8_less [of code] by linarith
  moreover have "0 \<le> uint code" by simp
  ultimately have "\<bar>int (unat code) - int (unat opcode_1) + 1\<bar> < 2 ^ 40"
    unfolding abs_less_iff by (simp, linarith)
  then show "bounded c (op_negative_1 c)" "bounded c (op_x code c)" "bounded c (op_depth c)"
    unfolding op_negative_1_def op_x_def op_depth_def
    by (auto intro!: bounded_Returns items_ok_push small_number simp: within_limits_def)
qed

lemma bounded_conditionals [bounded_intros]:
  "bounded c (op_if c)" "bounded c (op_notif c)" "bounded c (op_else c)" "bounded c (op_endif c)" "bounded c (op_verify c)"
  by (auto simp: bounded_def op_notif_def op_if_def op_else_def op_endif_def op_verify_def bind_eq_Some_conv
     conditional_else_def conditional_close_def conditional_open_def items_ok_self pop_stack_def items_ok_def within_limits_def split: if_splits list.splits)

lemma bounded_alternate [bounded_intros]:
  "bounded c (op_toaltstack c)" "bounded c (op_fromaltstack c)"
  by (auto simp: bounded_def op_toaltstack_def op_fromaltstack_def within_limits_def items_ok_def pop_stack_def
      push_stack_def bind_eq_Some_conv neq_Nil_conv split: if_splits list.splits)

lemma small_truth_value: "small_item (if b then stack_true_value else stack_false_value)"
  by (simp add: small_item_def)

lemma bounded_compare [bounded_intros]:
  "bounded c (op_equal c)" "bounded c (op_equalverify c)" "bounded c (op_numequalverify c)"
  by (auto simp: bounded_def op_equal_def op_equalverify_def op_numequalverify_def items_ok_self
      bind_eq_Some_conv small_flags dest!: pop_stack_items arithmetic_start_items intro!: items_ok_push
      split: if_split_asm option.split_asm)

lemma bounded_within [bounded_intros]: "bounded c (op_within c)"
proof (cases "length (ctx_stack c) < 3")
  case True
  then show ?thesis by (simp add: op_within_def bounded_def items_ok_self)
next
  case False
  then show ?thesis
    by (auto simp: bounded_def op_within_def items_ok_self bind_eq_Some_conv dest!: pop_stack_items
        intro!: items_ok_push small_truth_value split: option.split_asm split del: if_split)
qed

lemma read_value_items: 
  "read_value c = Returns (r, c') \<Longrightarrow> items_ok c \<Longrightarrow> items_ok c' \<and> ctx_flags c' = ctx_flags c \<and> operation_counter c' = operation_counter c"
  by (auto simp: read_value_def bind_eq_Some_conv dest!: pop_stack_items split: if_splits)

lemma bounded_pick_roll [bounded_intros]: "bounded c (op_pick c)" "bounded c (op_roll c)"
proof -
  have "bounded c (pick_roll_impl is_roll c)" for is_roll
    unfolding bounded_def
  proof (intro impI allI)
    fix ok c'
    assume lim: "within_limits c" and run: "pick_roll_impl is_roll c = Returns (ok, c')"
    show "items_ok c' \<and> ctx_flags c' = ctx_flags c \<and> operation_counter c \<le> operation_counter c' \<and> operation_counter c' \<le> operation_counter c + 20"
    proof (cases "length (ctx_stack c) < 2")
      case True
      then show ?thesis using lim run by (simp add: pick_roll_impl_def items_ok_self)
    next
      case False
      then obtain v c1 where v: "read_value c = Returns (v, c1)"
        using run by (auto simp: pick_roll_impl_def bind_eq_Some_conv)
      have c1: "items_ok c1" "ctx_flags c1 = ctx_flags c \<and> operation_counter c1 = operation_counter c"
        using read_value_items [OF v] items_ok_self [OF lim] by auto
      have s: "list_all small_item (ctx_stack c1)" using c1(1) by (simp add: items_ok_def)
      show ?thesis
        using False run v c1 small_rules [OF s]
        by (auto simp: pick_roll_impl_def items_ok_def Let_def split: option.split_asm if_split_asm)
    qed
  qed
  then show "bounded c (op_pick c)" "bounded c (op_roll c)" by (simp_all add: op_pick_def op_roll_def)
qed

lemma checksig_items:
  "op_checksigverify lib s tx i strict c = Returns (r, c') \<Longrightarrow> items_ok c \<Longrightarrow>
     items_ok c' \<and> ctx_flags c' = ctx_flags c \<and> operation_counter c' = operation_counter c"
  by (auto simp: op_checksigverify_def Let_def bind_eq_Some_conv dest!: pop_stack_items
      split: if_split_asm option.split_asm)

lemma read_section_items:
  "read_section n c = (r, c') \<Longrightarrow> items_ok c \<Longrightarrow> items_ok c' \<and> ctx_flags c' = ctx_flags c \<and> operation_counter c' = operation_counter c"
  by (auto simp: read_section_def items_ok_def drop_small split: if_split_asm)

lemma items_ok_counter [simp]: "items_ok (c\<lparr>operation_counter := n\<rparr>) = items_ok c"
  by (simp add: items_ok_def)

lemma items_ok_tl: "items_ok c \<Longrightarrow> items_ok (c\<lparr>ctx_stack := tl (ctx_stack c)\<rparr>)"
  by (cases "ctx_stack c") (auto simp: items_ok_def)

text \<open>The same contract for the operations that return a parse result.\<close>

definition follows :: "evaluation_context \<Rightarrow> nat \<Rightarrow> evaluation_context \<Rightarrow> bool" where
  "follows c n c' \<longleftrightarrow> items_ok c' \<and> ctx_flags c' = ctx_flags c \<and>
     operation_counter c \<le> operation_counter c' \<and> operation_counter c' \<le> operation_counter c + n"

definition keeps :: "evaluation_context \<Rightarrow> nat \<Rightarrow> ('r \<times> evaluation_context) outcome \<Rightarrow> bool" where
  "keeps c n m \<longleftrightarrow> (\<forall>r c'. m = Returns (r, c') \<longrightarrow> follows c n c')"

lemma bounded_keeps: "(items_ok c \<Longrightarrow> keeps c 20 m) \<Longrightarrow> bounded c m"
  by (simp add: bounded_def keeps_def follows_def items_ok_self)

lemma follows_self: "items_ok c \<Longrightarrow> follows c 0 c"
  by (simp add: follows_def)

lemma follows_more: "follows c 0 c' \<Longrightarrow> follows c n c'"
  by (auto simp: follows_def)

lemma follows_count:
  "follows c 0 c' \<Longrightarrow> \<not> (k < 0 \<or> k > 20) \<Longrightarrow>
     follows c 20 (c'\<lparr>operation_counter := operation_counter c' + nat k\<rparr>)"
  by (auto simp: follows_def)

lemma follows_tl: "follows c n c' \<Longrightarrow> follows c n (c'\<lparr>ctx_stack := tl (ctx_stack c')\<rparr>)"
  by (simp add: follows_def items_ok_tl)

lemma follows_push: "follows c n c' \<Longrightarrow> small_item x \<Longrightarrow> follows c n (push_stack x c')"
  by (simp add: follows_def items_ok_push)

lemma keeps_Returns: "follows c n c' \<Longrightarrow> keeps c n (Returns (r, c'))"
  by (simp add: keeps_def)

lemma keeps_if: "(b \<Longrightarrow> keeps c n m) \<Longrightarrow> (\<not> b \<Longrightarrow> keeps c n m') \<Longrightarrow> keeps c n (if b then m else m')"
  by simp

lemma keeps_bind:
  assumes m: "keeps c n' m" and k: "\<And>x c'. follows c n' c' \<Longrightarrow> keeps c n (k (x, c'))"
  shows "keeps c n (m \<bind> k)"
proof (cases m)
  case None
  then show ?thesis by (simp add: keeps_def)
next
  case (Some p)
  obtain x c' where p: "p = (x, c')" by (cases p)
  have "follows c n' c'" using m Some p by (simp add: keeps_def)
  from k [OF this] show ?thesis by (simp add: Some p)
qed

lemma keeps_result: "follows c n c' \<Longrightarrow> keeps c n (m \<bind> (\<lambda>r. Returns (r, c')))"
  by (auto simp: keeps_def bind_eq_Some_conv)

lemma keeps_case:
  "keeps c n m \<Longrightarrow> (\<And>x. keeps c n (k x)) \<Longrightarrow> keeps c n (case v of None \<Rightarrow> m | Some x \<Rightarrow> k x)"
  by (cases v) auto

lemma keeps_section:
  assumes "follows c n c'"
    and "\<And>c'. follows c n c' \<Longrightarrow> keeps c n (m c')" "\<And>x c'. follows c n c' \<Longrightarrow> keeps c n (k x c')"
  shows "keeps c n (case read_section j c' of (None, c') \<Rightarrow> m c' | (Some x, c') \<Rightarrow> k x c')"
proof (cases "read_section j c'")
  case (Pair v c'')
  then have "follows c n c''"
    using read_section_items [OF Pair] assms(1) by (simp add: follows_def)
  then show ?thesis using Pair assms(2,3) by (cases v) simp_all
qed

lemma keeps_read_value: "follows c n c' \<Longrightarrow> keeps c n (read_value c')"
  by (auto simp: keeps_def follows_def dest: read_value_items)

lemmas keeps_rules = keeps_bind keeps_result keeps_case keeps_if keeps_section keeps_read_value keeps_Returns

lemma keeps_multisig: "items_ok c \<Longrightarrow> keeps c 20 (op_checkmultisigverify lib s tx i strict c)"
  unfolding op_checkmultisigverify_def Let_def
  by ((assumption | rule keeps_rules follows_self follows_count follows_tl
        | simp only: prod.case | erule follows_more)+)

lemma keeps_checksig: "items_ok c \<Longrightarrow> keeps c 20 (op_checksigverify lib s tx i strict c)"
  by (auto simp: keeps_def follows_def dest: checksig_items)

lemma keeps_verdict: "keeps c n m \<Longrightarrow> keeps c n (do { (result, context) \<leftarrow> m; Returns (result = v, context) })"
  by (rule keeps_bind, assumption, simp add: keeps_Returns)

lemma keeps_push_result: "keeps c n m \<Longrightarrow> keeps c n (push_result m)"
  unfolding push_result_def
  by (rule keeps_bind, assumption)
     (simp add: keeps_Returns follows_push small_flags split: signature_parse_result.split)

lemma bounded_signatures [bounded_intros]:
  "bounded c (op_checksig lib s tx i strict c)" "bounded c (op_checkmultisig lib s tx i strict c)"
  "bounded c (do { (result, context) \<leftarrow> op_checksigverify lib s tx i strict c; Returns (result = v, context) })"
  "bounded c (do { (result, context) \<leftarrow> op_checkmultisigverify lib s tx i strict c; Returns (result = v, context) })"
  unfolding op_checksig_def op_checkmultisig_def
  by (rule bounded_keeps, intro keeps_push_result keeps_verdict keeps_checksig keeps_multisig, assumption)+

lemma bounded_locktime [bounded_intros]: "bounded c (op_checklocktimeverify tx i c)"
  by (auto simp: bounded_def op_checklocktimeverify_def items_ok_self bind_eq_Some_conv
      dest!: pop_stack_items split: if_split_asm option.split_asm)

lemma bounded_same: "bounded c (Returns (ok, c))"
  by (simp add: bounded_def items_ok_self)

lemma bounded_run_operation: "bounded c (run_operation lib op tx i s flags c)"
  unfolding run_operation_def Let_def
  by ((rule bounded_if bounded_same bounded_intros)+)

section \<open>Steps and runs\<close>

text \<open>What a step that goes on has checked of its operation.\<close>

definition admitted :: "operation \<Rightarrow> bool" where
  "admitted op \<longleftrightarrow> length (op_data op) \<le> 520 \<and> \<not> opcode_is_disabled (op_code op)"

definition counted :: "script \<Rightarrow> nat" where
  "counted ops = length (filter (greater_op_16 \<circ> op_code) ops)"

lemma counted_simps [simp]:
  "counted [] = 0" "counted (op # ops) = (if greater_op_16 (op_code op) then 1 else 0) + counted ops"
  by (simp_all add: counted_def)

lemma within_limits_counter [simp]:
  "within_limits (c\<lparr>operation_counter := n\<rparr>) = within_limits c"
  "within_limits (c\<lparr>code_begin := n\<rparr>) = within_limits c"
  by (simp_all add: within_limits_def items_ok_def)

lemma increment_op_counter_ok:
  "increment_op_counter code c = (True, c1) \<Longrightarrow>
     c1 = c\<lparr>operation_counter := operation_counter c + counted [Op code []]\<rparr> \<and> operation_counter c1 \<le> 201"
  by (auto simp: increment_op_counter_def Let_def)

lemma bounded_push: "small_item x \<Longrightarrow> bounded c (Returns (ok, push_stack x c))"
  by (rule bounded_Returns) (simp add: items_ok_push items_ok_self)

lemma bounded_code_begin: "bounded c (Returns (ok, c\<lparr>code_begin := it\<rparr>))"
  by (rule bounded_Returns) (simp add: items_ok_def within_limits_def)

lemma step_limits:
  assumes step: "next_step lib tx i it op s flags c = Returns (True, c')" and c: "within_limits c"
  shows "admitted op \<and> within_limits c' \<and> ctx_flags c' = ctx_flags c \<and>
    operation_counter c + counted [op] \<le> operation_counter c' \<and> operation_counter c + counted [op] \<le> 201"
proof -
  obtain ok c1 where inc: "increment_op_counter (op_code op) c = (ok, c1)"
    by (cases "increment_op_counter (op_code op) c")
  have op: "admitted op" and ok using step inc by (auto simp: next_step_def admitted_def split: if_split_asm)
  with inc have c1: "c1 = c\<lparr>operation_counter := operation_counter c + counted [op]\<rparr>" "operation_counter c1 \<le> 201"
    using increment_op_counter_ok [of "op_code op" c c1] by (auto split: if_split_asm)
  with c have lim1: "within_limits c1" by simp
  define run where "run =
    (if op_code op = opcode_zero then Returns (True, push_stack [] c1)
     else if op_code op = opcode_codeseparator then Returns (True, c1\<lparr>code_begin := it\<rparr>)
     else if opcode_is_empty_pusher (op_code op) then Returns (True, push_stack (op_data op) c1)
     else run_operation lib op tx i s flags c1)"
  have "small_item []" "small_item (op_data op)" using op by (simp_all add: small_item_def admitted_def)
  then have "bounded c1 run"
    unfolding run_def by (intro bounded_if bounded_push bounded_code_begin bounded_run_operation)
  moreover have "c' = c1 \<or> (\<exists>ok'. run = Returns (ok', c') \<and> length (ctx_stack c') + length (ctx_alternate c') \<le> 1000)"
    using step inc op \<open>ok\<close>
    unfolding next_step_def run_def [symmetric]
    by (auto simp: admitted_def bind_eq_Some_conv run_def [symmetric] split: if_split_asm)
  ultimately show ?thesis using lim1 op c1
    by (auto simp: bounded_def within_limits_def)
qed

lemma loop_limits:
  "evaluate_loop lib tx i s flags it ops c = Returns (True, c') \<Longrightarrow> within_limits c \<Longrightarrow>
     list_all admitted ops \<and> within_limits c' \<and> ctx_flags c' = ctx_flags c \<and>
     (ops = [] \<or> operation_counter c + counted ops \<le> 201)"
proof (induction ops arbitrary: it c)
  case (Cons op ops)
  obtain c1 where step: "next_step lib tx i it op s flags c = Returns (True, c1)"
    and rest: "evaluate_loop lib tx i s flags (it + 1) ops c1 = Returns (True, c')"
    using Cons.prems(1) by (auto simp: bind_eq_Some_conv split: if_split_asm)
  note step = step_limits [OF step Cons.prems(2)]
  with Cons.IH [OF rest] show ?case by (cases "ops = []") auto
qed simp

lemma evaluate_accepts:
  assumes "evaluate lib tx i s flags c = Returns (True, c')" "within_limits c"
  shows "satoshi_content_size s \<le> 10000 \<and> list_all admitted s \<and> counted s \<le> 201 \<and>
    within_limits c' \<and> conditional_closed c'"
proof -
  have "evaluate_loop lib tx i s flags 0 s (c\<lparr>operation_counter := 0, code_begin := 0\<rparr>) = Returns (True, c')"
    "conditional_closed c'" "satoshi_content_size s \<le> 10000"
    using assms(1) by (auto simp: evaluate_def bind_eq_Some_conv split: if_split_asm)
  with loop_limits [OF this(1)] assms(2) show ?thesis by (cases s) auto
qed

section \<open>Ending normally\<close>

definition returns :: "'a outcome \<Rightarrow> bool" where
  "returns m \<longleftrightarrow> m \<noteq> Abnormal"

named_theorems returns_intros \<open>evaluations that end normally\<close>

lemma returns_Returns [returns_intros]: "returns (Returns x)"
  by (simp add: returns_def)

lemma returns_if [returns_intros]: "(b \<Longrightarrow> returns m) \<Longrightarrow> (\<not> b \<Longrightarrow> returns n) \<Longrightarrow> returns (if b then m else n)"
  by simp

lemma returns_bind: "returns m \<Longrightarrow> (\<And>x. m = Returns x \<Longrightarrow> returns (k x)) \<Longrightarrow> returns (m \<bind> k)"
  by (cases m) (simp_all add: returns_def)

lemma returns_case_option:
  "returns m \<Longrightarrow> (\<And>x. returns (k x)) \<Longrightarrow> returns (case v of None \<Rightarrow> m | Some x \<Rightarrow> k x)"
  by (cases v) auto

lemma returns_case_prod: "(\<And>a b. p = (a, b) \<Longrightarrow> returns (k a b)) \<Longrightarrow> returns (case p of (a, b) \<Rightarrow> k a b)"
  by (cases p) auto

lemma returns_set_data: "returns (set_data d 4)"
  using set_data_returns [of d] by (auto simp: returns_def)

lemma returns_pop: "ctx_stack c \<noteq> [] \<Longrightarrow> returns (pop_stack c)"
  by (cases "ctx_stack c") (simp_all add: pop_stack_def returns_def)

lemma pop_length: "pop_stack c = Returns (x, c') \<Longrightarrow> length (ctx_stack c) = Suc (length (ctx_stack c'))"
  by (auto simp: pop_stack_def split: list.split_asm)

lemma returns_numbers [returns_intros]: "returns (unary_number f c)" "returns (arithmetic_start_new c)" "returns (read_value c)" "returns (op_within c)"
  "returns (hash_top h c)" "returns (op_equal c)" "returns (op_equalverify c)" "returns (op_toaltstack c)"
  "returns (op_verify c)" "returns (op_if c)"
  unfolding unary_number_def arithmetic_start_new_def read_value_def op_within_def hash_top_def
    op_equal_def op_equalverify_def op_toaltstack_def op_verify_def op_if_def
  by ((rule returns_Returns returns_if returns_bind returns_case_option returns_case_prod returns_set_data returns_pop
      | clarsimp dest!: pop_length)+)

lemmas returns_rules =
  returns_Returns returns_if returns_bind returns_case_option returns_case_prod returns_set_data returns_pop

lemma returns_ready [returns_intros]:
  "returns (rearrange n f c)" "returns (op_negative_1 c)" "returns (op_x code c)" "returns (op_depth c)"
  "returns (op_fromaltstack c)"
  unfolding rearrange_def op_negative_1_def op_x_def op_depth_def op_fromaltstack_def
  by (intro returns_if returns_Returns)+

lemma returns_composed [returns_intros]:
  "returns (binary_number f c)" "returns (op_numequalverify c)" "returns (pick_roll_impl r c)"
  unfolding binary_number_def op_numequalverify_def pick_roll_impl_def Let_def
  by ((rule returns_rules returns_numbers | clarsimp)+)

lemma op_if_opens: "op_if c = Returns (True, c') \<Longrightarrow> ctx_conditional c' \<noteq> []"
  by (auto simp: op_if_def conditional_open_def bind_eq_Some_conv split: if_split_asm)

lemma returns_conditional:
  "ctx_conditional c \<noteq> [] \<Longrightarrow> returns (conditional_else c)"
  "ctx_conditional c \<noteq> [] \<Longrightarrow> returns (conditional_close c)"
  by (auto simp: returns_def conditional_else_def conditional_close_def neq_Nil_conv)

lemma returns_conditionals [returns_intros]: "returns (op_notif c)" "returns (op_else c)" "returns (op_endif c)"
  unfolding op_notif_def op_else_def op_endif_def conditional_closed_def
  by ((rule returns_rules returns_numbers returns_conditional | clarsimp dest!: op_if_opens)+)

lemmas op_combinators =
  op_2drop_def op_2dup_def op_3dup_def op_2over_def op_2rot_def op_2swap_def op_ifdup_def
  op_drop_def op_dup_def op_nip_def op_over_def op_rot_def op_swap_def op_tuck_def op_size_def
  op_1add_def op_1sub_def op_negate_def op_abs_def op_not_def op_0notequal_def op_add_def op_sub_def
  op_booland_def op_boolor_def op_numequal_def op_numnotequal_def op_lessthan_def op_greaterthan_def
  op_lessthanorequal_def op_greaterthanorequal_def op_min_def op_max_def op_pick_def op_roll_def
  op_ripemd160_def op_sha1_def op_sha256_def op_hash160_def op_hash256_def

text \<open>The operations that read a signature or a lock time from the stack.\<close>

definition is_checking :: "opcode \<Rightarrow> bool" where
  "is_checking code \<longleftrightarrow> code = opcode_checksig \<or> code = opcode_checksigverify \<or> code = opcode_checkmultisig
     \<or> code = opcode_checkmultisigverify \<or> code = opcode_checklocktimeverify"

lemma returns_dead [returns_intros]:
  "\<not> is_checking code \<Longrightarrow> code = opcode_checksig \<Longrightarrow> returns m"
  "\<not> is_checking code \<Longrightarrow> code = opcode_checksigverify \<Longrightarrow> returns m"
  "\<not> is_checking code \<Longrightarrow> code = opcode_checkmultisig \<Longrightarrow> returns m"
  "\<not> is_checking code \<Longrightarrow> code = opcode_checkmultisigverify \<Longrightarrow> returns m"
  "\<not> is_checking code \<Longrightarrow> code = opcode_checklocktimeverify \<Longrightarrow> returns m"
  by (simp_all add: is_checking_def)

lemma returns_run_operation:
  assumes "\<not> is_checking (op_code op)"
  shows "returns (run_operation lib op tx i s flags c)"
  unfolding run_operation_def Let_def op_combinators
  by ((rule returns_if returns_Returns returns_numbers returns_ready returns_composed returns_conditionals
     returns_dead [OF assms] | assumption)+)

lemma returns_next_step:
  "\<not> is_checking (op_code op) \<Longrightarrow> returns (next_step lib tx i it op s flags c)"
  unfolding next_step_def Let_def
  by ((rule returns_rules returns_run_operation | assumption)+)

lemma returns_evaluate_loop:
  "list_all (\<lambda>op. \<not> is_checking (op_code op)) ops \<Longrightarrow> returns (evaluate_loop lib tx i s flags it ops c)"
proof (induction ops arbitrary: it c)
  case (Cons op ops)
  then show ?case unfolding evaluate_loop.simps
    by (intro returns_bind returns_case_prod returns_if returns_Returns returns_next_step) simp_all
qed (simp add: returns_Returns)

lemma returns_evaluate:
  "list_all (\<lambda>op. \<not> is_checking (op_code op)) s \<Longrightarrow> returns (evaluate lib tx i s flags c)"
  unfolding evaluate_def
  by (intro returns_bind returns_case_prod returns_if returns_Returns returns_evaluate_loop)

section \<open>Properties\<close>

text \<open>C10: a script that evaluates to success is at most 10,000 bytes long, pushes no item of more than
  520 bytes, holds no disabled opcode and at most 201 counted ones; started within the limits, it
  leaves at most 1,000 items of at most 520 bytes on the two stacks and every conditional closed.\<close>

theorem evaluate_within_limits:
  assumes "evaluate lib tx i s flags c = Returns (True, c')"
    "length (ctx_stack c) + length (ctx_alternate c) \<le> 1000"
    "list_all (\<lambda>x. length x \<le> 520) (ctx_stack c @ ctx_alternate c)"
  shows "satoshi_content_size s \<le> 10000
    \<and> list_all (\<lambda>op. length (op_data op) \<le> 520 \<and> \<not> opcode_is_disabled (op_code op)) s
    \<and> length (filter (\<lambda>op. greater_op_16 (op_code op)) s) \<le> 201
    \<and> length (ctx_stack c') + length (ctx_alternate c') \<le> 1000
    \<and> list_all (\<lambda>x. length x \<le> 520) (ctx_stack c' @ ctx_alternate c')
    \<and> ctx_conditional c' = []"
proof -
  have small: "small_item = (\<lambda>x. length x \<le> 520)" by (simp add: small_item_def fun_eq_iff)
  have "within_limits c" using assms(2,3) by (simp add: within_limits_def items_ok_def small)
  from evaluate_accepts [OF assms(1) this] show ?thesis
    by (simp add: within_limits_def items_ok_def small admitted_def [abs_def] counted_def comp_def
        conditional_closed_def)
qed

theorem evaluate_within_limits_witness:
  "\<forall>lib tx. evaluate lib tx 0 [Op opcode_zero [], Op opcode_nop []] 0 (fresh_context 0 [])
       = Returns (True, (fresh_context 0 [[]])\<lparr>operation_counter := 1\<rparr>)
     \<and> satoshi_content_size [Op opcode_zero [], Op opcode_nop []] \<le> 10000"
proof (intro allI)
  fix lib tx
  have run: "evaluate lib tx 0 [Op opcode_zero [], Op opcode_nop []] 0 (fresh_context 0 [])
       = Returns (True, (fresh_context 0 [[]])\<lparr>operation_counter := 1\<rparr>)"
    by (simp add: evaluate_def satoshi_content_size_def operation_serialized_size_def next_step_def
        increment_op_counter_def greater_op_16_def opcode_is_disabled_def opcode_is_empty_pusher_def
        conditional_succeeded_def run_operation_def push_stack_def fresh_context_def conditional_closed_def)
  from evaluate_within_limits [OF this]
  have "satoshi_content_size [Op opcode_zero [], Op opcode_nop []] \<le> 10000" by (simp add: fresh_context_def)
  with run show "evaluate lib tx 0 [Op opcode_zero [], Op opcode_nop []] 0 (fresh_context 0 [])
       = Returns (True, (fresh_context 0 [[]])\<lparr>operation_counter := 1\<rparr>)
     \<and> satoshi_content_size [Op opcode_zero [], Op opcode_nop []] \<le> 10000" by simp
qed



end
