(* ===== verification/Engine_Templates.thy ===== *)
theory Engine_Templates
  imports Script_Engine
begin

unbundle bit_operations_syntax

text \<open>
  What the engine decides on the standard scripts: paying to a key hash, to a key hash with a lock
  height, to a script hash, and to several keys. The verdict of \<open>verify_script\<close> is given in closed
  form, so a spend is accepted exactly when the hash, the height, the redeem script and the
  signature are right; and the cases in which the engine does not do what it means to.
\<close>

section \<open>Steps of the template operations\<close>

lemma run_template_operations:
  "run_operation lib (Op opcode_dup d) tx i s flags c = op_dup c"
  "run_operation lib (Op opcode_hash160 d) tx i s flags c = op_hash160 c"
  "run_operation lib (Op opcode_equalverify d) tx i s flags c = op_equalverify c"
  "run_operation lib (Op opcode_equal d) tx i s flags c = op_equal c"
  "run_operation lib (Op opcode_numequalverify d) tx i s flags c = op_numequalverify c"
  "run_operation lib (Op opcode_checksig d) tx i s flags c =
     op_checksig lib s tx i (is_active flags bip66_enabled) c"
  by (simp_all add: run_operation_def)

lemma step_push:
  assumes "length d \<le> 520" "ctx_conditional c = []" "operation_counter c \<le> 201"
    "length (ctx_stack c) + length (ctx_alternate c) < 1000"
  shows "next_step lib tx i it (Op opcode_special d) s flags c = Returns (True, push_stack d c)"
  using assms
  by (simp add: next_step_def increment_op_counter_def opcode_is_disabled_def opcode_is_empty_pusher_def
      greater_op_16_def conditional_succeeded_def push_stack_def)

lemma step_run:
  assumes "ctx_conditional c = []" "operation_counter c \<le> 200"
    "greater_op_16 code" "\<not> opcode_is_disabled code" "\<not> opcode_is_empty_pusher code"
    "code \<noteq> opcode_codeseparator"
  shows "next_step lib tx i it (Op code []) s flags c = do {
     (ok, c') \<leftarrow> run_operation lib (Op code []) tx i s flags (c\<lparr>operation_counter := Suc (operation_counter c)\<rparr>);
     Returns (ok \<and> length (ctx_stack c') + length (ctx_alternate c') \<le> 1000, c') }"
proof -
  have "code \<noteq> opcode_zero" using assms(3) by (auto simp: greater_op_16_def)
  then show ?thesis using assms
    by (simp add: next_step_def increment_op_counter_def conditional_succeeded_def)
qed

lemma template_codes:
  "code \<in> {opcode_dup, opcode_hash160, opcode_equalverify, opcode_equal, opcode_numequalverify, opcode_checksig} \<Longrightarrow>
     greater_op_16 code \<and> \<not> opcode_is_disabled code \<and> \<not> opcode_is_empty_pusher code \<and> code \<noteq> opcode_codeseparator"
  by (auto simp: greater_op_16_def opcode_is_disabled_def opcode_is_empty_pusher_def)

lemmas step_template =
  step_run [where code = opcode_dup] step_run [where code = opcode_hash160]
  step_run [where code = opcode_equalverify] step_run [where code = opcode_equal]
  step_run [where code = opcode_numequalverify] step_run [where code = opcode_checksig]

lemmas template_steps = step_push step_template run_template_operations template_codes
  op_dup_def op_hash160_def op_equalverify_def op_equal_def hash_top_def rearrange_def pop_stack_def push_stack_def

text \<open>The verdict on the endorsement and the public key of a script without code separators.\<close>

definition endorses :: "secp256k1 \<Rightarrow> bool \<Rightarrow> script \<Rightarrow> transaction \<Rightarrow> nat \<Rightarrow> bytes \<Rightarrow> bytes \<Rightarrow> bool" where
  "endorses lib strict code tx i endorsement point =
     (case parse_signature lib (butlast endorsement) strict of
        None \<Rightarrow> False
      | Some signature \<Rightarrow> check_signature lib signature (last endorsement) point code tx i)"

lemma checksig_result:
  assumes "ctx_stack c = pk # e # stack" "e \<noteq> []" "code_begin c = 0"
    "list_all (\<lambda>op. op_data op \<noteq> butlast e \<and> op_code op \<noteq> opcode_codeseparator) s"
  shows "op_checksig lib s tx i strict c =
    (if strict \<and> parse_signature lib (butlast e) strict = None then Returns (False, c\<lparr>ctx_stack := stack\<rparr>)
     else Returns (True, c\<lparr>ctx_stack := (if endorses lib strict s tx i e pk then [1] else []) # stack\<rparr>))"
proof -
  have "filter (\<lambda>op. op_data op \<noteq> butlast e \<and> op_code op \<noteq> opcode_codeseparator) s = s"
    using assms(4) by (simp add: list_all_iff)
  with assms(1-3) show ?thesis
    by (cases strict; cases "parse_signature lib (butlast e) strict")
       (simp_all add: op_checksig_def op_checksigverify_def push_result_def pop_stack_def push_stack_def
          endorses_def)
qed

lemma key_hash_loop:
  assumes "length h = 20" "ctx_stack c = pk # e # stack" "ctx_conditional c = []" "operation_counter c \<le> 190"
    "length (ctx_stack c) + length (ctx_alternate c) \<le> 998" "code_begin c = 0" "e \<noteq> []"
    "list_all (\<lambda>op. op_data op \<noteq> butlast e \<and> op_code op \<noteq> opcode_codeseparator) s"
  shows "\<exists>ok c'. evaluate_loop lib tx i s flags it (to_pay_key_hash_pattern h) c = Returns (ok, c')
    \<and> (ok \<longrightarrow> ctx_conditional c' = [])
    \<and> (ok \<and> ctx_stack c' \<noteq> [] \<and> cast_to_bool (hd (ctx_stack c')) \<longleftrightarrow>
         bitcoin_short_hash pk = h \<and> endorses lib (is_active flags bip66_enabled) s tx i e pk)"
  using assms
  by (cases "is_active flags bip66_enabled";
      cases "parse_signature lib (butlast e) (is_active flags bip66_enabled)")
     (auto simp: to_pay_key_hash_pattern_def template_steps checksig_result endorses_def)

lemma template_patterns:
  assumes "length h = 20"
  shows "pattern (to_pay_key_hash_pattern h) = Pay_key_hash"
    "pattern (to_pay_key_hash_with_lock_height_pattern h n) = Pay_key_hash_with_lock_height"
    "pattern (to_pay_script_hash_pattern h) = Pay_script_hash"
  using assms
  by (simp_all add: pattern_def is_null_data_pattern_def is_pay_multisig_pattern_def is_pay_public_key_pattern_def
      is_pay_key_hash_pattern_def is_pay_key_hash_with_lock_height_pattern_def is_pay_script_hash_pattern_def
      to_pay_key_hash_pattern_def to_pay_key_hash_with_lock_height_pattern_def to_pay_script_hash_pattern_def
      nth_Cons')

lemma template_sizes:
  assumes "length h = 20"
  shows "satoshi_content_size (to_pay_key_hash_pattern h) = 25"
    "satoshi_content_size (to_pay_script_hash_pattern h) = 23"
  using assms
  by (simp_all add: satoshi_content_size_def operation_serialized_size_def to_pay_key_hash_pattern_def
      to_pay_script_hash_pattern_def)

lemma evaluate_pushes:
  assumes "list_all (\<lambda>d. length d \<le> 520) items" "length items \<le> 10"
  shows "evaluate lib tx i (map (Op opcode_special) items) flags (fresh_context flags []) =
    Returns (True, fresh_context flags (rev items))"
proof -
  have loop: "evaluate_loop lib tx i s flags it (map (Op opcode_special) items) (fresh_context flags stack) =
    Returns (True, fresh_context flags (rev items @ stack))" if "length stack + length items \<le> 10"
    for s it stack using assms(1) that
  proof (induction items arbitrary: it stack)
    case (Cons d items)
    have "push_stack d (fresh_context flags stack) = fresh_context flags (d # stack)"
      by (simp add: push_stack_def fresh_context_def)
    moreover have "next_step lib tx i it (Op opcode_special d) s flags (fresh_context flags stack) =
        Returns (True, push_stack d (fresh_context flags stack))"
      using Cons.prems by (intro step_push) (simp_all add: fresh_context_def)
    ultimately show ?case using Cons.IH [of "d # stack"] Cons.prems by simp
  qed simp
  have "satoshi_content_size (map (Op opcode_special) items) = (\<Sum>d\<leftarrow>items. Suc (length d))"
    by (cases items)
       (simp_all add: satoshi_content_size_def operation_serialized_size_def foldl_add_nat comp_def)
  also have "\<dots> \<le> length items * 521" using assms(1) by (induction items) auto
  finally have "satoshi_content_size (map (Op opcode_special) items) \<le> length items * 521" .
  then have "satoshi_content_size (map (Op opcode_special) items) \<le> 10000" using assms(2) by linarith
  moreover have "(fresh_context flags [])\<lparr>operation_counter := 0, code_begin := 0\<rparr> = fresh_context flags []"
    by (simp add: fresh_context_def)
  ultimately show ?thesis using loop [of "[]"] assms(2)
    by (simp add: evaluate_def conditional_closed_def) (simp add: fresh_context_def)
qed

lemma verify_pushes:
  assumes "list_all (\<lambda>d. length d \<le> 520) items" "length items \<le> 10" "pattern out \<noteq> Pay_script_hash"
    "satoshi_content_size out \<le> 10000"
    and loop: "\<exists>ok c'. evaluate_loop lib tx i out flags 0 out (fresh_context flags (rev items)) = Returns (ok, c')
      \<and> (ok \<longrightarrow> ctx_conditional c' = [])
      \<and> (ok \<and> ctx_stack c' \<noteq> [] \<and> cast_to_bool (hd (ctx_stack c')) \<longleftrightarrow> verdict)"
  shows "verify_script lib (map (Op opcode_special) items) out tx i flags = Returns verdict"
proof -
  obtain ok c' where run: "evaluate_loop lib tx i out flags 0 out (fresh_context flags (rev items)) = Returns (ok, c')"
    and c': "ok \<longrightarrow> ctx_conditional c' = []"
    and verdict: "ok \<and> ctx_stack c' \<noteq> [] \<and> cast_to_bool (hd (ctx_stack c')) \<longleftrightarrow> verdict"
    using loop by blast
  have reset: "(fresh_context flags s)\<lparr>operation_counter := 0, code_begin := 0\<rparr> = fresh_context flags s"
    "ctx_stack (fresh_context flags s) = s" for s
    by (simp_all add: fresh_context_def)
  have "evaluate lib tx i out flags (fresh_context flags (rev items)) = Returns (ok, c')"
    using assms(4) run c' by (simp add: evaluate_def reset conditional_closed_def)
  then show ?thesis
    using evaluate_pushes [OF assms(1,2), of lib tx i flags] assms(3) verdict
    by (cases ok) (auto simp: verify_script_def reset)
qed

lemma key_hash_spend:
  assumes "length h = 20" "length e \<le> 520" "length pk \<le> 520" "1 < length e" "length e \<noteq> 21"
  shows "verify_script lib [Op opcode_special e, Op opcode_special pk] (to_pay_key_hash_pattern h) tx i flags =
    Returns (bitcoin_short_hash pk = h \<and>
      endorses lib (is_active flags bip66_enabled) (to_pay_key_hash_pattern h) tx i e pk)"
proof -
  have "e \<noteq> []" using assms(4) by auto
  have "length (butlast e) \<noteq> 20" "butlast e \<noteq> []"
    using assms(4,5) by (auto simp flip: length_0_conv)
  then have "list_all (\<lambda>op. op_data op \<noteq> butlast e \<and> op_code op \<noteq> opcode_codeseparator) (to_pay_key_hash_pattern h)"
    using assms(1) by (auto simp: to_pay_key_hash_pattern_def)
  then have "verify_script lib (map (Op opcode_special) [e, pk]) (to_pay_key_hash_pattern h) tx i flags =
    Returns (bitcoin_short_hash pk = h \<and>
      endorses lib (is_active flags bip66_enabled) (to_pay_key_hash_pattern h) tx i e pk)"
    using assms \<open>e \<noteq> []\<close>
    by (intro verify_pushes key_hash_loop)
       (simp_all add: template_patterns template_sizes fresh_context_def)
  then show ?thesis by simp
qed

lemma lock_height_loop:
  assumes "length h = 20" "unat height < 2 ^ 31" "e \<noteq> []" "length n \<le> 4"
    "list_all (\<lambda>op. op_data op \<noteq> butlast e \<and> op_code op \<noteq> opcode_codeseparator) s"
  shows "\<exists>ok c'. evaluate_loop lib tx i s flags it (to_pay_key_hash_with_lock_height_pattern h height)
      (fresh_context flags [n, pk, e]) = Returns (ok, c')
    \<and> (ok \<longrightarrow> ctx_conditional c' = [])
    \<and> (ok \<and> ctx_stack c' \<noteq> [] \<and> cast_to_bool (hd (ctx_stack c')) \<longleftrightarrow>
         (set_data n max_script_number_size = Returns (Some (uint height)) \<and> bitcoin_short_hash pk = h) \<and>
         endorses lib (is_active flags bip66_enabled) s tx i e pk)"
proof -
  have small: "\<bar>uint height\<bar> < 2 ^ 31"
    using assms(2) of_nat_less_iff [of "unat height" "2 ^ 31", where ?'a = int] by simp
  obtain v where v: "set_data n max_script_number_size = Returns (Some v)"
    using deserialize_bound [OF assms(4)] assms(4) by (auto simp: set_data_def)
  have pattern: "to_pay_key_hash_with_lock_height_pattern h height =
      Op opcode_special (script_number_serialize (uint height)) # Op opcode_numequalverify [] # to_pay_key_hash_pattern h"
    by (simp add: to_pay_key_hash_with_lock_height_pattern_def to_pay_key_hash_pattern_def serialize_eq)
  have push: "length (script_number_serialize (uint height)) \<le> 520"
    using length_serialize [OF small] by simp
  define c where "c = (fresh_context flags [pk, e])\<lparr>operation_counter := 1\<rparr>"
  have "evaluate_loop lib tx i s flags it (to_pay_key_hash_with_lock_height_pattern h height)
      (fresh_context flags [n, pk, e]) =
    (if uint height = v then evaluate_loop lib tx i s flags (it + 2) (to_pay_key_hash_pattern h) c
     else Returns (False, c))"
    using v set_data_serialize [OF small] push
    by (auto simp: pattern template_steps fresh_context_def op_numequalverify_def arithmetic_start_new_def c_def)
  moreover have "\<exists>ok c'. evaluate_loop lib tx i s flags (it + 2) (to_pay_key_hash_pattern h) c = Returns (ok, c')
    \<and> (ok \<longrightarrow> ctx_conditional c' = [])
    \<and> (ok \<and> ctx_stack c' \<noteq> [] \<and> cast_to_bool (hd (ctx_stack c')) \<longleftrightarrow>
         bitcoin_short_hash pk = h \<and> endorses lib (is_active flags bip66_enabled) s tx i e pk)"
    using assms by (intro key_hash_loop) (simp_all add: c_def fresh_context_def)
  ultimately show ?thesis using v by (cases "uint height = v") auto
qed

lemma lock_height_spend:
  assumes "length h = 20" "unat height < 2 ^ 31" "length n \<le> 4"
    "length e \<le> 520" "length pk \<le> 520" "8 < length e" "length e \<noteq> 21"
  shows "verify_script lib [Op opcode_special e, Op opcode_special pk, Op opcode_special n]
      (to_pay_key_hash_with_lock_height_pattern h height) tx i flags =
    Returns ((set_data n max_script_number_size = Returns (Some (uint height)) \<and> bitcoin_short_hash pk = h) \<and>
      endorses lib (is_active flags bip66_enabled) (to_pay_key_hash_with_lock_height_pattern h height) tx i e pk)"
proof -
  have "e \<noteq> []" using assms by auto
  have small: "\<bar>uint height\<bar> < 2 ^ 31"
    using assms(2) of_nat_less_iff [of "unat height" "2 ^ 31", where ?'a = int] by simp
  have e: "length (butlast e) \<noteq> 20" "butlast e \<noteq> []" "4 < length (butlast e)"
    using assms by (auto simp flip: length_0_conv)
  then have "list_all (\<lambda>op. op_data op \<noteq> butlast e \<and> op_code op \<noteq> opcode_codeseparator)
      (to_pay_key_hash_with_lock_height_pattern h height)"
    using assms(1) length_serialize [OF small]
    by (auto simp: to_pay_key_hash_with_lock_height_pattern_def serialize_eq)
  moreover have "satoshi_content_size (to_pay_key_hash_with_lock_height_pattern h height) \<le> 10000"
    using assms(1) length_serialize [OF small]
    by (simp add: satoshi_content_size_def operation_serialized_size_def
        to_pay_key_hash_with_lock_height_pattern_def serialize_eq)
  ultimately have "verify_script lib (map (Op opcode_special) [e, pk, n])
      (to_pay_key_hash_with_lock_height_pattern h height) tx i flags =
    Returns ((set_data n max_script_number_size = Returns (Some (uint height)) \<and> bitcoin_short_hash pk = h) \<and>
      endorses lib (is_active flags bip66_enabled) (to_pay_key_hash_with_lock_height_pattern h height) tx i e pk)"
    using assms \<open>e \<noteq> []\<close> lock_height_loop
    by (intro verify_pushes) (simp_all add: template_patterns)
  then show ?thesis by simp
qed

lemma reset_fresh [simp]:
  "(fresh_context flags s)\<lparr>operation_counter := 0, code_begin := 0\<rparr> = fresh_context flags s"
  by (simp add: fresh_context_def)

lemma script_hash_evaluation:
  assumes "length h = 20"
  shows "\<exists>ok c. evaluate lib tx i (to_pay_script_hash_pattern h) flags (fresh_context flags stack) = Returns (ok, c)
    \<and> (ok \<and> ctx_stack c \<noteq> [] \<and> cast_to_bool (hd (ctx_stack c)) \<longleftrightarrow>
         stack \<noteq> [] \<and> length stack < 1000 \<and> bitcoin_short_hash (hd stack) = h)"
proof (cases stack)
  case Nil
  then show ?thesis using assms
    by (simp add: evaluate_def template_sizes to_pay_script_hash_pattern_def satoshi_content_size_def
        operation_serialized_size_def template_steps fresh_context_def exI [of _ False])
next
  case (Cons top rest)
  consider "length stack < 1000" | "length stack = 1000" | "1000 < length stack" by linarith
  then show ?thesis
  proof cases
    case 1
    then show ?thesis using assms Cons
      by (auto simp: evaluate_def to_pay_script_hash_pattern_def satoshi_content_size_def
        operation_serialized_size_def template_steps fresh_context_def conditional_closed_def)
  next
    case 2
    then show ?thesis using assms Cons
      by (simp add: evaluate_def to_pay_script_hash_pattern_def satoshi_content_size_def
        operation_serialized_size_def template_steps fresh_context_def exI [of _ False]
        next_step_def increment_op_counter_def greater_op_16_def opcode_is_disabled_def conditional_succeeded_def
        opcode_is_empty_pusher_def)
  next
    case 3
    then show ?thesis using assms Cons
      by (simp add: evaluate_def to_pay_script_hash_pattern_def satoshi_content_size_def
        operation_serialized_size_def template_steps fresh_context_def exI [of _ False])
  qed
qed

lemma script_hash_spend:
  assumes "length h = 20" "is_active flags bip16_enabled"
  shows "verify_script lib in_script (to_pay_script_hash_pattern h) tx i flags = Returns True \<longleftrightarrow>
    (\<exists>c top rest redeem c'.
       evaluate lib tx i in_script flags (fresh_context flags []) = Returns (True, c) \<and>
       is_push_only in_script \<and> ctx_stack c = top # rest \<and> length (top # rest) < 1000 \<and> bitcoin_short_hash top = h \<and>
       script_from_chunk top False Raw_data_fallback = (True, redeem) \<and>
       evaluate lib tx i redeem flags (fresh_context flags rest) = Returns (True, c') \<and>
       ctx_stack c' \<noteq> [] \<and> cast_to_bool (hd (ctx_stack c')))" (is "?v \<longleftrightarrow> ?spends")
proof (cases "evaluate lib tx i in_script flags (fresh_context flags [])")
  case None
  then show ?thesis by (simp add: verify_script_def)
next
  case (Some r)
  obtain ok c where r: "r = (ok, c)" by (cases r)
  obtain ok' c' where out: "evaluate lib tx i (to_pay_script_hash_pattern h) flags
      (fresh_context flags (ctx_stack c)) = Returns (ok', c')"
    and verdict: "ok' \<and> ctx_stack c' \<noteq> [] \<and> cast_to_bool (hd (ctx_stack c')) \<longleftrightarrow>
      ctx_stack c \<noteq> [] \<and> length (ctx_stack c) < 1000 \<and> bitcoin_short_hash (hd (ctx_stack c)) = h"
    using script_hash_evaluation [OF assms(1)] by blast
  show ?thesis
  proof (cases "ok \<and> ok' \<and> ctx_stack c' \<noteq> [] \<and> cast_to_bool (hd (ctx_stack c'))")
    case False
    then have "\<not> ?v" by (auto simp: verify_script_def Some r out split: if_split_asm)
    moreover have "\<not> ?spends" using False verdict by (auto simp: Some r)
    ultimately show ?thesis by simp
  next
    case True
    then obtain top rest where c: "ctx_stack c = top # rest" "length (top # rest) < 1000" "bitcoin_short_hash top = h"
      using verdict by (cases "ctx_stack c") auto
    obtain parsed redeem where parse: "script_from_chunk top False Raw_data_fallback = (parsed, redeem)"
      by (cases "script_from_chunk top False Raw_data_fallback")
    show ?thesis
      using True c(2,3) out
      by (auto simp: verify_script_def Some r c(1) parse assms(2) template_patterns [OF assms(1)]
          bind_eq_Some_conv split: if_split_asm)
  qed
qed

section \<open>Matching endorsements with keys\<close>

text \<open>
  The endorsements are matched in order with keys at positions that do not decrease: the loop
  finds such positions whenever there are any.
\<close>

fun matching :: "(bytes \<Rightarrow> bytes \<Rightarrow> bool) \<Rightarrow> bytes list \<Rightarrow> bytes list \<Rightarrow> bool" where
  "matching fits keys [] = True"
| "matching fits keys (e # es) = (\<exists>j < length keys. fits e (keys ! j) \<and> matching fits (drop j keys) es)"

lemma matching_drop: "matching fits (drop j keys) es \<Longrightarrow> matching fits keys es"
proof (cases es)
  case (Cons e es')
  assume "matching fits (drop j keys) es"
  then obtain k where "k < length keys - j" "fits e (keys ! (j + k))" "matching fits (drop (j + k) keys) es'"
    by (auto simp: Cons add.commute)
  then show ?thesis by (auto simp: Cons intro!: exI [of _ "j + k"])
qed simp

lemma matching_first:
  "matching fits keys (e # es) \<longleftrightarrow>
     dropWhile (\<lambda>k. \<not> fits e k) keys \<noteq> [] \<and> matching fits (dropWhile (\<lambda>k. \<not> fits e k) keys) es"
proof (induction keys)
  case (Cons k keys)
  show ?case
  proof (cases "fits e k")
    case True
    have "matching fits (k # keys) es" if "matching fits (drop j (k # keys)) es" for j
      using that by (rule matching_drop)
    with True show ?thesis by (auto intro: exI [of _ 0])
  next
    case False
    then have "matching fits (k # keys) (e # es) \<longleftrightarrow> matching fits keys (e # es)"
      by (auto simp: Ex_less_Suc2)
    with False Cons show ?thesis by simp
  qed
qed simp

lemma match_endorsements_iff:
  assumes "[] \<notin> set es"
  shows "match_endorsements lib strict code tx i keys es = Returns Signature_valid \<longleftrightarrow>
    matching (endorses lib strict code tx i) keys es"
  using assms
proof (induction es arbitrary: keys)
  case (Cons e es)
  show ?case
  proof (cases "parse_signature lib (butlast e) strict")
    case None
    then have "\<not> endorses lib strict code tx i e k" for k by (simp add: endorses_def)
    with None Cons.prems show ?thesis by (auto split: if_split_asm)
  next
    case (Some sig)
    then have "endorses lib strict code tx i e = (\<lambda>k. check_signature lib sig (last e) k code tx i)"
      by (simp add: endorses_def fun_eq_iff)
    with Some Cons show ?thesis
      unfolding matching_first by (cases "keys = []") (auto simp: Let_def)
  qed
qed simp

lemma matching_positions:
  "matching fits keys es \<longleftrightarrow>
     (\<exists>ps. sorted ps \<and> list_all2 (\<lambda>e p. p < length keys \<and> fits e (keys ! p)) es ps)"
proof (induction es arbitrary: keys)
  case (Cons e es)
  show ?case
  proof
    assume "matching fits keys (e # es)"
    then obtain j ps where j: "j < length keys" "fits e (keys ! j)"
      and ps: "sorted ps" "list_all2 (\<lambda>e p. p < length (drop j keys) \<and> fits e (drop j keys ! p)) es ps"
      using Cons.IH [of "drop _ keys"] by auto
    have "list_all2 (\<lambda>e p. p < length keys \<and> fits e (keys ! p)) es (map ((+) j) ps)"
      using ps(2) unfolding list.rel_map by (rule list_all2_mono) (auto simp: less_diff_conv add.commute)
    moreover have "sorted (j # map ((+) j) ps)" using ps(1) by (simp add: sorted_map)
    ultimately show "\<exists>ps. sorted ps \<and> list_all2 (\<lambda>e p. p < length keys \<and> fits e (keys ! p)) (e # es) ps"
      using j by (intro exI [of _ "j # map ((+) j) ps"]) simp
  next
    assume "\<exists>ps. sorted ps \<and> list_all2 (\<lambda>e p. p < length keys \<and> fits e (keys ! p)) (e # es) ps"
    then obtain j ps where j: "j < length keys" "fits e (keys ! j)" and ps: "sorted (j # ps)"
      "list_all2 (\<lambda>e p. p < length keys \<and> fits e (keys ! p)) es ps"
      by (auto simp: list_all2_Cons1)
    have le: "\<And>k. k < length ps \<Longrightarrow> j \<le> ps ! k" "sorted ps" using ps(1) by auto
    have "list_all2 (\<lambda>e p. p < length (drop j keys) \<and> fits e (drop j keys ! p)) es (map (\<lambda>p. p - j) ps)"
      unfolding list.rel_map using ps(2) le(1) j(1)
      by (auto simp: list_all2_conv_all_nth less_diff_conv)
    moreover have "sorted (map (\<lambda>p. p - j) ps)" using le by (auto simp: sorted_iff_nth_mono intro: diff_le_mono)
    ultimately show "matching fits keys (e # es)" using j Cons.IH [of "drop j keys"] by auto
  qed
qed auto

lemma read_count:
  assumes "ctx_stack c = script_number_serialize (int n) # rest" "n \<le> 20"
  shows "read_value c = Returns (Some (int n), c\<lparr>ctx_stack := rest\<rparr>)"
proof -
  have "set_data (script_number_serialize (int n)) max_script_number_size = Returns (Some (int n))"
    using assms(2) by (intro set_data_serialize) simp
  then show ?thesis using assms
    by (simp add: read_value_def pop_stack_def script_number_int32_def min_int32_def max_int32_def)
qed

lemma multisig_on_stack:
  assumes "ctx_stack c = script_number_serialize (int (length keys)) # keys
      @ script_number_serialize (int (length es)) # es @ dummy # rest"
    "length es \<le> length keys" "length keys \<le> 20" "operation_counter c + length keys \<le> 201"
    "code_begin c = 0" 
    "list_all (\<lambda>op. op_code op \<noteq> opcode_codeseparator \<and> op_data op \<notin> set es) s"
  shows "op_checkmultisigverify lib s tx i strict c =
    map_option (\<lambda>r. (r, c\<lparr>operation_counter := operation_counter c + length keys, ctx_stack := rest\<rparr>))
      (match_endorsements lib strict s tx i keys es)"
proof -
  have code: "filter (\<lambda>op. op_code op \<noteq> opcode_codeseparator \<and> op_data op \<notin> set es) s = s"
    using assms(6) by (simp add: list_all_iff)
  show ?thesis
    using assms(1-5) code
    by (simp add: op_checkmultisigverify_def read_count [OF assms(1)] read_section_def read_count
        split: option.split) (cases "match_endorsements lib strict s tx i keys es"; simp)
qed


lemma sighash_without_scripts:
  assumes "map (\<lambda>i. i\<lparr>input_script := []\<rparr>) inputs = map (\<lambda>i. i\<lparr>input_script := []\<rparr>) (tx_inputs tx)"
  shows "generate_signature_hash (tx\<lparr>tx_inputs := inputs\<rparr>) i code type = generate_signature_hash tx i code type"
proof -
  have "length inputs = length (tx_inputs tx)" using assms map_eq_imp_length_eq by blast
  then show ?thesis using assms by (simp add: generate_signature_hash_def Let_def)
qed

lemma matching_repeated: "k \<in> set keys \<Longrightarrow> fits e k \<Longrightarrow> matching fits keys (replicate m e)"
proof (induction m arbitrary: keys)
  case (Suc m)
  obtain j where j: "j < length keys" "keys ! j = k" using Suc.prems(1) by (auto simp: in_set_conv_nth)
  then have "k \<in> set (drop j keys)" by (metis Cons_nth_drop_Suc list.set_intros(1))
  with Suc j show ?case by auto
qed simp

lemma length_signature_hash [simp]: "length (generate_signature_hash tx i code type) = 32"
  by (simp add: generate_signature_hash_def hash_for_signature_def transaction_sighash_def one_hash_def Let_def)

section \<open>Properties\<close>

text \<open>A library whose signatures are the key and the hash: it makes the hypotheses concrete.\<close>

definition sample_library :: secp256k1 where
  "sample_library =
     \<lparr>ecdsa_signature_parse_der = (\<lambda>d. if d = [] then None else Some (tl d)),
      ecdsa_signature_parse_compact = (\<lambda>d. Some d),
      ecdsa_signature_normalize = (\<lambda>signature. signature),
      ec_pubkey_parse = (\<lambda>point. Some point),
      ecdsa_verify = (\<lambda>signature hash pubkey. signature = pubkey @ hash),
      ecdsa_sign = (\<lambda>secret hash. Some (secret @ hash)),
      ecdsa_signature_serialize_der = (\<lambda>signature.
        if 20 \<le> length signature \<and> length signature < 72 then Some (0x30 # signature) else None)\<rparr>"

text \<open>C1: spending a pay-to-key-hash output with a signature script that pushes an endorsement and a
  public key is accepted exactly when the key hashes to the paid hash and the endorsement verifies
  for it on the hash of the transaction with the paid script; it never ends abnormally.\<close>

theorem pay_key_hash_spend:
  assumes "length h = 20" "length e \<le> 520" "length pk \<le> 520" "1 < length e" "length e \<noteq> 21"
  shows "verify_script lib [Op opcode_special e, Op opcode_special pk] (to_pay_key_hash_pattern h) tx i flags =
    Returns (bitcoin_short_hash pk = h \<and>
      (case parse_signature lib (butlast e) (is_active flags bip66_enabled) of
         None \<Rightarrow> False
       | Some signature \<Rightarrow> check_signature lib signature (last e) pk (to_pay_key_hash_pattern h) tx i))"
  using key_hash_spend [OF assms, of lib tx i flags] by (simp add: endorses_def)

theorem pay_key_hash_spend_witness:
  "\<forall>tx. verify_script (sample_library\<lparr>ecdsa_verify := \<lambda>_ _ _. True\<rparr>)
       [Op opcode_special [0x30, 7, 1], Op opcode_special [2, 3]]
       (to_pay_key_hash_pattern (bitcoin_short_hash [2, 3])) tx 0 bip66_enabled = Returns True"
  by (intro allI, subst pay_key_hash_spend)
     (simp_all add: sample_library_def parse_signature_def is_active_def check_signature_def verify_signature_def)



text \<open>C17: with the script-hash rule active, a pay-to-script-hash output is spent exactly when the
  signature script only pushes and succeeds, the top item it leaves hashes to the paid hash and
  parses as a script, and that script succeeds on the rest of the stack with a true top item.\<close>

theorem pay_script_hash_spend:
  assumes "length h = 20" "is_active flags bip16_enabled"
  shows "verify_script lib in_script (to_pay_script_hash_pattern h) tx i flags = Returns True \<longleftrightarrow>
    (\<exists>c top rest redeem c'.
       evaluate lib tx i in_script flags (fresh_context flags []) = Returns (True, c) \<and>
       is_push_only in_script \<and> ctx_stack c = top # rest \<and> length (top # rest) < 1000 \<and> bitcoin_short_hash top = h \<and>
       script_from_chunk top False Raw_data_fallback = (True, redeem) \<and>
       evaluate lib tx i redeem flags (fresh_context flags rest) = Returns (True, c') \<and>
       ctx_stack c' \<noteq> [] \<and> cast_to_bool (hd (ctx_stack c')))"
  using script_hash_spend [OF assms] .

theorem pay_script_hash_spend_witness:
  "\<forall>lib tx. verify_script lib [Op opcode_special [0x51]] (to_pay_script_hash_pattern (bitcoin_short_hash [0x51]))
     tx 0 bip16_enabled = Returns True"
proof (intro allI)
  fix lib tx
  have "evaluate lib tx 0 [Op opcode_special [0x51]] bip16_enabled (fresh_context bip16_enabled []) =
      Returns (True, fresh_context bip16_enabled [[0x51]])"
    using evaluate_pushes [of "[[0x51]]" lib tx 0 bip16_enabled] by simp
  moreover have "script_from_chunk [0x51] False Raw_data_fallback = (True, [Op opcode_1 []])"
    by code_simp
  moreover have "evaluate lib tx 0 [Op opcode_1 []] bip16_enabled (fresh_context bip16_enabled []) =
      Returns (True, fresh_context bip16_enabled [script_number_serialize 1])"
    by (simp add: evaluate_def satoshi_content_size_def operation_serialized_size_def next_step_def
        increment_op_counter_def greater_op_16_def opcode_is_disabled_def opcode_is_empty_pusher_def
        conditional_succeeded_def run_operation_def push_stack_def fresh_context_def conditional_closed_def
        op_x_def)
  moreover have "cast_to_bool (script_number_serialize 1)" by code_simp
  ultimately show "verify_script lib [Op opcode_special [0x51]]
      (to_pay_script_hash_pattern (bitcoin_short_hash [0x51])) tx 0 bip16_enabled = Returns True"
    by (subst pay_script_hash_spend)
       (simp_all add: is_active_def is_push_only_def count_non_push_def is_push_def fresh_context_def)
qed

text \<open>C20: \<open>OP_CHECKMULTISIG\<close> on a stack with the counts, the keys and non-empty endorsements is valid
  exactly when the endorsements, in order, verify for keys at positions that never decrease: the
  greedy loop of the code finds such positions whenever there are any.\<close>

theorem checkmultisig_matches_in_order:
  assumes "ctx_stack c = script_number_serialize (int (length keys)) # keys
      @ script_number_serialize (int (length es)) # es @ dummy # rest"
    "length es \<le> length keys" "length keys \<le> 20" "operation_counter c + length keys \<le> 201" "code_begin c = 0"
    "list_all (\<lambda>op. op_code op \<noteq> opcode_codeseparator \<and> op_data op \<notin> set es) s" "[] \<notin> set es"
  shows "(\<exists>c'. op_checkmultisigverify lib s tx i strict c = Returns (Signature_valid, c')) \<longleftrightarrow>
    (\<exists>ps. sorted ps \<and> list_all2 (\<lambda>e p. p < length keys \<and>
       (case parse_signature lib (butlast e) strict of
          None \<Rightarrow> False
        | Some signature \<Rightarrow> check_signature lib signature (last e) (keys ! p) s tx i)) es ps)"
  unfolding multisig_on_stack [OF assms(1-6)]
  using match_endorsements_iff [OF assms(7), of lib strict s tx i keys]
    matching_positions [of "endorses lib strict s tx i" keys es]
  by (auto simp: endorses_def)

text \<open>C35: one endorsement of one key satisfies every threshold: repeated as often as the count asks
  for, it makes \<open>OP_CHECKMULTISIG\<close> valid, because the iterator over the keys is not advanced past
  a key that verified.\<close>

theorem checkmultisig_repeated_endorsement:
  assumes "ctx_stack c = script_number_serialize (int (length keys)) # keys
      @ script_number_serialize (int m) # replicate m e @ dummy # rest"
    "m \<le> length keys" "length keys \<le> 20" "operation_counter c + length keys \<le> 201" "code_begin c = 0"
    "list_all (\<lambda>op. op_code op \<noteq> opcode_codeseparator \<and> op_data op \<noteq> e) s" "e \<noteq> []"
    "k \<in> set keys" "parse_signature lib (butlast e) strict = Some signature"
    "check_signature lib signature (last e) k s tx i"
  shows "op_checkmultisigverify lib s tx i strict c =
    Returns (Signature_valid, c\<lparr>operation_counter := operation_counter c + length keys, ctx_stack := rest\<rparr>)"
proof -
  have "list_all (\<lambda>op. op_code op \<noteq> opcode_codeseparator \<and> op_data op \<notin> set (replicate m e)) s"
    using assms(6) by (auto simp: list_all_iff)
  then have "op_checkmultisigverify lib s tx i strict c =
    map_option (\<lambda>r. (r, c\<lparr>operation_counter := operation_counter c + length keys, ctx_stack := rest\<rparr>))
      (match_endorsements lib strict s tx i keys (replicate m e))"
    using assms(1-5) by (intro multisig_on_stack) simp_all
  moreover have "matching (endorses lib strict s tx i) keys (replicate m e)"
    using assms(8-10) by (intro matching_repeated [of k]) (simp_all add: endorses_def)
  ultimately show ?thesis using match_endorsements_iff [of "replicate m e" lib strict s tx i keys] assms(7)
    by (simp add: in_set_replicate)
qed

theorem checkmultisig_repeated_endorsement_witness:
  "\<forall>tx. op_checkmultisigverify (sample_library\<lparr>ecdsa_verify := \<lambda>signature hash pubkey. pubkey = [2]\<rparr>)
       [Op opcode_checkmultisig []] tx 0 True
       (fresh_context 0 [[2], [2], [3], [2], [0x30, 7, 1], [0x30, 7, 1], []])
     = Returns (Signature_valid, (fresh_context 0 [])\<lparr>operation_counter := 2\<rparr>)"
proof
  fix tx
  have "script_number_serialize 2 = [2]" by code_simp
  moreover have "replicate 2 b = [b, b]" for b :: bytes by (simp add: numeral_2_eq_2)
  ultimately show "op_checkmultisigverify (sample_library\<lparr>ecdsa_verify := \<lambda>signature hash pubkey. pubkey = [2]\<rparr>)
       [Op opcode_checkmultisig []] tx 0 True
       (fresh_context 0 [[2], [2], [3], [2], [0x30, 7, 1], [0x30, 7, 1], []])
     = Returns (Signature_valid, (fresh_context 0 [])\<lparr>operation_counter := 2\<rparr>)"
    by (subst checkmultisig_repeated_endorsement [where keys = "[[2], [3]]" and m = 2 and e = "[0x30, 7, 1]"
          and dummy = "[]" and rest = "[]" and k = "[2]" and signature = "[7]"])
       (simp_all add: fresh_context_def sample_library_def parse_signature_def check_signature_def
          verify_signature_def)
qed

theorem checkmultisig_matches_in_order_witness:
  "\<forall>tx. \<not> (\<exists>c'. op_checkmultisigverify (sample_library\<lparr>ecdsa_verify := \<lambda>signature hash pubkey. signature = pubkey\<rparr>)
       [Op opcode_checkmultisig []] tx 0 True
       (fresh_context 0 [[2], [2], [3], [2], [0x30, 3, 1], [0x30, 2, 1], []])
     = Returns (Signature_valid, c'))"
proof
  fix tx
  define lib where "lib = sample_library\<lparr>ecdsa_verify := \<lambda>signature hash pubkey. signature = pubkey\<rparr>"
  have num: "script_number_serialize 2 = [2]" by code_simp
  have "\<not> (\<exists>c'. op_checkmultisigverify lib [Op opcode_checkmultisig []] tx 0 True
       (fresh_context 0 [[2], [2], [3], [2], [0x30, 3, 1], [0x30, 2, 1], []]) = Returns (Signature_valid, c'))"
    by (subst checkmultisig_matches_in_order [where keys = "[[2], [3]]" and es = "[[0x30, 3, 1], [0x30, 2, 1]]"
          and dummy = "[]" and rest = "[]"])
       (auto simp: num fresh_context_def sample_library_def parse_signature_def check_signature_def
          verify_signature_def lib_def list_all2_Cons1 less_Suc_eq)
  then show "\<not> (\<exists>c'. op_checkmultisigverify (sample_library\<lparr>ecdsa_verify := \<lambda>signature hash pubkey. signature = pubkey\<rparr>)
       [Op opcode_checkmultisig []] tx 0 True
       (fresh_context 0 [[2], [2], [3], [2], [0x30, 3, 1], [0x30, 2, 1], []])
     = Returns (Signature_valid, c'))" by (simp add: lib_def)
qed

text \<open>C36: a signature check whose endorsement is the empty item, which a script can push, ends in
  undefined behaviour: the code reads and removes the last byte of an empty vector.\<close>

theorem checksig_empty_endorsement:
  assumes "length pk \<le> 520"
  shows "verify_script lib [Op opcode_special [], Op opcode_special pk] [Op opcode_checksig []] tx i flags = Abnormal"
proof -
  have "evaluate lib tx i [Op opcode_special [], Op opcode_special pk] flags (fresh_context flags []) =
      Returns (True, fresh_context flags [pk, []])"
    using evaluate_pushes [of "[[], pk]" lib tx i flags] assms by simp
  moreover have "evaluate lib tx i [Op opcode_checksig []] flags (fresh_context flags [pk, []]) = Abnormal"
    by (simp add: evaluate_def satoshi_content_size_def operation_serialized_size_def step_template template_codes
        run_template_operations op_checksig_def push_result_def op_checksigverify_def pop_stack_def fresh_context_def)
  ultimately show ?thesis by (simp add: verify_script_def fresh_context_def)
qed

theorem checksig_empty_endorsement_witness:
  "\<forall>lib tx. verify_script lib [Op opcode_special [], Op opcode_special [2, 3]] [Op opcode_checksig []] tx 0 0 = Abnormal"
  by (intro allI checksig_empty_endorsement) simp



end
