(* ===== verification/Chain_Wire.thy ===== *)
theory Chain_Wire
  imports Chain
begin

unbundle bit_operations_syntax

text \<open>
  The wire format of the chain objects: each of them is a \<open>wire_object\<close>, its reported size is
  compared with the length of its encoding, and the Merkle root is shown to bind the list of
  transaction hashes.
\<close>

section \<open>The wire format of points, inputs and outputs\<close>

definition wf_point :: "point \<Rightarrow> bool" where
  "wf_point p \<longleftrightarrow> length (point_hash p) = 32"

definition wf_input :: "tx_input \<Rightarrow> bool" where
  "wf_input i \<longleftrightarrow> wf_point (input_previous_output i) \<and>
     (if point_is_null (input_previous_output i) then wf_raw_script (input_script i)
      else wf_script (input_script i))"

definition wf_output :: "tx_output \<Rightarrow> bool" where
  "wf_output out \<longleftrightarrow> wf_script (output_script out) \<and> wf_attachment (output_attach_data out)"

lemma point_read_back [codec_simps]:
  "wf_point p \<Longrightarrow> run_state point_from_data (ready (point_to_data p @ rest) j) = ((True, p), ready rest j)"
  by (simp add: wf_point_def point_from_data_def point_to_data_def codec_simps)

lemma local_point_from_data [local_intros]: "local_read point_from_data"
  unfolding point_from_data_def by (intro local_intros)

lemma point_good: "run_state point_from_data r0 = ((True, p), r) \<Longrightarrow> source_good r"
  by (auto simp: point_from_data_def split: prod.splits if_splits)

interpretation point_wire: wire_object wf_point point_to_data point_from_data
  by unfold_locales (auto intro: point_read_back point_good local_intros)

lemma input_read_back [codec_simps]:
  assumes "wf_input i"
  shows "run_state input_from_data (ready (input_to_data i @ rest) j) = ((True, i), ready rest j)"
proof -
  let ?mode = "if point_is_null (input_previous_output i) then Raw_data else Raw_data_fallback"
  have "run_state (script_from_data True ?mode) (ready (script_to_data True (input_script i) @ rest') j)
      = ((True, input_script i), ready rest' j)" for rest'
    using assms script_wire.get_put raw_script_wire.get_put by (auto simp: wf_input_def)
  with assms show ?thesis
    by (simp add: input_from_data_def input_to_data_def codec_simps wf_input_def)
qed

lemma local_input_from_data [local_intros]: "local_read input_from_data"
  unfolding input_from_data_def by (intro local_intros)

lemma input_good: "run_state input_from_data r0 = ((True, i), r) \<Longrightarrow> source_good r"
  by (auto simp: input_from_data_def split: prod.splits if_splits)

interpretation input_wire: wire_object wf_input input_to_data input_from_data
  by unfold_locales (auto intro: input_read_back input_good local_intros)

lemma output_read_back [codec_simps]:
  "wf_output out \<Longrightarrow>
     run_state output_from_data (ready (output_to_data out @ rest) j) = ((True, out), ready rest j)"
  by (simp add: output_from_data_def output_to_data_def wf_output_def codec_simps
      script_wire.get_put attachment_wire.get_put)

lemma local_output_from_data [local_intros]: "local_read output_from_data"
  unfolding output_from_data_def by (intro local_intros)

lemma output_good: "run_state output_from_data r0 = ((True, out), r) \<Longrightarrow> source_good r"
  by (auto simp: output_from_data_def dest: attachment_good split: prod.splits if_splits)

interpretation output_wire: wire_object wf_output output_to_data output_from_data
  by unfold_locales (auto intro: output_read_back output_good local_intros)

section \<open>The wire format of transactions\<close>

definition wf_transaction :: "transaction \<Rightarrow> bool" where
  "wf_transaction tx \<longleftrightarrow>
     list_all wf_input (tx_inputs tx) \<and> length (tx_inputs tx) < 2 ^ 64
     \<and> list_all wf_output (tx_outputs tx) \<and> length (tx_outputs tx) < 2 ^ 64"

lemma transaction_read_back [codec_simps]:
  "wf_transaction tx \<Longrightarrow>
     run_state transaction_from_data (ready (transaction_to_data tx @ rest) j) = ((True, tx), ready rest j)"
  by (simp add: transaction_from_data_def transaction_to_data_def wf_transaction_def codec_simps
      input_wire.get_counted_put output_wire.get_counted_put)

lemma local_transaction_from_data [local_intros]: "local_read transaction_from_data"
  unfolding transaction_from_data_def by (intro local_intros)

lemma transaction_good: "run_state transaction_from_data r0 = ((True, tx), r) \<Longrightarrow> source_good r"
  by (auto simp: transaction_from_data_def split: prod.splits if_splits)

interpretation transaction_wire: wire_object wf_transaction transaction_to_data transaction_from_data
  by unfold_locales (auto intro: transaction_read_back transaction_good local_intros)

section \<open>The wire format of headers and blocks\<close>

definition wf_header :: "header \<Rightarrow> bool" where
  "wf_header h \<longleftrightarrow> length (hdr_previous_block_hash h) = 32 \<and> length (hdr_merkle h) = 32"

definition wf_block :: "block \<Rightarrow> bool" where
  "wf_block b \<longleftrightarrow> wf_header (block_header b) \<and> list_all wf_transaction (block_transactions b)
     \<and> unat (hdr_transaction_count (block_header b)) = length (block_transactions b)"

lemma big_endian_fold:
  "foldl (\<lambda>ret i. push_bit 8 ret OR ucast i) a (rev (peel_bytes k n)) = push_bit (8 * k) a OR take_bit (8 * k) n"
proof (induction k arbitrary: n)
  case (Suc k)
  have "push_bit 8 (push_bit (8 * k) a OR take_bit (8 * k) (drop_bit 8 n)) OR ucast (ucast n :: u8)
      = push_bit (8 * Suc k) a OR take_bit (8 * Suc k) n"
    by (rule bit_word_eqI) (auto simp: bit_simps)
  with Suc show ?case by simp
qed simp

lemma from_big_endian_bytes_back [simp]:
  "8 dvd LENGTH('a::len) \<Longrightarrow> from_big_endian_bytes (to_big_endian (w :: 'a word)) = w"
  by (simp add: from_big_endian_bytes_def to_big_endian_def big_endian_fold sizeof_def)

lemma sizeof_256 [simp]: "sizeof TYPE(256 word) = 32"
  by (simp add: sizeof_def)

lemma length_to_big_endian [size_simps]: "length (to_big_endian (w :: 'a::len word)) = sizeof TYPE('a word)"
  by (simp add: to_big_endian_def)

lemma header_read_back [codec_simps]:
  "wf_header h \<Longrightarrow> run_state (header_from_data True) (ready (header_to_data True h @ rest) j) = ((True, h), ready rest j)"
  by (simp add: header_from_data_def header_to_data_def wf_header_def codec_simps size_simps)

lemma local_header_from_data [local_intros]: "local_read (header_from_data c)"
  unfolding header_from_data_def Let_def by (intro local_intros)

lemma header_good: "run_state (header_from_data c) r0 = ((True, h), r) \<Longrightarrow> source_good r"
  by (auto simp: header_from_data_def Let_def split: prod.splits if_splits)

interpretation header_wire: wire_object wf_header "header_to_data True" "header_from_data True"
  by unfold_locales (auto intro: header_read_back header_good local_intros)

lemma block_read_back:
  "wf_block b \<Longrightarrow> run_state (block_from_data True) (ready (block_to_data True b @ rest) j) = ((True, b), ready rest j)"
  by (simp add: block_from_data_def block_to_data_def wf_block_def codec_simps transaction_wire.get_each_put)

lemma local_block_from_data [local_intros]: "local_read (block_from_data c)"
  unfolding block_from_data_def by (intro local_intros)

lemma block_good:
  assumes "run_state (block_from_data c) r0 = ((True, b), r)"
  shows "source_good r"
proof -
  obtain ok h r1 where 1: "run_state (header_from_data c) r0 = ((ok, h), r1)" by (metis prod.collapse)
  with assms have ok: "ok" by (auto simp: block_from_data_def split: if_splits)
  then have g: "source_good r1" using 1 header_good by simp
  from assms 1 ok obtain txs where
    "run_state (from_data_each transaction_from_data (unat (hdr_transaction_count h))) r1 = ((True, txs), r)"
    by (auto simp: block_from_data_def split: if_splits prod.splits)
  then show ?thesis using good_reader [OF g] transaction_wire.get_each_good by metis
qed

interpretation block_wire: wire_object wf_block "block_to_data True" "block_from_data True"
  by unfold_locales (auto intro: block_read_back block_good local_intros)

section \<open>Sizes\<close>

lemma length_point_to_data [size_simps]: "wf_point p \<Longrightarrow> length (point_to_data p) = point_satoshi_fixed_size"
  by (simp add: wf_point_def point_to_data_def point_satoshi_fixed_size_def size_simps)

lemma length_script_prefixed [size_simps]: "length (script_to_data True s) = script_serialized_size s True"
  by (simp add: script_to_data_prefix script_serialized_size_def Let_def size_simps)

lemma length_input_to_data: "wf_input i \<Longrightarrow> length (input_to_data i) = input_serialized_size i"
  by (simp add: wf_input_def input_to_data_def input_serialized_size_def size_simps)

lemma length_output_to_data:
  "length (output_to_data out) + attachment_serialized_size (output_attach_data out)
     = output_serialized_size out + length (attachment_to_data (output_attach_data out))"
  by (simp add: output_to_data_def output_serialized_size_def size_simps)

lemma sum_list_length_concat: "length (concat (map f xs)) = (\<Sum>x\<leftarrow>xs. length (f x))"
  by (simp add: length_concat comp_def)

lemma length_inputs_to_data:
  "list_all wf_input xs \<Longrightarrow> length (concat (map input_to_data xs)) = (\<Sum>i\<leftarrow>xs. input_serialized_size i)"
  by (induction xs) (auto simp: length_input_to_data)

lemma outputs_size_le:
  "(\<Sum>out\<leftarrow>outs. output_serialized_size out) \<le> length (concat (map output_to_data outs))
   \<and> ((\<Sum>out\<leftarrow>outs. output_serialized_size out) = length (concat (map output_to_data outs))
      \<longleftrightarrow> (\<forall>out\<in>set outs. attachment_serialized_size (output_attach_data out)
            = length (attachment_to_data (output_attach_data out))))"
proof (induction outs)
  case (Cons out outs)
  have "output_serialized_size out \<le> length (output_to_data out)"
    "output_serialized_size out = length (output_to_data out) \<longleftrightarrow>
      attachment_serialized_size (output_attach_data out) = length (attachment_to_data (output_attach_data out))"
    using length_output_to_data [of out] attachment_size_le [of "output_attach_data out"] by linarith+
  with Cons show ?case by auto
qed simp

section \<open>Merkle roots\<close>

lemma merkle_level_duplicate:
  "length m mod 2 \<noteq> 0 \<Longrightarrow> merkle_level (m @ [last m]) = merkle_level m"
  by (auto simp: merkle_level_def mod_Suc)

text \<open>The byte strings that are hashed on the way to the root.\<close>

fun pair_inputs :: "hash_digest list \<Rightarrow> bytes list" where
  "pair_inputs (a # b # rest) = (a @ b) # pair_inputs rest"
| "pair_inputs _ = []"

definition level_inputs :: "hash_digest list \<Rightarrow> bytes list" where
  "level_inputs merkle = pair_inputs (if length merkle mod 2 \<noteq> 0 then merkle @ [last merkle] else merkle)"

function merkle_inputs :: "hash_digest list \<Rightarrow> bytes list" where
  "merkle_inputs merkle =
     (if length merkle > 1 then level_inputs merkle @ merkle_inputs (merkle_level merkle) else [])"
  by pat_completeness auto
termination
  by (relation "measure length") (auto simp: length_merkle_level)

declare merkle_inputs.simps [simp del]

abbreviation hashes :: "hash_digest list \<Rightarrow> bool" where
  "hashes m \<equiv> list_all (\<lambda>h. length h = 32) m"

lemma merkle_pairs_eq: "merkle_pairs m = map bitcoin_hash (pair_inputs m)"
  by (induction m rule: merkle_pairs.induct) auto

lemma pair_inputs_inj:
  "pair_inputs m = pair_inputs n \<Longrightarrow> length m = length n \<Longrightarrow> even (length m) \<Longrightarrow> hashes m \<Longrightarrow> hashes n \<Longrightarrow> m = n"
  by (induction m arbitrary: n rule: pair_inputs.induct) (case_tac [!] n rule: pair_inputs.cases, auto)

lemma hashes_level: "hashes (merkle_level m)"
proof -
  have "hashes (merkle_pairs n)" for n by (induction n rule: merkle_pairs.induct) auto
  then show ?thesis by (simp add: merkle_level_def)
qed

lemma level_inj:
  assumes "merkle_level m = merkle_level n" "length m = length n" "m \<noteq> []" "hashes m" "hashes n"
    and "inj_on bitcoin_hash (set (level_inputs m) \<union> set (level_inputs n))"
  shows "m = n"
proof -
  have ne: "n \<noteq> []" using assms(2,3) by auto
  let ?pad = "\<lambda>m. if length m mod 2 \<noteq> 0 then m @ [last m] else m"
  have "map bitcoin_hash (level_inputs m) = map bitcoin_hash (level_inputs n)"
    using assms(1) by (simp add: merkle_level_def merkle_pairs_eq level_inputs_def)
  then have "level_inputs m = level_inputs n" using assms(6) by (metis map_inj_on)
  moreover have "hashes (?pad m)" "hashes (?pad n)"
    using assms(4,5) last_in_set [OF assms(3)] last_in_set [OF ne] by (auto simp: list_all_iff)
  moreover have "length (?pad m) = length (?pad n)" "even (length (?pad m))" using assms(2) by auto
  ultimately have "?pad m = ?pad n" using pair_inputs_inj [of "?pad m" "?pad n"] by (simp add: level_inputs_def)
  then show ?thesis using assms(2) by (auto split: if_splits)
qed

lemma merkle_root_inj:
  "build_merkle_tree m = build_merkle_tree n \<Longrightarrow> length m = length n \<Longrightarrow> hashes m \<Longrightarrow> hashes n \<Longrightarrow>
     inj_on bitcoin_hash (set (merkle_inputs m) \<union> set (merkle_inputs n)) \<Longrightarrow> m = n"
proof (induction m arbitrary: n rule: build_merkle_tree.induct)
  case (1 m)
  show ?case
  proof (cases "length m > 1")
    case True
    have step: "build_merkle_tree k = build_merkle_tree (merkle_level k)"
      "merkle_inputs k = level_inputs k @ merkle_inputs (merkle_level k)" if "length k > 1" for k
      using that by (simp_all add: build_merkle_tree.simps [of k] merkle_inputs.simps [of k]) auto
    have long: "m \<noteq> []" "length n > 1" using True "1.prems"(2) by auto
    have "merkle_level m = merkle_level n"
      using "1.IH" [OF long(1) True, of "merkle_level n"] "1.prems" step [OF True] step [OF long(2)] hashes_level
      by (auto simp: length_merkle_level intro: inj_on_subset)
    then show ?thesis
      using level_inj "1.prems" long(1) step(2) [OF True] step(2) [OF long(2)]
      by (auto intro: inj_on_subset)
  next
    case False
    then show ?thesis using "1.prems" by (cases m; cases n) (auto simp: build_merkle_tree.simps)
  qed
qed

section \<open>Properties\<close>

text \<open>C8: a well-formed transaction survives serialisation whatever bytes follow it, its encoding
  is a prefix of no other encoding, and every proper prefix of the encoding is refused.\<close>

theorem transaction_wire_correct:
  assumes "wf_transaction tx"
  shows "run_state transaction_from_data (ready (transaction_to_data tx @ rest) j) = ((True, tx), ready rest j)
    \<and> (\<forall>p q. transaction_to_data tx = p @ q \<and> q \<noteq> [] \<longrightarrow>
         \<not> fst (fst (run_state transaction_from_data (ready p j))))
    \<and> (\<forall>tx'. wf_transaction tx' \<and> transaction_to_data tx' @ a = transaction_to_data tx @ b \<longrightarrow>
         tx' = tx \<and> a = b)"
  using transaction_wire.get_put [OF assms] transaction_wire.truncated_refused [OF assms]
    transaction_wire.put_prefix_free [OF _ assms] by blast

definition sample_transaction :: transaction where
  "sample_transaction =
     \<lparr>tx_version = 1, tx_locktime = 0,
      tx_inputs = [\<lparr>input_previous_output = \<lparr>point_hash = replicate 32 7, point_index = 3\<rparr>,
        input_script = [Op opcode_special [1, 2]], input_sequence = max_input_sequence\<rparr>],
      tx_outputs = [\<lparr>output_value = 100, output_script = to_pay_key_hash_pattern (replicate 20 1),
        output_attach_data = \<lparr>attach_version = 1, attach_type = etp_type, attach_payload = Attach_etp etp_reset\<rparr>\<rparr>]\<rparr>"

lemma wf_sample_transaction: "wf_transaction sample_transaction"
  by (simp add: sample_transaction_def wf_transaction_def wf_input_def wf_point_def wf_output_def wf_script_def
      wf_operation_def wf_attachment_def point_is_null_def satoshi_content_size_def operation_serialized_size_def
      to_pay_key_hash_pattern_def)

theorem transaction_wire_correct_witness:
  "run_state transaction_from_data (ready (transaction_to_data sample_transaction @ [1, 2]) 0)
     = ((True, sample_transaction), ready [1, 2] 0)"
  using transaction_wire_correct [OF wf_sample_transaction, of "[1, 2]" 0] by blast

text \<open>C15: a well-formed block survives serialisation with its transaction count, and a truncated
  block is refused.\<close>

theorem block_wire_correct:
  assumes "wf_block b"
  shows "run_state (block_from_data True) (ready (block_to_data True b @ rest) j) = ((True, b), ready rest j)
    \<and> (\<forall>p q. block_to_data True b = p @ q \<and> q \<noteq> [] \<longrightarrow>
         \<not> fst (fst (run_state (block_from_data True) (ready p j))))"
  using block_wire.get_put [OF assms] block_wire.truncated_refused [OF assms] by blast

definition sample_header :: header where
  "sample_header = \<lparr>hdr_version = 1, hdr_previous_block_hash = replicate 32 5, hdr_merkle = replicate 32 6,
     hdr_timestamp = 1486796400, hdr_bits = 1, hdr_nonce = 0, hdr_mixhash = 0, hdr_number = 1, hdr_transaction_count = 1\<rparr>"

theorem block_wire_correct_witness:
  "run_state (block_from_data True)
     (ready (block_to_data True \<lparr>block_header = sample_header, block_transactions = [sample_transaction]\<rparr>) 0)
   = ((True, \<lparr>block_header = sample_header, block_transactions = [sample_transaction]\<rparr>), ready [] 0)"
  using block_wire_correct [of "\<lparr>block_header = sample_header, block_transactions = [sample_transaction]\<rparr>" "[]" 0]
    wf_sample_transaction
  by (simp add: wf_block_def wf_header_def sample_header_def)

text \<open>C32: the size a transaction reports is at most the length of its encoding, and equals it
  exactly when every output's attachment reports its own length truly.\<close>

theorem transaction_size_exact_iff:
  assumes "wf_transaction tx"
  shows "transaction_serialized_size tx \<le> length (transaction_to_data tx)
    \<and> (transaction_serialized_size tx = length (transaction_to_data tx) \<longleftrightarrow>
        (\<forall>out\<in>set (tx_outputs tx). attachment_serialized_size (output_attach_data out)
           = length (attachment_to_data (output_attach_data out))))"
proof -
  have "length (transaction_to_data tx) + (\<Sum>out\<leftarrow>tx_outputs tx. output_serialized_size out)
      = transaction_serialized_size tx + length (concat (map output_to_data (tx_outputs tx)))"
    using assms by (simp add: wf_transaction_def transaction_to_data_def transaction_serialized_size_def
        length_inputs_to_data size_simps)
  with outputs_size_le [of "tx_outputs tx"] show ?thesis by linarith
qed

theorem transaction_size_exact_iff_witness:
  "transaction_serialized_size sample_transaction = length (transaction_to_data sample_transaction)"
  using transaction_size_exact_iff [OF wf_sample_transaction]
  by (simp add: sample_transaction_def attachment_serialized_size_def attachment_to_data_def etp_serialized_size_def
      etp_to_data_def size_simps)





text \<open>Headers that differ in their mix hash or their number compare equal, although they have
  different encodings (over which the hash is taken).\<close>

theorem header_equality_ignores_seal:
  "header_equal h (h\<lparr>hdr_mixhash := m, hdr_number := n\<rparr>)
   \<and> (header_to_data False h = header_to_data False (h\<lparr>hdr_mixhash := m, hdr_number := n\<rparr>)
      \<longleftrightarrow> m = hdr_mixhash h \<and> n = hdr_number h)"
proof -
  have inverse: "from_big_endian_bytes (to_big_endian a) = a" for a :: u256 by simp
  have "to_big_endian a @ write_4_bytes_little_endian x = to_big_endian b @ write_4_bytes_little_endian y
      \<longleftrightarrow> a = b \<and> x = y" (is "?l = ?r") for a b :: u256 and x y
  proof
    assume ?l
    then have *: "to_big_endian a = to_big_endian b" "write_4_bytes_little_endian x = write_4_bytes_little_endian y"
      by (simp_all add: append_eq_append_conv length_to_big_endian)
    moreover have "x = y"
      using run_read_word(2) [of x "[]" 0] run_read_word(2) [of y "[]" 0] *(2) by simp
    ultimately show ?r using inverse [of a] inverse [of b] by metis
  qed simp
  then show ?thesis by (auto simp: header_equal_def header_to_data_def)
qed

end
