(* ===== verification/Hash_Vectors.thy ===== *)
theory Hash_Vectors
  imports Hashes
begin

text \<open>
  The published test vector of SHA-256 for the three letters \<open>abc\<close> (FIPS 180), evaluated on the
  model by rewriting: it ties the round constants and the message schedule to the standard.
\<close>

text \<open>The hash of the three bytes \<open>abc\<close> is the digest that the standard publishes for them.\<close>

theorem sha256_abc:
  "sha256_hash [0x61, 0x62, 0x63] =
     [0xba, 0x78, 0x16, 0xbf, 0x8f, 0x01, 0xcf, 0xea, 0x41, 0x41, 0x40, 0xde, 0x5d, 0xae, 0x22, 0x23,
      0xb0, 0x03, 0x61, 0xa3, 0x96, 0x17, 0x7a, 0x9c, 0xb4, 0x10, 0xff, 0x61, 0xf2, 0x00, 0x15, 0xad]"
  by code_simp

end
