(* ===== verification/Chain_Interface.thy ===== *)
theory Chain_Interface
  imports Chain Script_Engine
begin

text \<open>
  What the validation and the pools share: the error codes of \<open>error.hpp\<close>, the consensus
  constants of \<open>constants.hpp\<close>, and the queries on the stored chain that \<open>block_chain_impl\<close> answers
  from its database. The queries are the fields of a record, so that the validation can be read
  and proved without the files; the database component gives the record for its state.
\<close>

section \<open>Error codes\<close>

text \<open>Those of \<open>error_code_t\<close> that the modelled code uses.\<close>

datatype error_code =
    Success | Service_stopped | Operation_failed | Not_found | Duplicate | Unspent_output
  | Unsupported_script_pattern | Blockchain_reorganized | Pool_filled | Coinbase_transaction
  | Is_not_standard | Double_spend | Input_not_found | Invalid_input_script_lock_height
  | Invalid_output_script_lock_height | Empty_transaction | Output_value_overflow
  | Invalid_coinbase_script_size | Previous_output_null | Script_not_standard
  | Transaction_version_error | Previous_block_invalid | Size_limits | Proof_of_work
  | Futuristic_timestamp | First_not_coinbase | Extra_coinbases | Too_many_sigs | Merkle_mismatch
  | Incorrect_proof_of_work | Timestamp_too_early | Non_final_transaction | Checkpoints_failed
  | Old_version_block | Coinbase_height_mismatch | Duplicate_or_spent | Validate_inputs_failed
  | Fees_out_of_range | Coinbase_too_large | Invalid_coinage_reward_coinbase | Unknown | Mock
  | Asset_amount_overflow | Asset_amount_not_equal | Asset_symbol_not_match | Asset_symbol_invalid
  | Asset_exist | Fetch_more_block

section \<open>Constants\<close>

definition coin_price :: "u64 \<Rightarrow> u64" where
  "coin_price amount = amount * 100000000"

definition max_money :: u64 where
  "max_money = coin_price 100000000"

lemma max_money_unat [simp]: "unat max_money = 10000000000000000"
  by (simp add: max_money_def coin_price_def)

section \<open>The stored chain\<close>

text \<open>
  \<open>query_transaction\<close> also gives the height of the block the transaction is in;
  \<open>query_height\<close> looks up a block by its hash.
\<close>

record chain_queries =
  query_last_height :: "u64 option"
  query_header :: "u64 \<Rightarrow> header option"
  query_height :: "hash_digest \<Rightarrow> u64 option"
  query_transaction :: "hash_digest \<Rightarrow> (transaction \<times> u64) option"
  query_spend :: "point \<Rightarrow> point option"
  query_asset :: "bytes \<Rightarrow> bool"

text \<open>
  The check of an input's script against the output it spends. The program can be built with
  its own engine or with the one cloned from the reference client; the validation is modelled
  for any such check, and \<open>check_consensus\<close> is the one of the program's own engine.
\<close>

type_synonym script_check = "script \<Rightarrow> transaction \<Rightarrow> nat \<Rightarrow> u32 \<Rightarrow> bool outcome"

definition check_consensus :: "secp256k1 \<Rightarrow> script_check" where
  "check_consensus lib prevout_script current_tx input_index flags =
     (if length (tx_inputs current_tx) \<le> input_index then Abnormal
      else verify_script lib (input_script (tx_inputs current_tx ! input_index)) prevout_script
             current_tx input_index flags)"

section \<open>Adding up amounts\<close>

lemma unat_add_max_money:
  assumes "v \<le> max_money" "acc \<le> max_money"
  shows "unat (acc + v) = unat acc + unat v"
proof -
  have "unat acc + unat v < 2 ^ 64"
    using assms unfolding word_le_nat_alt max_money_unat by simp
  then show ?thesis using unat_add_lem [of acc v] by simp
qed

end
