(* ===== verification/Transaction_Pool.thy ===== *)
theory Transaction_Pool
  imports Chain_Interface
begin

text \<open>
  The memory pool: \<open>transaction_pool.cpp\<close>. The buffer is the list of its transactions, the oldest
  first; the calls of the confirmation handlers are recorded in the order they are made. The
  operations run one after the other on the pool's ordered dispatcher, so they are functions on
  the state. The address index (\<open>transaction_pool_index.cpp\<close>) is left out.
\<close>

section \<open>The pool\<close>

record transaction_pool =
  pool_stopped :: bool
  maintain_consistency :: bool
  pool_capacity :: nat
  pool_buffer :: "transaction list"
  pool_confirms :: "(error_code \<times> transaction) list"

definition pool_find :: "transaction_pool \<Rightarrow> hash_digest \<Rightarrow> transaction option" where
  "pool_find pool tx_hash = find (\<lambda>entry. transaction_hash entry = tx_hash) (pool_buffer pool)"

definition is_in_pool :: "transaction_pool \<Rightarrow> hash_digest \<Rightarrow> bool" where
  "is_in_pool pool tx_hash \<longleftrightarrow> pool_find pool tx_hash \<noteq> None"

text \<open>Whether a transaction of the pool issues the asset; the attachment query may throw.\<close>

definition issues_asset :: "bytes \<Rightarrow> tx_output \<Rightarrow> bool outcome" where
  "issues_asset assert_name out = do {
     issue \<leftarrow> is_asset_issue out;
     (if issue then do { symbol \<leftarrow> get_asset_symbol out; Returns (symbol = assert_name) } else Returns False) }"

primrec find_asset :: "bytes \<Rightarrow> transaction list \<Rightarrow> bool outcome" where
  "find_asset assert_name [] = Returns False"
| "find_asset assert_name (entry # entries) = do {
     found \<leftarrow> any_output (issues_asset assert_name) (tx_outputs entry);
     (if found then Returns True else find_asset assert_name entries) }"

definition is_asset_in_pool :: "transaction_pool \<Rightarrow> bytes \<Rightarrow> bool outcome" where
  "is_asset_in_pool pool assert_name = find_asset assert_name (pool_buffer pool)"

definition is_spent_by_tx :: "point \<Rightarrow> transaction \<Rightarrow> bool" where
  "is_spent_by_tx outpoint tx \<longleftrightarrow> list_ex (\<lambda>i. input_previous_output i = outpoint) (tx_inputs tx)"

definition is_outpoint_spent_in_pool :: "transaction_pool \<Rightarrow> point \<Rightarrow> bool" where
  "is_outpoint_spent_in_pool pool outpoint \<longleftrightarrow> list_ex (is_spent_by_tx outpoint) (pool_buffer pool)"

definition is_spent_in_pool :: "transaction_pool \<Rightarrow> transaction \<Rightarrow> bool" where
  "is_spent_in_pool pool tx \<longleftrightarrow>
     list_ex (\<lambda>i. is_outpoint_spent_in_pool pool (input_previous_output i)) (tx_inputs tx)"

section \<open>Deleting\<close>

text \<open>Every entry with the hash is confirmed with the code and erased, from the front on.\<close>

definition delete_single :: "hash_digest \<Rightarrow> error_code \<Rightarrow> transaction_pool \<Rightarrow> bool \<times> transaction_pool" where
  "delete_single tx_hash ec pool =
     (if pool_stopped pool then (False, pool)
      else
        (let matched = filter (\<lambda>entry. transaction_hash entry = tx_hash) (pool_buffer pool) in
         if matched = [] then (False, pool)
         else (True, pool\<lparr>pool_buffer := filter (\<lambda>entry. transaction_hash entry \<noteq> tx_hash) (pool_buffer pool),
                          pool_confirms := pool_confirms pool @ map (Pair ec) matched\<rparr>)))"

definition dependencies :: "(tx_input \<Rightarrow> bool) \<Rightarrow> transaction_pool \<Rightarrow> transaction list" where
  "dependencies is_dependency pool = filter (\<lambda>entry. list_ex is_dependency (tx_inputs entry)) (pool_buffer pool)"

text \<open>
  \<open>delete_package\<close> deletes a transaction and then calls itself, through \<open>delete_dependencies\<close>, for
  every entry that spends an output of it, collected before the first of these calls. Here the
  packages that are still to be deleted are a list of hashes; those of the dependencies come
  first, in the order of the recursive calls.
\<close>

lemma delete_single_less:
  "delete_single h ec pool = (True, pool') \<Longrightarrow> length (pool_buffer pool') < length (pool_buffer pool)"
  by (auto simp: delete_single_def Let_def filter_empty_conv split: if_split_asm intro!: length_filter_less)

lemma delete_single_same: "delete_single h ec pool = (False, pool') \<Longrightarrow> pool' = pool"
  by (auto simp: delete_single_def Let_def split: if_split_asm)

function delete_packages :: "error_code \<Rightarrow> hash_digest list \<Rightarrow> transaction_pool \<Rightarrow> transaction_pool" where
  "delete_packages ec [] pool = pool"
| "delete_packages ec (tx_hash # rest) pool =
     (case delete_single tx_hash ec pool of
        (False, pool) \<Rightarrow> delete_packages ec rest pool
      | (True, pool) \<Rightarrow>
          delete_packages ec
            (map transaction_hash (dependencies (\<lambda>i. point_hash (input_previous_output i) = tx_hash) pool) @ rest)
            pool)"
  by pat_completeness auto
termination
  by (relation "measures [\<lambda>(ec, hashes, pool). length (pool_buffer pool), \<lambda>(ec, hashes, pool). length hashes]")
    (auto dest!: sym [of "(True, _)"] sym [of "(False, _)"] delete_single_less delete_single_same)

definition delete_package :: "transaction \<Rightarrow> error_code \<Rightarrow> transaction_pool \<Rightarrow> transaction_pool" where
  "delete_package tx ec pool = delete_packages ec [transaction_hash tx] pool"

definition delete_dependencies :: "(tx_input \<Rightarrow> bool) \<Rightarrow> error_code \<Rightarrow> transaction_pool \<Rightarrow> transaction_pool" where
  "delete_dependencies is_dependency ec pool =
     delete_packages ec (map transaction_hash (dependencies is_dependency pool)) pool"

text \<open>The package of the oldest entry, which is confirmed once more before.\<close>

definition delete_oldest_package :: "error_code \<Rightarrow> transaction_pool \<Rightarrow> transaction_pool" where
  "delete_oldest_package ec pool =
     (if pool_stopped pool then pool
      else
        (case pool_buffer pool of
           [] \<Rightarrow> pool
         | oldest # _ \<Rightarrow> delete_package oldest ec (pool\<lparr>pool_confirms := pool_confirms pool @ [(ec, oldest)]\<rparr>)))"

section \<open>Entries\<close>

text \<open>\<open>boost::circular_buffer::push_back\<close> drops the oldest element of a full buffer.\<close>

definition circular_push_back :: "nat \<Rightarrow> 'a \<Rightarrow> 'a list \<Rightarrow> 'a list" where
  "circular_push_back capacity x buffer =
     (if length buffer < capacity then buffer @ [x] else if buffer = [] then [] else tl buffer @ [x])"

definition pool_add :: "transaction \<Rightarrow> transaction_pool \<Rightarrow> transaction_pool" where
  "pool_add tx pool =
     (let pool = (if maintain_consistency pool \<and> length (pool_buffer pool) = pool_capacity pool
                  then delete_oldest_package Pool_filled pool else pool)
      in pool\<lparr>pool_buffer := circular_push_back (pool_capacity pool) tx (pool_buffer pool)\<rparr>)"

definition pool_clear :: "error_code \<Rightarrow> transaction_pool \<Rightarrow> transaction_pool" where
  "pool_clear ec pool =
     pool\<lparr>pool_buffer := [], pool_confirms := pool_confirms pool @ map (Pair ec) (pool_buffer pool)\<rparr>"

definition delete_confirmed_in_blocks :: "block list \<Rightarrow> transaction_pool \<Rightarrow> transaction_pool" where
  "delete_confirmed_in_blocks blocks pool =
     (if pool_stopped pool \<or> pool_buffer pool = [] then pool
      else fold (\<lambda>tx pool. snd (delete_single (transaction_hash tx) Success pool))
             (concat (map block_transactions blocks)) pool)"

definition delete_spent_in_blocks :: "block list \<Rightarrow> transaction_pool \<Rightarrow> transaction_pool" where
  "delete_spent_in_blocks blocks pool =
     (if pool_stopped pool \<or> pool_buffer pool = [] then pool
      else fold (\<lambda>i. delete_dependencies (\<lambda>j. input_previous_output j = input_previous_output i) Double_spend)
             (concat (map tx_inputs (concat (map block_transactions blocks)))) pool)"

definition pool_remove :: "block list \<Rightarrow> transaction_pool \<Rightarrow> transaction_pool" where
  "pool_remove blocks pool =
     (let pool = delete_confirmed_in_blocks blocks pool
      in if maintain_consistency pool then delete_spent_in_blocks blocks pool else pool)"

definition delete_tx :: "hash_digest \<Rightarrow> transaction_pool \<Rightarrow> transaction_pool" where
  "delete_tx tx_hash pool =
     (if pool_stopped pool then pool
      else
        (let others = (\<lambda>entry. transaction_hash entry \<noteq> tx_hash)
         in pool\<lparr>pool_buffer := takeWhile others (pool_buffer pool) @ tl (dropWhile others (pool_buffer pool))\<rparr>))"

text \<open>The queries on the pool answer with an error once it is stopped.\<close>

definition pool_start :: "transaction_pool \<Rightarrow> transaction_pool" where
  "pool_start pool = pool\<lparr>pool_stopped := False\<rparr>"

definition pool_stop :: "transaction_pool \<Rightarrow> transaction_pool" where
  "pool_stop pool = pool\<lparr>pool_stopped := True\<rparr>"

definition fetch_all :: "transaction_pool \<Rightarrow> error_code \<times> transaction list" where
  "fetch_all pool = (if pool_stopped pool then (Service_stopped, []) else (Success, pool_buffer pool))"

definition pool_fetch :: "hash_digest \<Rightarrow> transaction_pool \<Rightarrow> error_code \<times> transaction option" where
  "pool_fetch tx_hash pool =
     (if pool_stopped pool then (Service_stopped, None)
      else case pool_find pool tx_hash of None \<Rightarrow> (Not_found, None) | Some tx \<Rightarrow> (Success, Some tx))"

definition pool_exists :: "hash_digest \<Rightarrow> transaction_pool \<Rightarrow> error_code" where
  "pool_exists tx_hash pool =
     (if pool_stopped pool then Service_stopped else if is_in_pool pool tx_hash then Success else Not_found)"

text \<open>What the pool does on a reorganization, with whether it stays subscribed.\<close>

definition handle_reorganized ::
  "error_code \<Rightarrow> block list \<Rightarrow> block list \<Rightarrow> transaction_pool \<Rightarrow> bool \<times> transaction_pool" where
  "handle_reorganized ec new_blocks replaced_blocks pool =
     (if ec = Service_stopped then (False, pool)
      else if ec = Mock then (True, pool)
      else if ec \<noteq> Success then (False, pool)
      else if replaced_blocks = [] then (True, pool_remove new_blocks pool)
      else (True, pool_clear Blockchain_reorganized pool))"

section \<open>What deleting removes\<close>

text \<open>
  The hashes of the transactions that depend on some of the given ones: those given, and those of
  the entries that spend an output of an entry that depends on them.
\<close>

inductive dependent :: "transaction list \<Rightarrow> hash_digest set \<Rightarrow> hash_digest \<Rightarrow> bool" for buffer roots where
  dependent_root: "h \<in> roots \<Longrightarrow> dependent buffer roots h"
| dependent_step: "dependent buffer roots h \<Longrightarrow> h \<in> transaction_hash ` set buffer \<Longrightarrow> tx \<in> set buffer \<Longrightarrow>
    i \<in> set (tx_inputs tx) \<Longrightarrow> point_hash (input_previous_output i) = h \<Longrightarrow>
    dependent buffer roots (transaction_hash tx)"

lemma dependent_mono:
  assumes "dependent buffer roots h" "set buffer \<subseteq> set buffer'" "\<And>h. h \<in> roots \<Longrightarrow> dependent buffer' roots' h"
  shows "dependent buffer' roots' h"
  using assms(1)
proof induction
  case (dependent_step h tx i)
  then show ?case using assms(2) by (intro dependent.dependent_step [of _ _ h tx i]) auto
qed (rule assms(3))

text \<open>A root that is not in the buffer has no dependencies.\<close>

lemma dependent_absent_root:
  assumes "dependent buffer (insert r roots) h" "r \<notin> transaction_hash ` set buffer"
  shows "h = r \<or> dependent buffer roots h"
  using assms(1)
proof induction
  case (dependent_step h tx i)
  then show ?case using assms(2) by (metis dependent.dependent_step)
qed (auto intro: dependent_root)

text \<open>Once a root is deleted, the entries that spend its outputs are roots.\<close>

lemma dependent_delete_root:
  fixes buffer r
  defines "kept \<equiv> filter (\<lambda>tx. transaction_hash tx \<noteq> r) buffer"
  assumes "dependent buffer (insert r roots) h"
  shows "h = r \<or> dependent kept ({transaction_hash tx | tx. tx \<in> set kept \<and>
    list_ex (\<lambda>i. point_hash (input_previous_output i) = r) (tx_inputs tx)} \<union> roots) h"
  using assms(2)
proof induction
  case (dependent_root h)
  then show ?case by (auto intro: dependent.dependent_root)
next
  case (dependent_step h tx i)
  show ?case
  proof (cases "transaction_hash tx = r")
    case False
    then have tx: "tx \<in> set kept" using dependent_step.hyps by (simp add: kept_def)
    show ?thesis
    proof (cases "h = r")
      case True
      with tx dependent_step.hyps show ?thesis
        by (intro disjI2 dependent.dependent_root UnI1) (auto simp: list_ex_iff)
    next
      case neq: False
      then have "h \<in> transaction_hash ` set kept" using dependent_step.hyps by (auto simp: kept_def)
      with neq tx dependent_step show ?thesis by (blast intro: dependent.dependent_step)
    qed
  qed simp
qed

lemma delete_single_True:
  assumes "delete_single h ec pool = (True, pool')"
  shows "pool_buffer pool' = filter (\<lambda>tx. transaction_hash tx \<noteq> h) (pool_buffer pool)"
    "h \<in> transaction_hash ` set (pool_buffer pool)" "\<not> pool_stopped pool"
    "pool_stopped pool' = pool_stopped pool" "pool_capacity pool' = pool_capacity pool"
    "maintain_consistency pool' = maintain_consistency pool"
  using assms by (auto simp: delete_single_def Let_def filter_empty_conv split: if_split_asm)

lemma delete_single_False:
  assumes "delete_single h ec pool = (False, pool')" "\<not> pool_stopped pool"
  shows "pool' = pool" "h \<notin> transaction_hash ` set (pool_buffer pool)"
  using assms by (auto simp: delete_single_def Let_def filter_empty_conv split: if_split_asm)

lemma delete_packages_buffer:
  "\<not> pool_stopped pool \<Longrightarrow> pool_buffer (delete_packages ec hashes pool) =
     filter (\<lambda>tx. \<not> dependent (pool_buffer pool) (set hashes) (transaction_hash tx)) (pool_buffer pool)"
proof (induction ec hashes pool rule: delete_packages.induct)
  case (1 ec pool)
  have "\<not> dependent (pool_buffer pool) {} h" for h
  proof
    assume "dependent (pool_buffer pool) {} h"
    then show False by induction auto
  qed
  then show ?case by simp
next
  case (2 ec h rest pool)
  let ?B = "pool_buffer pool"
  consider (absent) pool' where "delete_single h ec pool = (False, pool')"
    | (present) pool' where "delete_single h ec pool = (True, pool')"
    by (metis surj_pair)
  then show ?case
  proof cases
    case absent
    note res = delete_single_False [OF absent 2(3)]
    have "dependent ?B (set (h # rest)) (transaction_hash tx) \<longleftrightarrow> dependent ?B (set rest) (transaction_hash tx)"
      if "tx \<in> set ?B" for tx
      using that res(2) dependent_absent_root [of ?B h "set rest" "transaction_hash tx"]
        dependent_mono [of ?B "set rest" "transaction_hash tx" ?B "set (h # rest)"]
      by (auto intro: dependent_root)
    moreover have "pool_buffer (delete_packages ec rest pool) =
        filter (\<lambda>tx. \<not> dependent ?B (set rest) (transaction_hash tx)) ?B"
      using 2(2) [OF absent [symmetric]] 2(3) res(1) by simp
    ultimately show ?thesis using absent res(1) by (simp cong: filter_cong)
  next
    case present
    note res = delete_single_True [OF present]
    let ?deps = "map transaction_hash (dependencies (\<lambda>i. point_hash (input_previous_output i) = h) pool')"
    have deps: "set ?deps = {transaction_hash tx | tx. tx \<in> set (pool_buffer pool') \<and>
        list_ex (\<lambda>i. point_hash (input_previous_output i) = h) (tx_inputs tx)}"
      by (auto simp: dependencies_def)
    have backward: "dependent ?B (set (h # rest)) g" if "dependent (pool_buffer pool') (set (?deps @ rest)) g" for g
    proof (rule dependent_mono [OF that])
      fix g assume "g \<in> set (?deps @ rest)"
      then consider "g \<in> set rest" | tx i where "g = transaction_hash tx" "tx \<in> set (pool_buffer pool')"
        "i \<in> set (tx_inputs tx)" "point_hash (input_previous_output i) = h"
        using deps by (auto simp: list_ex_iff)
      then show "dependent ?B (set (h # rest)) g"
        by cases (use res(1,2) in \<open>auto intro: dependent_root dependent_step [of _ _ h]\<close>)
    qed (use res(1) in auto)
    have forth: "dependent (pool_buffer pool') (set (?deps @ rest)) g"
      if "dependent ?B (set (h # rest)) g" "g \<noteq> h" for g
      using dependent_delete_root [of ?B h "set rest" g] that deps res(1) by simp
    have "pool_buffer (delete_packages ec (h # rest) pool) = filter (\<lambda>tx.
        \<not> dependent (pool_buffer pool') (set (?deps @ rest)) (transaction_hash tx)) (pool_buffer pool')"
      using 2(1) [OF present [symmetric]] present res(3,4) by simp
    also have "\<dots> = filter (\<lambda>tx. \<not> dependent ?B (set (h # rest)) (transaction_hash tx)) ?B"
      unfolding res(1) filter_filter using backward forth res(1)
      by (intro filter_cong) (auto intro: dependent_root)
    finally show ?thesis .
  qed
qed

section \<open>Operations that only remove\<close>

definition shrinks :: "transaction_pool \<Rightarrow> transaction_pool \<Rightarrow> bool" where
  "shrinks pool pool' \<longleftrightarrow> set (pool_buffer pool') \<subseteq> set (pool_buffer pool) \<and>
     length (pool_buffer pool') \<le> length (pool_buffer pool) \<and> pool_stopped pool' = pool_stopped pool \<and>
     pool_capacity pool' = pool_capacity pool \<and> maintain_consistency pool' = maintain_consistency pool"

lemma shrinks_refl [simp]: "shrinks pool pool"
  by (simp add: shrinks_def)

lemma shrinks_trans: "shrinks p q \<Longrightarrow> shrinks q r \<Longrightarrow> shrinks p r"
  by (auto simp: shrinks_def)

lemma delete_single_shrinks: "shrinks pool (snd (delete_single h ec pool))"
  by (auto simp: shrinks_def delete_single_def Let_def)

lemma delete_packages_shrinks: "shrinks pool (delete_packages ec hashes pool)"
proof (induction ec hashes pool rule: delete_packages.induct)
  case (2 ec h rest pool)
  then show ?case
    using delete_single_shrinks [of pool h ec]
    by (cases "delete_single h ec pool") (auto split: bool.split intro: shrinks_trans)
qed simp

lemma fold_shrinks:
  assumes "\<And>x pool. shrinks pool (f x pool)"
  shows "shrinks pool (fold f xs pool)"
  by (induction xs arbitrary: pool) (auto intro: shrinks_trans assms)

text \<open>What a step achieves for its argument holds at the end, if removing entries keeps it.\<close>

lemma fold_achieves:
  assumes step: "\<And>x pool. \<not> pool_stopped pool \<Longrightarrow> P x (f x pool)" and shrinks: "\<And>x pool. shrinks pool (f x pool)"
    and keeps: "\<And>x pool pool'. P x pool \<Longrightarrow> shrinks pool pool' \<Longrightarrow> P x pool'"
    and "\<not> pool_stopped pool" "x \<in> set xs"
  shows "P x (fold f xs pool)"
  using assms(4,5)
proof (induction xs arbitrary: pool)
  case (Cons y ys)
  have running: "\<not> pool_stopped (f y pool)" using shrinks [of pool y] Cons.prems(1) by (simp add: shrinks_def)
  show ?case
  proof (cases "x \<in> set ys")
    case True
    with Cons.IH [OF running] show ?thesis by simp
  next
    case False
    with Cons.prems have "P x (f y pool)" using step by simp
    then show ?thesis using fold_shrinks [of f, OF shrinks] keeps by simp
  qed
qed simp

lemma delete_single_absent:
  assumes "\<not> pool_stopped pool"
  shows "transaction_hash tx \<notin> transaction_hash ` set (pool_buffer (snd (delete_single (transaction_hash tx) ec pool)))"
  using assms by (auto simp: delete_single_def Let_def filter_empty_conv)

lemma delete_dependencies_none:
  assumes "\<not> pool_stopped pool"
  shows "\<forall>tx \<in> set (pool_buffer (delete_dependencies P ec pool)). \<not> list_ex P (tx_inputs tx)"
  unfolding delete_dependencies_def delete_packages_buffer [OF assms]
  by (auto simp: dependencies_def intro: dependent_root)

lemma delete_dependencies_shrinks: "shrinks pool (delete_dependencies P ec pool)"
  by (simp add: delete_dependencies_def delete_packages_shrinks)

lemma delete_confirmed_result:
  assumes "\<not> pool_stopped pool"
  shows "shrinks pool (delete_confirmed_in_blocks blocks pool)"
    "b \<in> set blocks \<Longrightarrow> tx \<in> set (block_transactions b) \<Longrightarrow>
       transaction_hash tx \<notin> transaction_hash ` set (pool_buffer (delete_confirmed_in_blocks blocks pool))"
proof -
  let ?f = "\<lambda>tx pool. snd (delete_single (transaction_hash tx) Success pool)"
  let ?P = "\<lambda>tx pool. transaction_hash tx \<notin> transaction_hash ` set (pool_buffer pool)"
  show "shrinks pool (delete_confirmed_in_blocks blocks pool)"
    by (auto simp: delete_confirmed_in_blocks_def intro!: fold_shrinks delete_single_shrinks)
  assume "b \<in> set blocks" "tx \<in> set (block_transactions b)"
  then have tx: "tx \<in> set (concat (map block_transactions blocks))" by auto
  have "?P t p'" if "?P t p" "shrinks p p'" for t p p' using that unfolding shrinks_def by blast
  from fold_achieves [of ?P ?f, OF delete_single_absent delete_single_shrinks this assms tx]
  show "?P tx (delete_confirmed_in_blocks blocks pool)"
    using assms by (simp add: delete_confirmed_in_blocks_def)
qed

lemma delete_spent_result:
  assumes "\<not> pool_stopped pool"
  shows "shrinks pool (delete_spent_in_blocks blocks pool)"
    "b \<in> set blocks \<Longrightarrow> tx \<in> set (block_transactions b) \<Longrightarrow> i \<in> set (tx_inputs tx) \<Longrightarrow>
       \<forall>t \<in> set (pool_buffer (delete_spent_in_blocks blocks pool)). \<not> is_spent_by_tx (input_previous_output i) t"
proof -
  let ?f = "\<lambda>i. delete_dependencies (\<lambda>j. input_previous_output j = input_previous_output i) Double_spend"
  let ?P = "\<lambda>i pool. \<forall>t \<in> set (pool_buffer pool). \<not> is_spent_by_tx (input_previous_output i) t"
  show "shrinks pool (delete_spent_in_blocks blocks pool)"
    by (auto simp: delete_spent_in_blocks_def intro!: fold_shrinks delete_dependencies_shrinks)
  assume "b \<in> set blocks" "tx \<in> set (block_transactions b)" "i \<in> set (tx_inputs tx)"
  then have i: "i \<in> set (concat (map tx_inputs (concat (map block_transactions blocks))))" by fastforce
  have step: "?P x (?f x q)" if "\<not> pool_stopped q" for x q
    using delete_dependencies_none [OF that] by (simp add: is_spent_by_tx_def)
  have "?P x p'" if "?P x p" "shrinks p p'" for x p p' using that unfolding shrinks_def by blast
  from fold_achieves [of ?P ?f, OF step delete_dependencies_shrinks this assms i]
  show "?P i (delete_spent_in_blocks blocks pool)"
    using assms by (simp add: delete_spent_in_blocks_def)
qed

text \<open>The pool does not outgrow its capacity.\<close>

lemma delete_oldest_package_shrinks: "shrinks pool (delete_oldest_package ec pool)"
proof (cases "pool_stopped pool \<or> pool_buffer pool = []")
  case False
  then obtain oldest rest where "pool_buffer pool = oldest # rest" by (cases "pool_buffer pool") auto
  with False delete_packages_shrinks [of "pool\<lparr>pool_confirms := pool_confirms pool @ [(ec, oldest)]\<rparr>" ec "[transaction_hash oldest]"]
  show ?thesis by (simp add: delete_oldest_package_def delete_package_def shrinks_def del: delete_packages.simps)
qed (auto simp: delete_oldest_package_def split: list.split)

lemma pool_add_bounded:
  assumes "length (pool_buffer pool) \<le> pool_capacity pool"
  shows "length (pool_buffer (pool_add tx pool)) \<le> pool_capacity (pool_add tx pool)"
  using assms delete_oldest_package_shrinks [of pool Pool_filled]
  by (auto simp: pool_add_def circular_push_back_def shrinks_def Let_def)

text \<open>
  When the pool is full, the handler of the oldest transaction is called twice: once by
  \<open>delete_package\<close> itself and once when its package is deleted.
\<close>

lemma delete_packages_confirms: "\<exists>calls. pool_confirms (delete_packages ec hashes pool) = pool_confirms pool @ calls"
proof (induction ec hashes pool rule: delete_packages.induct)
  case (2 ec h rest pool)
  obtain found pool' where run: "delete_single h ec pool = (found, pool')" by fastforce
  then obtain calls where "pool_confirms pool' = pool_confirms pool @ calls"
    by (auto simp: delete_single_def Let_def split: if_split_asm)
  with 2 run show ?case by (cases found) (auto split: bool.split)
qed simp

lemma oldest_confirmed_twice:
  assumes "\<not> pool_stopped pool" "pool_buffer pool = oldest # rest"
  shows "\<exists>calls. pool_confirms (delete_oldest_package ec pool) = pool_confirms pool @ (ec, oldest) # (ec, oldest) # calls"
proof -
  let ?pool = "pool\<lparr>pool_confirms := pool_confirms pool @ [(ec, oldest)]\<rparr>"
  obtain pool' calls where "delete_single (transaction_hash oldest) ec ?pool = (True, pool')"
    "pool_confirms pool' = pool_confirms pool @ (ec, oldest) # (ec, oldest) # calls"
    using assms by (auto simp: delete_single_def Let_def)
  moreover obtain more where "pool_confirms (delete_packages ec (map transaction_hash
      (dependencies (\<lambda>i. point_hash (input_previous_output i) = transaction_hash oldest) pool') @ []) pool') =
      pool_confirms pool' @ more"
    using delete_packages_confirms by blast
  ultimately show ?thesis using assms by (simp add: delete_oldest_package_def delete_package_def)
qed

section \<open>Properties\<close>

text \<open>
  C13: Deleting a package removes from the memory pool exactly the transaction and the
  transactions that depend on it through chains of spent outputs of pool transactions, however
  deep, and keeps the order of the others. In particular no transaction that is left spends an
  output of one that was removed.
\<close>

theorem delete_package_exact:
  assumes "\<not> pool_stopped pool"
  shows "pool_buffer (delete_package tx ec pool) =
      filter (\<lambda>t. \<not> dependent (pool_buffer pool) {transaction_hash tx} (transaction_hash t)) (pool_buffer pool) \<and>
    (\<forall>t \<in> set (pool_buffer (delete_package tx ec pool)). \<forall>i \<in> set (tx_inputs t).
       \<forall>r \<in> set (pool_buffer pool) - set (pool_buffer (delete_package tx ec pool)).
         point_hash (input_previous_output i) \<noteq> transaction_hash r)"
proof -
  let ?left = "pool_buffer (delete_package tx ec pool)"
  have eq: "?left = filter (\<lambda>t. \<not> dependent (pool_buffer pool) {transaction_hash tx} (transaction_hash t)) (pool_buffer pool)"
    using delete_packages_buffer [OF assms, of ec "[transaction_hash tx]"]
    by (simp add: delete_package_def del: delete_packages.simps)
  then show ?thesis by (auto intro: dependent_step)
qed

theorem delete_package_exact_witness:
  "pool_buffer (delete_package transaction_reset Pool_filled
     \<lparr>pool_stopped = False, maintain_consistency = True, pool_capacity = 2,
      pool_buffer = [transaction_reset, transaction_reset\<lparr>tx_inputs := [input_reset\<lparr>input_previous_output :=
        \<lparr>point_hash = transaction_hash transaction_reset, point_index = 0\<rparr>\<rparr>]\<rparr>],
      pool_confirms = []\<rparr>) = []"
proof -
  let ?child = "transaction_reset\<lparr>tx_inputs := [input_reset\<lparr>input_previous_output :=
        \<lparr>point_hash = transaction_hash transaction_reset, point_index = 0\<rparr>\<rparr>]\<rparr>"
  let ?pool = "\<lparr>pool_stopped = False, maintain_consistency = True, pool_capacity = 2,
      pool_buffer = [transaction_reset, ?child], pool_confirms = []\<rparr>"
  have root: "dependent (pool_buffer ?pool) {transaction_hash transaction_reset} (transaction_hash transaction_reset)"
    by (simp add: dependent_root)
  then have "dependent (pool_buffer ?pool) {transaction_hash transaction_reset} (transaction_hash ?child)"
    by (rule dependent_step [of _ _ _ ?child "input_reset\<lparr>input_previous_output :=
        \<lparr>point_hash = transaction_hash transaction_reset, point_index = 0\<rparr>\<rparr>"]) simp_all
  with root show ?thesis using delete_package_exact [of ?pool transaction_reset Pool_filled] by simp
qed



end
