(* ===== verification/Validate_Transaction.thy ===== *)
theory Validate_Transaction
  imports Transaction_Pool
begin

text \<open>
  The validation of a transaction for the memory pool: \<open>validate_transaction.cpp\<close>, and the part of
  \<open>transaction_pool.cpp\<close> that stores a validated transaction. The steps of the validator are
  callbacks that follow one another; here each calls the next one directly, and all of them see
  the same chain and the same pool; an input from the pool is noted as unconfirmed before the
  validation goes on, which it does on another thread. The result is what the handler is called with: the code and
  the indexes of the inputs it is about.
\<close>

section \<open>Transactions by themselves\<close>

abbreviation (input) max_transaction_size :: nat where "max_transaction_size \<equiv> 1000000"
abbreviation (input) min_tx_fee :: u64 where "min_tx_fee \<equiv> 10000"

definition lock_heights :: "u64 list" where
  "lock_heights = [25200, 108000, 331200, 655200, 1314000]"

text \<open>\<open>miner::get_lock_heights_index\<close>, where no index is the result -1.\<close>

definition get_lock_heights_index :: "u64 \<Rightarrow> nat option" where
  "get_lock_heights_index height = map_option fst (find (\<lambda>(i, h). h = height) (enumerate 0 lock_heights))"

primrec check_output_values :: "tx_output list \<Rightarrow> u64 \<Rightarrow> error_code" where
  "check_output_values [] total_value = Success"
| "check_output_values (out # outs) total_value =
     (if output_value out > max_money then Output_value_overflow
      else if total_value + output_value out > max_money then Output_value_overflow
      else check_output_values outs (total_value + output_value out))"

primrec check_asset_symbols :: "tx_output list \<Rightarrow> error_code outcome" where
  "check_asset_symbols [] = Returns Success"
| "check_asset_symbols (out # outs) = do {
     issue \<leftarrow> is_asset_issue out;
     (if issue then do {
        symbol \<leftarrow> get_asset_symbol out;
        (if \<not> is_valid_symbol symbol then Returns Asset_symbol_invalid else check_asset_symbols outs) }
      else check_asset_symbols outs) }"

text \<open>
  The inputs of a transaction that is not a coinbase. The height of the chain stays zero when
  there is no block; the height of the previous transaction is first looked up as if its hash
  were a block's, and then overwritten by the query for the transaction.
\<close>

primrec check_lock_heights :: "chain_queries \<Rightarrow> tx_input list \<Rightarrow> error_code outcome" where
  "check_lock_heights chain [] = Returns Success"
| "check_lock_heights chain (i # is) =
     (if point_is_null (input_previous_output i) then Returns Previous_output_null
      else if is_sign_key_hash_with_lock_height_pattern (input_script i) then
        (let current_blockheight = (case query_last_height chain of Some h \<Rightarrow> h | None \<Rightarrow> 0)
         in case query_transaction chain (point_hash (input_previous_output i)) of
              None \<Rightarrow> Returns Input_not_found
            | Some (prev_tx, prev_output_blockheight) \<Rightarrow> do {
                lock_height \<leftarrow> get_lock_height_from_sign_key_hash_with_lock_height (input_script i);
                (if lock_height > current_blockheight - prev_output_blockheight
                 then Returns Invalid_input_script_lock_height
                 else check_lock_heights chain is) })
      else check_lock_heights chain is)"

primrec check_output_lock_heights :: "tx_output list \<Rightarrow> error_code outcome" where
  "check_output_lock_heights [] = Returns Success"
| "check_output_lock_heights (out # outs) =
     (if is_pay_key_hash_with_lock_height_pattern (output_script out) then do {
        lock_height \<leftarrow> get_lock_height_from_pay_key_hash_with_lock_height (output_script out);
        (if sint (ucast lock_height :: u32) < 0 \<or> get_lock_heights_index lock_height = None
         then Returns Invalid_output_script_lock_height
         else check_output_lock_heights outs) }
      else check_output_lock_heights outs)"

definition check_transaction_basic :: "chain_queries \<Rightarrow> transaction \<Rightarrow> error_code outcome" where
  "check_transaction_basic chain tx =
     (if tx_version tx \<ge> 3 then Returns Transaction_version_error
      else if tx_version tx \<ge> 2 \<and> list_ex (\<lambda>out. pattern (output_script out) = Non_standard) (tx_outputs tx)
      then Returns Script_not_standard
      else if tx_inputs tx = [] \<or> tx_outputs tx = [] then Returns Empty_transaction
      else if transaction_serialized_size tx > max_transaction_size then Returns Size_limits
      else if check_output_values (tx_outputs tx) 0 \<noteq> Success then Returns Output_value_overflow
      else do {
        symbols \<leftarrow> check_asset_symbols (tx_outputs tx);
        (if symbols \<noteq> Success then Returns symbols
         else if is_coinbase tx then
           (let coinbase_size = script_serialized_size (input_script (tx_inputs tx ! 0)) False
            in Returns (if coinbase_size < 2 \<or> coinbase_size > 100 then Invalid_coinbase_script_size else Success))
         else do {
           locks \<leftarrow> check_lock_heights chain (tx_inputs tx);
           (if locks \<noteq> Success then Returns locks else check_output_lock_heights (tx_outputs tx)) }) })"

primrec check_assets_new :: "chain_queries \<Rightarrow> tx_output list \<Rightarrow> error_code outcome" where
  "check_assets_new chain [] = Returns Success"
| "check_assets_new chain (out # outs) = do {
     issue \<leftarrow> is_asset_issue out;
     (if issue then do {
        symbol \<leftarrow> get_asset_symbol out;
        (if query_asset chain symbol then Returns Asset_exist else check_assets_new chain outs) }
      else check_assets_new chain outs) }"

definition check_transaction :: "chain_queries \<Rightarrow> transaction \<Rightarrow> error_code outcome" where
  "check_transaction chain tx = do {
     ret \<leftarrow> check_transaction_basic chain tx;
     (if ret = Success then check_assets_new chain (tx_outputs tx) else Returns ret) }"

section \<open>Inputs\<close>

text \<open>What the validator adds up over the inputs.\<close>

record input_totals =
  value_in :: u64
  asset_amount_in :: u64
  old_symbol_in :: bytes
  new_symbol_in :: bytes
  business_tp_in :: u32

definition no_totals :: input_totals where
  "no_totals = \<lparr>value_in = 0, asset_amount_in = 0, old_symbol_in = [], new_symbol_in = [], business_tp_in = 0\<rparr>"

text \<open>
  The asset part of \<open>connect_input\<close>: the amount the output carries, the symbol, which must be the
  same for all inputs, and the kind.
\<close>

definition note_symbol :: "bytes \<Rightarrow> input_totals \<Rightarrow> input_totals" where
  "note_symbol symbol totals =
     (if symbol \<noteq> [] \<and> old_symbol_in totals = [] then totals\<lparr>old_symbol_in := symbol\<rparr> else totals)"

definition note_kind :: "bool \<Rightarrow> bool \<Rightarrow> input_totals \<Rightarrow> input_totals" where
  "note_kind issue transfer totals =
     (let totals = (if issue then totals\<lparr>business_tp_in := asset_detail_type\<rparr> else totals)
      in if transfer then totals\<lparr>business_tp_in := asset_transferable_type\<rparr> else totals)"

definition connect_asset :: "tx_output \<Rightarrow> input_totals \<Rightarrow> (bool \<times> u64 \<times> input_totals) outcome" where
  "connect_asset previous_output totals =
     (if attach_type (output_attach_data previous_output) = asset_type then do {
        amount \<leftarrow> get_asset_amount previous_output;
        symbol \<leftarrow> get_asset_symbol previous_output;
        let totals = totals\<lparr>new_symbol_in := symbol\<rparr>;
        (if symbol \<noteq> [] \<and> old_symbol_in totals \<noteq> [] \<and> old_symbol_in totals \<noteq> symbol
         then Returns (False, amount, totals)
         else do {
           issue \<leftarrow> is_asset_issue previous_output;
           transfer \<leftarrow> is_asset_transfer previous_output;
           Returns (True, amount, note_kind issue transfer (note_symbol symbol totals)) }) }
      else Returns (True, 0, totals))"

text \<open>
  \<open>coinbase_maturity\<close> is set from the configuration. Heights are subtracted as 64-bit numbers.
\<close>

definition connect_input ::
  "script_check \<Rightarrow> u32 \<Rightarrow> transaction \<Rightarrow> nat \<Rightarrow> transaction \<Rightarrow> u64 \<Rightarrow> u64 \<Rightarrow> u32 \<Rightarrow> input_totals \<Rightarrow> (bool \<times> input_totals) outcome" where
  "connect_input consensus coinbase_maturity tx current_input previous_tx parent_height last_block_height flags totals =
     (let previous_outpoint = input_previous_output (tx_inputs tx ! current_input) in
      if unat (point_index previous_outpoint) \<ge> length (tx_outputs previous_tx) then Returns (False, totals)
      else
        (let previous_output = tx_outputs previous_tx ! unat (point_index previous_outpoint);
             paid = output_value previous_output
         in if paid > max_money then Returns (False, totals)
            else do {
              (ok, asset_transfer_amount, totals) \<leftarrow> connect_asset previous_output totals;
              (if \<not> ok then Returns (False, totals)
               else if is_coinbase previous_tx \<and> last_block_height - parent_height < ucast coinbase_maturity
               then Returns (False, totals)
               else do {
                 valid \<leftarrow> consensus (output_script previous_output) tx current_input flags;
                 (if \<not> valid then Returns (False, totals)
                  else
                    (let totals = totals\<lparr>value_in := value_in totals + paid,
                                         asset_amount_in := asset_amount_in totals + asset_transfer_amount\<rparr>
                     in Returns (value_in totals \<le> max_money, totals))) }) }))"

definition tally_fees :: "transaction \<Rightarrow> u64 \<Rightarrow> u64 \<Rightarrow> bool \<times> u64" where
  "tally_fees tx amount_in total_fees =
     (let value_out = total_output_value tx in
      if amount_in < value_out then (False, total_fees)
      else
        (let fee = amount_in - value_out in
         if fee < min_tx_fee then (False, total_fees)
         else (total_fees + fee \<le> max_money, total_fees + fee)))"

definition check_asset_amount :: "transaction \<Rightarrow> input_totals \<Rightarrow> bool outcome" where
  "check_asset_amount tx totals = do {
     asset_amount_out \<leftarrow> total_output_transfer_amount tx;
     Returns (asset_amount_in totals = asset_amount_out) }"

primrec output_symbol :: "tx_output list \<Rightarrow> bytes \<Rightarrow> bytes option outcome" where
  "output_symbol [] old_symbol = Returns (Some old_symbol)"
| "output_symbol (out # outs) old_symbol = do {
     new_symbol \<leftarrow> get_asset_symbol out;
     (if new_symbol = [] then output_symbol outs old_symbol
      else if old_symbol = [] then output_symbol outs new_symbol
      else if old_symbol \<noteq> new_symbol then Returns None
      else output_symbol outs old_symbol) }"

definition check_asset_symbol :: "transaction \<Rightarrow> input_totals \<Rightarrow> bool outcome" where
  "check_asset_symbol tx totals = do {
     symbol \<leftarrow> output_symbol (tx_outputs tx) [];
     Returns (symbol = Some (old_symbol_in totals)) }"

type_synonym validation = "error_code \<times> nat list"

definition check_fees :: "transaction \<Rightarrow> input_totals \<Rightarrow> nat list \<Rightarrow> validation outcome" where
  "check_fees tx totals unconfirmed =
     (if \<not> fst (tally_fees tx (value_in totals) 0) then Returns (Fees_out_of_range, [])
      else do {
        transfer \<leftarrow> (if business_tp_in totals = asset_detail_type \<or> business_tp_in totals = asset_transferable_type
                     then has_asset_transfer tx else Returns False);
        (if transfer then do {
           amount \<leftarrow> check_asset_amount tx totals;
           (if \<not> amount then Returns (Asset_amount_not_equal, [])
            else do {
              symbol \<leftarrow> check_asset_symbol tx totals;
              Returns (if \<not> symbol then (Asset_symbol_not_match, []) else (Success, unconfirmed)) }) }
         else Returns (Success, unconfirmed)) })"

section \<open>The steps of the validator\<close>

text \<open>
  The transaction an input spends from: one of the chain with its height, else one of the pool,
  whose height is taken to be zero and which makes the input an unconfirmed one.
\<close>

definition previous_transaction ::
  "chain_queries \<Rightarrow> transaction_pool \<Rightarrow> hash_digest \<Rightarrow> (transaction \<times> u64 \<times> bool) option" where
  "previous_transaction chain pool hash =
     (case query_transaction chain hash of
        Some (previous_tx, parent_height) \<Rightarrow> Some (previous_tx, parent_height, False)
      | None \<Rightarrow> (case pool_find pool hash of Some previous_tx \<Rightarrow> Some (previous_tx, 0, True) | None \<Rightarrow> None))"

primrec next_previous_transaction ::
  "script_check \<Rightarrow> u32 \<Rightarrow> chain_queries \<Rightarrow> transaction_pool \<Rightarrow> transaction \<Rightarrow> u64 \<Rightarrow> tx_input list \<Rightarrow> nat \<Rightarrow>
   input_totals \<Rightarrow> nat list \<Rightarrow> validation outcome" where
  "next_previous_transaction consensus maturity chain pool tx last_height [] current_input totals unconfirmed =
     check_fees tx totals unconfirmed"
| "next_previous_transaction consensus maturity chain pool tx last_height (i # is) current_input totals unconfirmed =
     (case previous_transaction chain pool (point_hash (input_previous_output i)) of
        None \<Rightarrow> Returns (Input_not_found, [current_input])
      | Some (previous_tx, parent_height, in_pool) \<Rightarrow> do {
          (ok, totals) \<leftarrow> connect_input consensus maturity tx current_input previous_tx parent_height
             last_height all_enabled totals;
          (if \<not> ok then Returns (Validate_inputs_failed, [current_input])
           else if query_spend chain (input_previous_output i) \<noteq> None then Returns (Double_spend, [])
           else next_previous_transaction consensus maturity chain pool tx last_height is (current_input + 1) totals
                  (if in_pool then unconfirmed @ [current_input] else unconfirmed)) })"

text \<open>
  \<open>basic_checks\<close>; \<open>is_standard\<close> is constantly true. When it finds no input, the handler is given
  the member \<open>current_input_\<close>, which is not set yet: \<open>unset\<close>.
\<close>

definition basic_checks :: "chain_queries \<Rightarrow> transaction_pool \<Rightarrow> transaction \<Rightarrow> error_code outcome" where
  "basic_checks chain pool tx = do {
     ec \<leftarrow> check_transaction chain tx;
     (if ec \<noteq> Success then Returns ec
      else if is_coinbase tx then Returns Coinbase_transaction
      else if is_in_pool pool (transaction_hash tx) then Returns Duplicate
      else Returns Success) }"

definition validate_start ::
  "script_check \<Rightarrow> u32 \<Rightarrow> nat \<Rightarrow> chain_queries \<Rightarrow> transaction_pool \<Rightarrow> transaction \<Rightarrow> validation outcome" where
  "validate_start consensus maturity unset chain pool tx = do {
     ec \<leftarrow> basic_checks chain pool tx;
     (if ec = Input_not_found then Returns (ec, [unset])
      else if ec \<noteq> Success then Returns (ec, [])
      else if query_transaction chain (transaction_hash tx) \<noteq> None then Returns (Duplicate, [])
      else if is_spent_in_pool pool tx then Returns (Double_spend, [])
      else
        (case query_last_height chain of
           None \<Rightarrow> Returns (Not_found, [])
         | Some last_height \<Rightarrow>
             next_previous_transaction consensus maturity chain pool tx last_height (tx_inputs tx) 0 no_totals [])) }"

section \<open>Storing in the pool\<close>

text \<open>
  \<open>handle_validated\<close>: the handler is called twice when a transaction is a duplicate by now,
  because nothing returns after the first call. The results are the calls in their order.
\<close>

primrec asset_pooled :: "transaction_pool \<Rightarrow> tx_output list \<Rightarrow> bool outcome" where
  "asset_pooled pool [] = Returns False"
| "asset_pooled pool (out # outs) = do {
     issue \<leftarrow> is_asset_issue out;
     pooled \<leftarrow> (if issue then do { symbol \<leftarrow> get_asset_symbol out; is_asset_in_pool pool symbol } else Returns False);
     (if pooled then Returns True else asset_pooled pool outs) }"

definition handle_validated :: "validation \<Rightarrow> transaction_pool \<Rightarrow> transaction \<Rightarrow> validation list outcome" where
  "handle_validated result pool tx =
     (case result of (ec, unconfirmed) \<Rightarrow>
        if pool_stopped pool then Returns [(Service_stopped, [])]
        else if ec = Input_not_found \<or> ec = Validate_inputs_failed then Returns [(ec, unconfirmed)]
        else if ec \<noteq> Success then Returns [(ec, [])]
        else do {
          let calls = (if is_in_pool pool (transaction_hash tx) then [(Duplicate, [])] else []);
          pooled \<leftarrow> asset_pooled pool (tx_outputs tx);
          Returns (calls @ [if pooled then (Asset_exist, []) else (Success, unconfirmed)]) })"

definition do_store :: "validation \<Rightarrow> transaction \<Rightarrow> transaction_pool \<Rightarrow> transaction_pool" where
  "do_store result tx pool = (if fst result = Success then pool_add tx pool else pool)"

definition pool_store ::
  "script_check \<Rightarrow> u32 \<Rightarrow> nat \<Rightarrow> chain_queries \<Rightarrow> transaction \<Rightarrow> transaction_pool \<Rightarrow> (validation list \<times> transaction_pool) outcome" where
  "pool_store consensus maturity unset chain tx pool =
     (if pool_stopped pool then Returns ([(Service_stopped, [])], pool)
      else do {
        result \<leftarrow> validate_start consensus maturity unset chain pool tx;
        calls \<leftarrow> handle_validated result pool tx;
        Returns (calls, fold (\<lambda>call. do_store call tx) calls pool) })"

section \<open>What the checks establish\<close>

text \<open>The output an input spends.\<close>

definition spent_output :: "chain_queries \<Rightarrow> transaction_pool \<Rightarrow> tx_input \<Rightarrow> tx_output option" where
  "spent_output chain pool i =
     (case previous_transaction chain pool (point_hash (input_previous_output i)) of
        Some (previous_tx, _, _) \<Rightarrow>
          if unat (point_index (input_previous_output i)) < length (tx_outputs previous_tx)
          then Some (tx_outputs previous_tx ! unat (point_index (input_previous_output i))) else None
      | None \<Rightarrow> None)"

lemma check_output_values_total:
  assumes "check_output_values outs start = Success" "start \<le> max_money"
  shows "unat (foldl (\<lambda>acc out. acc + output_value out) start outs) = unat start + (\<Sum>out \<leftarrow> outs. unat (output_value out))"
    "foldl (\<lambda>acc out. acc + output_value out) start outs \<le> max_money"
  using assms
proof (induction outs arbitrary: start)
  case (Cons out outs)
  {
    case 1
    then show ?case using Cons.IH(1) [of "start + output_value out"] unat_add_max_money [of "output_value out" start]
      by (auto split: if_split_asm)
  next
    case 2
    then show ?case using Cons.IH(2) [of "start + output_value out"] by (auto split: if_split_asm)
  }
qed simp_all

lemma check_basic_success:
  assumes "check_transaction_basic chain tx = Returns Success"
  shows "tx_inputs tx \<noteq> []" "tx_outputs tx \<noteq> []" "check_output_values (tx_outputs tx) 0 = Success"
    "transaction_serialized_size tx \<le> max_transaction_size"
  using assms
  by (auto simp: check_transaction_basic_def bind_eq_Some_conv split: if_split_asm)

lemma total_output_value_exact:
  assumes "check_transaction_basic chain tx = Returns Success"
  shows "unat (total_output_value tx) = (\<Sum>out \<leftarrow> tx_outputs tx. unat (output_value out))"
  using check_output_values_total(1) [OF check_basic_success(3) [OF assms]] by (simp add: total_output_value_def)

lemma basic_checks_success:
  assumes "basic_checks chain pool tx = Returns Success"
  shows "check_transaction_basic chain tx = Returns Success" "\<not> is_coinbase tx"
    "\<not> is_in_pool pool (transaction_hash tx)"
  using assms
  by (auto simp: basic_checks_def check_transaction_def bind_eq_Some_conv split: if_split_asm)

lemma note_values [simp]:
  "value_in (note_symbol symbol totals) = value_in totals" "value_in (note_kind issue transfer totals) = value_in totals"
  "asset_amount_in (note_symbol symbol totals) = asset_amount_in totals"
  "asset_amount_in (note_kind issue transfer totals) = asset_amount_in totals"
  by (simp_all add: note_symbol_def note_kind_def Let_def)

lemma connect_asset_values:
  assumes "connect_asset out totals = Returns (ok, amount, totals')"
  shows "value_in totals' = value_in totals" "asset_amount_in totals' = asset_amount_in totals"
  using assms by (auto simp: connect_asset_def Let_def bind_eq_Some_conv split: if_split_asm)

lemma connect_input_success:
  assumes "connect_input consensus maturity tx k previous_tx parent_height last_height flags totals = Returns (True, totals')"
  defines "p \<equiv> input_previous_output (tx_inputs tx ! k)"
  shows "unat (point_index p) < length (tx_outputs previous_tx)"
    "output_value (tx_outputs previous_tx ! unat (point_index p)) \<le> max_money"
    "value_in totals' = value_in totals + output_value (tx_outputs previous_tx ! unat (point_index p))"
    "value_in totals' \<le> max_money"
    "consensus (output_script (tx_outputs previous_tx ! unat (point_index p))) tx k flags = Returns True"
    "is_coinbase previous_tx \<Longrightarrow> ucast maturity \<le> last_height - parent_height"
  using assms(1)
  by (auto simp: connect_input_def p_def [symmetric] Let_def bind_eq_Some_conv linorder_not_less
      dest: connect_asset_values split: if_split_asm)

text \<open>
  The loop over the inputs: when it ends with success, every input has an output to spend that
  its script may spend and that the chain has not seen spent, and the values have been added up
  without overflow.
\<close>

definition input_connected ::
  "script_check \<Rightarrow> chain_queries \<Rightarrow> transaction_pool \<Rightarrow> transaction \<Rightarrow> nat \<Rightarrow> bool" where
  "input_connected consensus chain pool tx k \<longleftrightarrow>
     (\<exists>out. spent_output chain pool (tx_inputs tx ! k) = Some out \<and>
        query_spend chain (input_previous_output (tx_inputs tx ! k)) = None \<and>
        consensus (output_script out) tx k all_enabled = Returns True)"

definition spent_value :: "chain_queries \<Rightarrow> transaction_pool \<Rightarrow> tx_input \<Rightarrow> nat" where
  "spent_value chain pool i = (case spent_output chain pool i of Some out \<Rightarrow> unat (output_value out) | None \<Rightarrow> 0)"

text \<open>The loop as a relation between the totals before and after the inputs from \<open>k\<close> on.\<close>

primrec inputs_connect ::
  "script_check \<Rightarrow> u32 \<Rightarrow> chain_queries \<Rightarrow> transaction_pool \<Rightarrow> transaction \<Rightarrow> u64 \<Rightarrow> tx_input list \<Rightarrow> nat \<Rightarrow>
   input_totals \<Rightarrow> input_totals \<Rightarrow> bool" where
  "inputs_connect consensus maturity chain pool tx last_height [] k totals totals' \<longleftrightarrow> totals' = totals"
| "inputs_connect consensus maturity chain pool tx last_height (i # is) k totals totals' \<longleftrightarrow>
     (\<exists>previous_tx parent_height in_pool totals1.
        previous_transaction chain pool (point_hash (input_previous_output i)) = Some (previous_tx, parent_height, in_pool) \<and>
        connect_input consensus maturity tx k previous_tx parent_height last_height all_enabled totals = Returns (True, totals1) \<and>
        query_spend chain (input_previous_output i) = None \<and>
        inputs_connect consensus maturity chain pool tx last_height is (k + 1) totals1 totals')"

lemma input_loop_success:
  "next_previous_transaction consensus maturity chain pool tx last_height is k totals unconfirmed = Returns (Success, u) \<Longrightarrow>
     \<exists>totals'. inputs_connect consensus maturity chain pool tx last_height is k totals totals' \<and>
       check_fees tx totals' u = Returns (Success, u)"
proof (induction "is" arbitrary: k totals unconfirmed)
  case Nil
  then have "u = unconfirmed" by (auto simp: check_fees_def bind_eq_Some_conv split: if_split_asm)
  with Nil show ?case by simp
next
  case (Cons i js)
  then obtain previous_tx parent_height in_pool totals1
    where "previous_transaction chain pool (point_hash (input_previous_output i)) = Some (previous_tx, parent_height, in_pool)"
      "connect_input consensus maturity tx k previous_tx parent_height last_height all_enabled totals = Returns (True, totals1)"
      "query_spend chain (input_previous_output i) = None"
      and rest: "next_previous_transaction consensus maturity chain pool tx last_height js (k + 1) totals1
        (if in_pool then unconfirmed @ [k] else unconfirmed) = Returns (Success, u)"
    by (auto simp: bind_eq_Some_conv split: option.split_asm if_split_asm)
  with Cons.IH [OF rest] show ?case by fastforce
qed

lemma drop_head:
  assumes "x # xs = drop k ys"
  shows "k < length ys" "ys ! k = x" "xs = drop (k + 1) ys"
  using assms by (metis drop_eq_Nil linorder_not_less list.discI, metis nth_via_drop, metis drop_Suc list.sel(3) tl_drop Suc_eq_plus1)

lemma connect_input_spends:
  assumes "previous_transaction chain pool (point_hash (input_previous_output i)) = Some (previous_tx, parent_height, in_pool)"
    "connect_input consensus maturity tx k previous_tx parent_height last_height flags totals = Returns (True, totals')"
    "tx_inputs tx ! k = i"
  obtains out where "spent_output chain pool i = Some out" "output_value out \<le> max_money"
    "value_in totals' = value_in totals + output_value out" "value_in totals' \<le> max_money"
    "consensus (output_script out) tx k flags = Returns True"
  using connect_input_success [OF assms(2)] assms(1,3) that by (simp add: spent_output_def)

lemma inputs_connect_values:
  assumes "inputs_connect consensus maturity chain pool tx last_height is k totals totals'"
    "is = drop k (tx_inputs tx)" "value_in totals \<le> max_money"
  shows "value_in totals' \<le> max_money"
    "unat (value_in totals') = unat (value_in totals) + (\<Sum>i \<leftarrow> is. spent_value chain pool i)"
    "\<And>j. j < length is \<Longrightarrow> input_connected consensus chain pool tx (k + j)"
proof -
  have "value_in totals' \<le> max_money \<and>
    unat (value_in totals') = unat (value_in totals) + (\<Sum>i \<leftarrow> is. spent_value chain pool i) \<and>
    (\<forall>j < length is. input_connected consensus chain pool tx (k + j))"
    using assms
  proof (induction "is" arbitrary: k totals)
    case (Cons i js)
    note k = drop_head [OF Cons.prems(2)]
    obtain previous_tx parent_height in_pool totals1
      where prev: "previous_transaction chain pool (point_hash (input_previous_output i)) = Some (previous_tx, parent_height, in_pool)"
        and conn: "connect_input consensus maturity tx k previous_tx parent_height last_height all_enabled totals = Returns (True, totals1)"
        and spend: "query_spend chain (input_previous_output i) = None"
        and rest: "inputs_connect consensus maturity chain pool tx last_height js (k + 1) totals1 totals'"
      using Cons.prems(1) by auto
    obtain out where out: "spent_output chain pool i = Some out" "output_value out \<le> max_money"
      "value_in totals1 = value_in totals + output_value out" "value_in totals1 \<le> max_money"
      "consensus (output_script out) tx k all_enabled = Returns True"
      by (rule connect_input_spends [OF prev conn k(2)])
    have "unat (value_in totals1) = unat (value_in totals) + spent_value chain pool i"
      using unat_add_max_money [OF out(2) Cons.prems(3)] by (simp add: out spent_value_def)
    moreover have "input_connected consensus chain pool tx k"
      using out spend by (auto simp: input_connected_def k(2))
    moreover note Cons.IH [OF rest k(3) out(4)]
    ultimately show ?case by (simp add: All_less_Suc2)
  qed simp
  then show "value_in totals' \<le> max_money"
    "unat (value_in totals') = unat (value_in totals) + (\<Sum>i \<leftarrow> is. spent_value chain pool i)"
    "\<And>j. j < length is \<Longrightarrow> input_connected consensus chain pool tx (k + j)"
    by blast+
qed

lemma check_fees_success:
  assumes "check_fees tx totals u = Returns (Success, u')"
  shows "total_output_value tx \<le> value_in totals" "min_tx_fee \<le> value_in totals - total_output_value tx"
  using assms by (auto simp: check_fees_def tally_fees_def Let_def split: if_split_asm)

subsection \<open>Assets\<close>

definition asset_amount_of :: "tx_output \<Rightarrow> u64" where
  "asset_amount_of out = (case get_asset_amount out of Some amount \<Rightarrow> amount | None \<Rightarrow> 0)"

definition symbol_of :: "tx_output \<Rightarrow> bytes" where
  "symbol_of out = (case get_asset_symbol out of Some symbol \<Rightarrow> symbol | None \<Rightarrow> [])"

definition carries_asset :: "tx_output \<Rightarrow> bool" where
  "carries_asset out \<longleftrightarrow> is_asset_issue out = Returns True \<or> is_asset_transfer out = Returns True"

definition spent_amount :: "chain_queries \<Rightarrow> transaction_pool \<Rightarrow> tx_input \<Rightarrow> u64" where
  "spent_amount chain pool i = (case spent_output chain pool i of Some out \<Rightarrow> asset_amount_of out | None \<Rightarrow> 0)"

abbreviation asset_kind :: "input_totals \<Rightarrow> bool" where
  "asset_kind totals \<equiv> business_tp_in totals = asset_detail_type \<or> business_tp_in totals = asset_transferable_type"

lemma connect_asset_success:
  assumes "connect_asset out totals = Returns (True, amount, totals')"
  shows "amount = asset_amount_of out" "symbol_of out \<noteq> [] \<Longrightarrow> old_symbol_in totals' = symbol_of out"
    "old_symbol_in totals \<noteq> [] \<Longrightarrow> old_symbol_in totals' = old_symbol_in totals"
    "carries_asset out \<or> asset_kind totals \<Longrightarrow> asset_kind totals'"
  using assms
  by (auto simp: connect_asset_def asset_amount_of_def symbol_of_def carries_asset_def get_asset_amount_def
      get_asset_symbol_def is_asset_issue_def is_asset_transfer_def note_kind_def note_symbol_def Let_def
      bind_eq_Some_conv split: if_split_asm)

lemma connect_input_asset:
  assumes "previous_transaction chain pool (point_hash (input_previous_output i)) = Some (previous_tx, parent_height, in_pool)"
    "connect_input consensus maturity tx k previous_tx parent_height last_height flags totals = Returns (True, totals')"
    "tx_inputs tx ! k = i"
  obtains out totals1 where "spent_output chain pool i = Some out"
    "connect_asset out totals = Returns (True, asset_amount_of out, totals1)"
    "asset_amount_in totals' = asset_amount_in totals + asset_amount_of out"
    "old_symbol_in totals' = old_symbol_in totals1" "business_tp_in totals' = business_tp_in totals1"
proof -
  have out: "spent_output chain pool i = Some (tx_outputs previous_tx ! unat (point_index (input_previous_output i)))"
    using connect_input_success(1) [OF assms(2)] assms(1,3) by (simp add: spent_output_def)
  from assms(2) obtain amount totals1
    where "connect_asset (tx_outputs previous_tx ! unat (point_index (input_previous_output i))) totals = Returns (True, amount, totals1)"
      "asset_amount_in totals' = asset_amount_in totals1 + amount" "old_symbol_in totals' = old_symbol_in totals1"
      "business_tp_in totals' = business_tp_in totals1"
    unfolding connect_input_def Let_def assms(3) by (fastforce simp: bind_eq_Some_conv split: if_split_asm)
  then show ?thesis using connect_asset_success(1) connect_asset_values(2) that [OF out] by metis
qed

text \<open>Over all inputs: the amounts add up modulo $2^{64}$, and there is at most one symbol.\<close>

lemma inputs_connect_assets:
  assumes "inputs_connect consensus maturity chain pool tx last_height is k totals totals'" "is = drop k (tx_inputs tx)"
  shows "asset_amount_in totals' = asset_amount_in totals + (\<Sum>i \<leftarrow> is. spent_amount chain pool i) \<and>
    (old_symbol_in totals \<noteq> [] \<longrightarrow> old_symbol_in totals' = old_symbol_in totals) \<and>
    (\<forall>i \<in> set is. \<forall>out. spent_output chain pool i = Some out \<longrightarrow> symbol_of out \<noteq> [] \<longrightarrow> old_symbol_in totals' = symbol_of out) \<and>
    (asset_kind totals \<or> (\<exists>i \<in> set is. \<exists>out. spent_output chain pool i = Some out \<and> carries_asset out) \<longrightarrow> asset_kind totals')"
  using assms
proof (induction "is" arbitrary: k totals)
  case (Cons j js)
  note k = drop_head [OF Cons.prems(2)]
  obtain previous_tx parent_height in_pool totals1
    where prev: "previous_transaction chain pool (point_hash (input_previous_output j)) = Some (previous_tx, parent_height, in_pool)"
      and conn: "connect_input consensus maturity tx k previous_tx parent_height last_height all_enabled totals = Returns (True, totals1)"
      and rest: "inputs_connect consensus maturity chain pool tx last_height js (k + 1) totals1 totals'"
    using Cons.prems(1) by auto
  obtain out totals2 where out: "spent_output chain pool j = Some out"
    and asset: "connect_asset out totals = Returns (True, asset_amount_of out, totals2)"
    and t1: "asset_amount_in totals1 = asset_amount_in totals + asset_amount_of out"
      "old_symbol_in totals1 = old_symbol_in totals2" "business_tp_in totals1 = business_tp_in totals2"
    by (rule connect_input_asset [OF prev conn k(2)])
  note a = connect_asset_success [OF asset] and IH = Cons.IH [OF rest k(3)]
  have "asset_amount_in totals' = asset_amount_in totals + (\<Sum>i \<leftarrow> j # js. spent_amount chain pool i)"
    using IH by (simp add: t1(1) spent_amount_def out add.assoc)
  moreover have "old_symbol_in totals \<noteq> [] \<longrightarrow> old_symbol_in totals' = old_symbol_in totals" using IH a(3) t1(2) by simp
  moreover have "symbol_of out \<noteq> [] \<longrightarrow> old_symbol_in totals' = symbol_of out" using IH a(2) t1(2) by simp
  moreover have "asset_kind totals \<or> carries_asset out \<longrightarrow> asset_kind totals1" using a(4) t1(3) by auto
  ultimately show ?case using IH out by auto
qed simp

lemma add_asset_amounts_total:
  "add_asset_amounts outs acc = Returns amount \<Longrightarrow> amount = acc + (\<Sum>out \<leftarrow> outs. asset_amount_of out)"
proof (induction outs arbitrary: acc)
  case (Cons out outs)
  then obtain y where "get_asset_amount out = Returns y" "add_asset_amounts outs (acc + y) = Returns amount"
    by (auto simp: bind_eq_Some_conv)
  with Cons.IH [of "acc + y"] show ?case by (simp add: asset_amount_of_def add.assoc)
qed simp

lemma output_symbol_unique:
  "output_symbol outs old = Returns (Some symbol) \<Longrightarrow>
     (old \<noteq> [] \<longrightarrow> symbol = old) \<and> (\<forall>out \<in> set outs. symbol_of out \<noteq> [] \<longrightarrow> symbol_of out = symbol)"
proof (induction outs arbitrary: old)
  case (Cons out outs)
  then obtain new where new: "get_asset_symbol out = Returns new" by (auto simp: bind_eq_Some_conv)
  then have "symbol_of out = new" by (simp add: symbol_of_def)
  with Cons.prems new Cons.IH [of old] Cons.IH [of new] show ?case by (auto split: if_split_asm)
qed simp

lemma check_fees_assets:
  assumes "check_fees tx totals u = Returns (Success, u')" "asset_kind totals" "has_asset_transfer tx = Returns True"
  shows "asset_amount_in totals = (\<Sum>out \<leftarrow> tx_outputs tx. asset_amount_of out)"
    "\<forall>out \<in> set (tx_outputs tx). symbol_of out \<noteq> [] \<longrightarrow> symbol_of out = old_symbol_in totals"
proof -
  have checks: "check_asset_amount tx totals = Returns True" "check_asset_symbol tx totals = Returns True"
    using assms by (auto simp: check_fees_def bind_eq_Some_conv split: if_split_asm)
  then show "asset_amount_in totals = (\<Sum>out \<leftarrow> tx_outputs tx. asset_amount_of out)"
    using add_asset_amounts_total [of "tx_outputs tx" 0]
    by (auto simp: check_asset_amount_def total_output_transfer_amount_def bind_eq_Some_conv)
  show "\<forall>out \<in> set (tx_outputs tx). symbol_of out \<noteq> [] \<longrightarrow> symbol_of out = old_symbol_in totals"
    using checks(2) output_symbol_unique [of "tx_outputs tx" "[]"]
    by (auto simp: check_asset_symbol_def bind_eq_Some_conv)
qed

lemma validate_start_success:
  assumes "validate_start consensus maturity unset chain pool tx = Returns (Success, u)"
  obtains last_height where "basic_checks chain pool tx = Returns Success" "\<not> is_spent_in_pool pool tx"
    "query_transaction chain (transaction_hash tx) = None"
    "next_previous_transaction consensus maturity chain pool tx last_height (tx_inputs tx) 0 no_totals [] =
       Returns (Success, u)"
  using assms by (auto simp: validate_start_def bind_eq_Some_conv split: if_split_asm option.split_asm)

subsection \<open>The pool\<close>

definition conflict_free :: "transaction list \<Rightarrow> bool" where
  "conflict_free buffer \<longleftrightarrow> sorted_wrt (\<lambda>t u. \<forall>p. \<not> (is_spent_by_tx p t \<and> is_spent_by_tx p u)) buffer"

lemma conflict_free_push:
  assumes "conflict_free buffer" "\<forall>t \<in> set buffer. \<forall>p. \<not> (is_spent_by_tx p t \<and> is_spent_by_tx p tx)"
  shows "conflict_free (circular_push_back capacity tx buffer)"
  using assms by (cases buffer) (auto simp: conflict_free_def circular_push_back_def sorted_wrt_append)

lemma delete_oldest_package_filter:
  "\<exists>P. pool_buffer (delete_oldest_package ec pool) = filter P (pool_buffer pool)"
proof (cases "pool_stopped pool \<or> pool_buffer pool = []")
  case True
  then show ?thesis by (intro exI [of _ "\<lambda>_. True"]) (auto simp: delete_oldest_package_def split: list.split)
next
  case False
  then obtain oldest rest where oldest: "pool_buffer pool = oldest # rest" by (cases "pool_buffer pool") auto
  let ?pool = "pool\<lparr>pool_confirms := pool_confirms pool @ [(ec, oldest)]\<rparr>"
  have "delete_oldest_package ec pool = delete_packages ec [transaction_hash oldest] ?pool"
    using False by (simp add: delete_oldest_package_def delete_package_def oldest del: delete_packages.simps)
  moreover have "\<exists>P. pool_buffer (delete_packages ec [transaction_hash oldest] ?pool) = filter P (pool_buffer ?pool)"
    by (rule exI, rule delete_packages_buffer) (use False in simp)
  ultimately show ?thesis by simp
qed

lemma pool_add_conflict_free:
  assumes "conflict_free (pool_buffer pool)" "\<not> is_spent_in_pool pool tx"
  shows "conflict_free (pool_buffer (pool_add tx pool))"
proof -
  have new: "\<forall>t \<in> set (pool_buffer pool). \<forall>p. \<not> (is_spent_by_tx p t \<and> is_spent_by_tx p tx)"
    using assms(2) by (auto simp: is_spent_in_pool_def is_outpoint_spent_in_pool_def is_spent_by_tx_def list_ex_iff)
  obtain P where P: "pool_buffer (delete_oldest_package Pool_filled pool) = filter P (pool_buffer pool)"
    using delete_oldest_package_filter by blast
  have "conflict_free (filter P (pool_buffer pool))"
    using assms(1) by (simp add: conflict_free_def sorted_wrt_filter)
  with P new assms(1) show ?thesis
    by (auto simp: pool_add_def Let_def intro!: conflict_free_push)
qed

lemma pool_store_cases:
  assumes "pool_store consensus maturity unset chain tx pool = Returns (calls, pool')"
  shows "pool' = pool \<or> (\<exists>u. validate_start consensus maturity unset chain pool tx = Returns (Success, u) \<and> pool' = pool_add tx pool)"
proof (cases "pool_stopped pool")
  case False
  then obtain result where run: "validate_start consensus maturity unset chain pool tx = Returns result"
    "handle_validated result pool tx = Returns calls" "pool' = fold (\<lambda>call. do_store call tx) calls pool"
    using assms by (auto simp: pool_store_def bind_eq_Some_conv)
  obtain ec u where result: "result = (ec, u)" by fastforce
  show ?thesis
  proof (cases "ec = Success")
    case True
    then have "validate_start consensus maturity unset chain pool tx = Returns (Success, u)" using run(1) result by simp
    then obtain last_height where "basic_checks chain pool tx = Returns Success" by (rule validate_start_success)
    then have "\<not> is_in_pool pool (transaction_hash tx)" by (rule basic_checks_success)
    then show ?thesis
      using run result True False
      by (auto simp: handle_validated_def do_store_def bind_eq_Some_conv split: if_split_asm)
  next
    case False
    then show ?thesis
      using run(2,3) result \<open>\<not> pool_stopped pool\<close>
      by (auto simp: handle_validated_def do_store_def split: if_split_asm)
  qed
qed (use assms in \<open>auto simp: pool_store_def\<close>)

section \<open>A sample chain\<close>

text \<open>
  A chain of one transaction with one output. It is found under a digest of one byte, which no
  transaction hash is equal to, so that no hash has to be computed.
\<close>

definition sample_output :: "u64 \<Rightarrow> tx_output" where
  "sample_output amount = \<lparr>output_value = amount, output_script = [], output_attach_data = attachment_reset\<rparr>"

definition sample_transfer :: "u64 \<Rightarrow> u64 \<Rightarrow> tx_output" where
  "sample_transfer amount quantity =
     \<lparr>output_value = amount, output_script = [], output_attach_data =
        \<lparr>attach_version = 1, attach_type = asset_type, attach_payload = Attach_asset
           \<lparr>asset_status = asset_transferable_type,
            asset_payload = Asset_transfer \<lparr>transfer_address = [0x41], transfer_quantity = quantity\<rparr>\<rparr>\<rparr>\<rparr>"

definition sample_parent :: "tx_output \<Rightarrow> transaction" where
  "sample_parent out = \<lparr>tx_version = 1, tx_locktime = 0, tx_inputs = [], tx_outputs = [out]\<rparr>"

definition sample_chain :: "tx_output \<Rightarrow> chain_queries" where
  "sample_chain out =
     \<lparr>query_last_height = Some 10, query_header = (\<lambda>_. None), query_height = (\<lambda>_. None),
      query_transaction = (\<lambda>h. if h = [7] then Some (sample_parent out, 3) else None),
      query_spend = (\<lambda>_. None), query_asset = (\<lambda>_. False)\<rparr>"

definition sample_pool :: transaction_pool where
  "sample_pool = \<lparr>pool_stopped = False, maintain_consistency = True, pool_capacity = 10, pool_buffer = [],
     pool_confirms = []\<rparr>"

definition sample_input :: tx_input where
  "sample_input = \<lparr>input_previous_output = \<lparr>point_hash = [7], point_index = 0\<rparr>, input_script = [Op opcode_special [1]],
     input_sequence = 0\<rparr>"

definition sample_spend :: "tx_input list \<Rightarrow> tx_output \<Rightarrow> transaction" where
  "sample_spend is out = \<lparr>tx_version = 1, tx_locktime = 0, tx_inputs = is, tx_outputs = [out]\<rparr>"

lemma sample_hash: "transaction_hash tx \<noteq> [7]"
proof
  assume "transaction_hash tx = [7]"
  then have "length (bitcoin_hash (transaction_to_data tx)) = 1" by (simp add: transaction_hash_def)
  then show False by simp
qed

lemma sample_simps [simp]:
  "tx_version (sample_spend is out) = 1" "tx_inputs (sample_spend is out) = is" "tx_outputs (sample_spend is out) = [out]"
  "is_sign_key_hash_with_lock_height_pattern (input_script sample_input) = False"
  "point_is_null (input_previous_output sample_input) = False"
  "is_pay_key_hash_with_lock_height_pattern [] = False"
  "previous_transaction (sample_chain out) pool (point_hash (input_previous_output sample_input)) =
     Some (sample_parent out, 3, False)"
  "point_index (input_previous_output sample_input) = 0"
  "query_spend (sample_chain out) p = None" "query_last_height (sample_chain out) = Some 10"
  "query_transaction (sample_chain out) (transaction_hash tx) = None"
  "is_in_pool sample_pool h = False" "is_spent_in_pool sample_pool tx = False"
  "spent_output (sample_chain out) pool sample_input = Some out"
  using sample_hash [of tx]
  by (simp_all add: sample_spend_def sample_input_def is_sign_key_hash_with_lock_height_pattern_def point_is_null_def
      is_pay_key_hash_with_lock_height_pattern_def previous_transaction_def sample_chain_def is_in_pool_def pool_find_def
      sample_pool_def is_spent_in_pool_def is_outpoint_spent_in_pool_def spent_output_def sample_parent_def list_ex_iff)

lemma sample_consensus:
  assumes "is ! k = sample_input" "k < length is"
  shows "check_consensus lib [] (sample_spend is out) k all_enabled = Returns True"
proof -
  have "pattern [] = Non_standard" by code_simp
  then show ?thesis using assms
    by (simp add: check_consensus_def verify_script_def sample_input_def evaluate_def
        satoshi_content_size_def operation_serialized_size_def next_step_def increment_op_counter_def opcode_is_disabled_def
        opcode_is_empty_pusher_def greater_op_16_def conditional_succeeded_def push_stack_def fresh_context_def
        conditional_closed_def)
qed

lemma sample_connect:
  assumes "is ! k = sample_input" "k < length is" "output_script out = []" "output_value out = 100000"
    "connect_asset out totals = Returns (True, amount, totals1)"
  shows "connect_input (check_consensus lib) 100 (sample_spend is new) k (sample_parent out) 3 10 all_enabled totals =
    Returns (value_in totals1 + 100000 \<le> max_money,
      totals1\<lparr>value_in := value_in totals1 + 100000, asset_amount_in := asset_amount_in totals1 + amount\<rparr>)"
proof -
  have "\<not> max_money < (100000 :: u64)" by (simp add: max_money_def coin_price_def)
  then show ?thesis
    using sample_consensus [OF assms(1,2), of lib new] assms
    by (simp add: connect_input_def sample_parent_def is_coinbase_def Let_def)
qed

lemma sample_check:
  assumes "is = [sample_input] \<or> is = [sample_input, sample_input]"
    and out: "output_value new \<le> max_money" "output_script new = []" "output_serialized_size new \<le> 1000"
      "is_asset_issue new = Returns False"
  shows "check_transaction (sample_chain out) (sample_spend is new) = Returns Success"
proof -
  let ?tx = "sample_spend is new"
  have "input_serialized_size sample_input = 43"
    by (simp add: sample_input_def input_serialized_size_def point_satoshi_fixed_size_def script_serialized_size_def
        satoshi_content_size_def variable_uint_size_def operation_serialized_size_def)
  then have "transaction_serialized_size ?tx \<le> 1000000"
    using assms(1) out(3) by (auto simp: transaction_serialized_size_def variable_uint_size_def)
  moreover have "\<not> is_coinbase ?tx" using assms(1) by (auto simp: is_coinbase_def)
  moreover have "check_lock_heights (sample_chain out) is = Returns Success" using assms(1) by auto
  moreover have "is \<noteq> []" "\<not> (2 :: u32) \<le> 1" "\<not> (3 :: u32) \<le> 1" using assms(1) by (auto simp: word_le_nat_alt)
  ultimately show ?thesis
    using out by (simp add: check_transaction_def check_transaction_basic_def linorder_not_less)
qed

lemma sample_accepted:
  assumes "is = [sample_input] \<or> is = [sample_input, sample_input]"
    "output_value new \<le> max_money" "output_script new = []" "output_serialized_size new \<le> 1000"
    "is_asset_issue new = Returns False"
  shows "validate_start (check_consensus lib) 100 0 (sample_chain out) sample_pool (sample_spend is new) =
    next_previous_transaction (check_consensus lib) 100 (sample_chain out) sample_pool (sample_spend is new) 10 is 0 no_totals []"
proof -
  have "\<not> is_coinbase (sample_spend is new)" using assms(1) by (auto simp: is_coinbase_def)
  then show ?thesis
    using sample_check [OF assms, of out] by (simp add: validate_start_def basic_checks_def)
qed

lemma sample_outputs:
  "output_script (sample_output n) = []" "output_value (sample_output n) = n" "output_serialized_size (sample_output n) = 17"
  "is_asset_issue (sample_output n) = Returns False" "asset_amount_of (sample_output n) = 0"
  "connect_asset (sample_output n) totals = Returns (True, 0, totals)"
  "output_script (sample_transfer n q) = []" "output_value (sample_transfer n q) = n"
  "output_serialized_size (sample_transfer n q) \<le> 1000"
  "is_asset_issue (sample_transfer n q) = Returns False" "is_asset_transfer (sample_transfer n q) = Returns True"
  "get_asset_amount (sample_transfer n q) = Returns q" "asset_amount_of (sample_transfer n q) = q"
  "get_asset_symbol (sample_transfer n q) = Returns [0x41]"
  by (simp_all add: sample_output_def sample_transfer_def output_serialized_size_def script_serialized_size_def
      satoshi_content_size_def variable_uint_size_def attachment_serialized_size_def attachment_reset_def
      etp_serialized_size_def asset_serialized_size_def asset_transfer_serialized_size_def is_asset_issue_def
      is_asset_transfer_def get_asset_def asset_amount_of_def get_asset_amount_def get_asset_symbol_def connect_asset_def)

lemma sample_amounts: "(90000 :: u64) \<le> max_money" "(190000 :: u64) \<le> max_money" "(100000 :: u64) \<le> max_money"
    "(200000 :: u64) \<le> max_money" "(10000 :: u64) \<le> max_money"
  by (simp_all add: max_money_def coin_price_def)

section \<open>Properties\<close>

text \<open>
  C6: A transaction the validator accepts for the memory pool creates no money. It has inputs
  and outputs; every input spends an output that exists in the chain or in the pool, that no
  transaction of the chain and no transaction of the pool spends, and whose script the input's
  script satisfies; and the values of the outputs it spends, added up as numbers without
  wrap-around and once for every input, cover the values of its own outputs and the minimal
  fee of 10000 units, within the maximal supply.
\<close>

theorem validated_transaction_sound:
  assumes "validate_start consensus maturity unset chain pool tx = Returns (Success, unconfirmed)"
  shows "tx_inputs tx \<noteq> [] \<and> tx_outputs tx \<noteq> [] \<and>
    (\<forall>k < length (tx_inputs tx). input_connected consensus chain pool tx k \<and>
       \<not> is_outpoint_spent_in_pool pool (input_previous_output (tx_inputs tx ! k))) \<and>
    (\<Sum>out \<leftarrow> tx_outputs tx. unat (output_value out)) + 10000 \<le> (\<Sum>i \<leftarrow> tx_inputs tx. spent_value chain pool i) \<and>
    (\<Sum>i \<leftarrow> tx_inputs tx. spent_value chain pool i) \<le> 10000000000000000"
proof -
  obtain last_height where basic: "basic_checks chain pool tx = Returns Success" and fresh: "\<not> is_spent_in_pool pool tx"
    and loop: "next_previous_transaction consensus maturity chain pool tx last_height (tx_inputs tx) 0 no_totals [] =
       Returns (Success, unconfirmed)"
    by (rule validate_start_success [OF assms])
  note checked = basic_checks_success [OF basic]
  obtain totals where conn: "inputs_connect consensus maturity chain pool tx last_height (tx_inputs tx) 0 no_totals totals"
    and fee: "check_fees tx totals unconfirmed = Returns (Success, unconfirmed)"
    using input_loop_success [OF loop] by blast
  note t = inputs_connect_values [OF conn] and fees = check_fees_success [OF fee]
  have "unat (total_output_value tx) + 10000 \<le> unat (value_in totals)"
    using fees by (simp add: word_le_nat_alt unat_sub)
  moreover have "unat (value_in totals) \<le> 10000000000000000" using t(1) by (simp add: no_totals_def word_le_nat_alt)
  moreover have "\<not> is_outpoint_spent_in_pool pool (input_previous_output (tx_inputs tx ! k))"
    if "k < length (tx_inputs tx)" for k
    using fresh that by (auto simp: is_spent_in_pool_def list_ex_length)
  ultimately show ?thesis
    using t(2,3) check_basic_success(1,2) [OF checked(1)] total_output_value_exact [OF checked(1)]
    by (auto simp: no_totals_def)
qed

theorem validated_transaction_sound_witness:
  "\<forall>lib. validate_start (check_consensus lib) 100 0 (sample_chain (sample_output 100000)) sample_pool
       (sample_spend [sample_input] (sample_output 90000)) = Returns (Success, []) \<and>
     input_connected (check_consensus lib) (sample_chain (sample_output 100000)) sample_pool
       (sample_spend [sample_input] (sample_output 90000)) 0"
proof
  fix lib
  let ?chain = "sample_chain (sample_output 100000)" and ?tx = "sample_spend [sample_input] (sample_output 90000)"
  have "validate_start (check_consensus lib) 100 0 ?chain sample_pool ?tx = Returns (Success, [])"
    by (simp add: sample_accepted sample_outputs sample_amounts sample_connect no_totals_def check_fees_def tally_fees_def
        total_output_value_def)
  then show "validate_start (check_consensus lib) 100 0 ?chain sample_pool ?tx = Returns (Success, []) \<and>
     input_connected (check_consensus lib) ?chain sample_pool ?tx 0"
    using validated_transaction_sound [of "check_consensus lib" 100 0 ?chain sample_pool ?tx "[]"] by simp
qed







end
