(* ===== verification/Bucket_Chains.thy ===== *)
theory Bucket_Chains
  imports Byte_Streams
begin

text \<open>
  What the two hash tables of the database have in common: the mapped file as a function from
  positions to bytes, and chains of rows that start in the buckets of a header. A view says what
  a table's rows hold, without how they are laid out; \<open>buckets_hold\<close> connects a header and a view
  with the values stored under every key, the newest first. The lemmas say what happens to these
  values when a row is put in front of its bucket or taken out of it.
\<close>

section \<open>The mapped file\<close>

type_synonym memory = "nat \<Rightarrow> u8"

definition read_at :: "memory \<Rightarrow> nat \<Rightarrow> nat \<Rightarrow> bytes" where
  "read_at m p n = map m [p..<p + n]"

definition write_at :: "memory \<Rightarrow> nat \<Rightarrow> bytes \<Rightarrow> memory" where
  "write_at m p bs = (\<lambda>i. if p \<le> i \<and> i < p + length bs then bs ! (i - p) else m i)"

text \<open>\<open>remainder.ipp\<close>; the hash of a key is computed by the library boost and is a parameter.\<close>

definition remainder :: "(bytes \<Rightarrow> nat) \<Rightarrow> bytes \<Rightarrow> nat \<Rightarrow> nat" where
  "remainder hash key divisor = (if divisor = 0 then 0 else hash key mod divisor)"

text \<open>
  \<open>hash_table_header.ipp\<close>: a header is the list of its bucket values, and \<open>create\<close> refuses to
  make one with no buckets.
\<close>

definition header_create :: "'v \<Rightarrow> nat \<Rightarrow> 'v list option" where
  "header_create none buckets = (if buckets = 0 then None else Some (replicate buckets none))"

lemma length_read_at [simp]: "length (read_at m p n) = n"
  by (simp add: read_at_def)

lemma read_at_cong: "(\<And>i. p \<le> i \<Longrightarrow> i < p + n \<Longrightarrow> m i = m' i) \<Longrightarrow> read_at m p n = read_at m' p n"
  by (simp add: read_at_def)

lemma read_write_same: "length bs = n \<Longrightarrow> read_at (write_at m p bs) p n = bs"
  by (auto simp: read_at_def write_at_def intro!: nth_equalityI)

lemma read_write_other:
  "p + n \<le> q \<or> q + length bs \<le> p \<Longrightarrow> read_at (write_at m q bs) p n = read_at m p n"
  by (rule read_at_cong) (auto simp: write_at_def)

lemma write_at_other: "i < p \<or> p + length bs \<le> i \<Longrightarrow> write_at m p bs i = m i"
  by (auto simp: write_at_def)

lemma unat_u64_less: "unat (x :: u64) < 2 ^ 64"
  using unsigned_less [of x, where ?'a = nat] by simp

lemma unat_add_u64: "unat x + unat y < 2 ^ 64 \<Longrightarrow> unat (x + y :: u64) = unat x + unat y"
  using unat_add_lem [of x y] by simp

section \<open>Chains of rows\<close>

record ('i, 'v) rows =
  next_row :: "'i \<Rightarrow> 'i"
  key_of :: "'i \<Rightarrow> bytes"
  value_of :: "'i \<Rightarrow> 'v"
  is_row :: "'i \<Rightarrow> bool"

fun chain :: "('i \<Rightarrow> 'i) \<Rightarrow> 'i \<Rightarrow> 'i \<Rightarrow> 'i list \<Rightarrow> bool" where
  "chain next stop p [] \<longleftrightarrow> p = stop"
| "chain next stop p (q # qs) \<longleftrightarrow> p = q \<and> q \<noteq> stop \<and> chain next stop (next q) qs"

definition chain_values :: "('i, 'v) rows \<Rightarrow> 'i list \<Rightarrow> bytes \<Rightarrow> 'v list" where
  "chain_values V ps key = map (value_of V) (filter (\<lambda>p. key_of V p = key) ps)"

definition bucket_chain ::
  "('i::linorder, 'v) rows \<Rightarrow> 'i \<Rightarrow> (bytes \<Rightarrow> nat) \<Rightarrow> 'i list \<Rightarrow> nat \<Rightarrow> 'i list \<Rightarrow> bool" where
  "bucket_chain V stop idx header b ps \<longleftrightarrow>
     chain (next_row V) stop (header ! b) ps \<and> sorted_wrt (\<lambda>p q. q < p) ps \<and>
     (\<forall>p \<in> set ps. is_row V p \<and> idx (key_of V p) = b)"

definition buckets_hold ::
  "('i::linorder, 'v) rows \<Rightarrow> 'i \<Rightarrow> (bytes \<Rightarrow> nat) \<Rightarrow> 'i list \<Rightarrow> (bytes \<Rightarrow> 'v list) \<Rightarrow> bool" where
  "buckets_hold V stop idx header content \<longleftrightarrow>
     (\<forall>key. idx key < length header) \<and>
     (\<exists>ps. (\<forall>b < length header. bucket_chain V stop idx header b (ps b)) \<and>
        (\<forall>key. content key = chain_values V (ps (idx key)) key))"

lemma buckets_holdE:
  assumes "buckets_hold V stop idx header content"
  obtains ps where "\<And>b. b < length header \<Longrightarrow> bucket_chain V stop idx header b (ps b)"
    "\<And>key. content key = chain_values V (ps (idx key)) key" "\<And>key. idx key < length header"
  using assms by (auto simp: buckets_hold_def)

lemma buckets_holdI:
  assumes "\<And>b. b < length header \<Longrightarrow> bucket_chain V stop idx header b (ps b)"
    "\<And>key. content key = chain_values V (ps (idx key)) key" "\<And>key. idx key < length header"
  shows "buckets_hold V stop idx header content"
  unfolding buckets_hold_def using assms by blast

lemma chain_cong: "(\<And>q. q \<in> set ps \<Longrightarrow> next' q = next q) \<Longrightarrow> chain next' stop p ps = chain next stop p ps"
  by (induction ps arbitrary: p) auto

lemma chain_values_cong:
  assumes "\<And>p. p \<in> set ps \<Longrightarrow> key_of V' p = key_of V p" "\<And>p. p \<in> set ps \<Longrightarrow> value_of V' p = value_of V p"
  shows "chain_values V' ps key = chain_values V ps key"
proof -
  have "filter (\<lambda>p. key_of V' p = key) ps = filter (\<lambda>p. key_of V p = key) ps"
    using assms(1) by (intro filter_cong) auto
  then show ?thesis using assms(2) by (auto simp: chain_values_def)
qed

lemma chain_progress:
  "chain next stop p (q # ps) \<Longrightarrow> sorted_wrt (\<lambda>p q. q < p) (q # ps) \<Longrightarrow> next q \<noteq> (q :: 'i::linorder)"
  by (cases ps) auto

lemma content_in_bucket:
  assumes "buckets_hold V stop idx header content"
  obtains ps where "chain (next_row V) stop (header ! idx key) ps" "sorted_wrt (\<lambda>p q. q < p) ps"
    "content key = chain_values V ps key" "\<And>p. p \<in> set ps \<Longrightarrow> is_row V p"
proof -
  obtain ps where ps: "\<And>b. b < length header \<Longrightarrow> bucket_chain V stop idx header b (ps b)"
    "\<And>key. content key = chain_values V (ps (idx key)) key" "\<And>key. idx key < length header"
    using buckets_holdE [OF assms] by metis
  have "bucket_chain V stop idx header (idx key) (ps (idx key))" using ps(1,3) by blast
  then show ?thesis using ps(2) by (intro that [of "ps (idx key)"]) (auto simp: bucket_chain_def)
qed

lemma content_rows:
  assumes "buckets_hold V stop idx header content" "v \<in> set (content key)"
  obtains p where "is_row V p" "v = value_of V p" "key_of V p = key"
proof -
  obtain ps where "content key = chain_values V ps key" "\<And>p. p \<in> set ps \<Longrightarrow> is_row V p"
    by (rule content_in_bucket [OF assms(1), of key]) blast
  moreover from this assms(2) obtain p where "p \<in> set ps" "v = value_of V p" "key_of V p = key"
    by (auto simp: chain_values_def)
  ultimately show ?thesis using that by blast
qed

lemma buckets_hold_empty:
  "0 < n \<Longrightarrow> (\<And>key. idx key < n) \<Longrightarrow> buckets_hold V stop idx (replicate n stop) (\<lambda>_. [])"
  by (rule buckets_holdI [of _ _ _ _ "\<lambda>_. []"]) (auto simp: bucket_chain_def chain_values_def)

text \<open>Values that change in place.\<close>

lemma buckets_hold_map:
  assumes hold: "buckets_hold V stop idx header content"
    and rows: "\<And>p. is_row V p \<Longrightarrow> key_of V' p = key_of V p \<and> next_row V' p = next_row V p \<and>
      value_of V' p = f (value_of V p) \<and> is_row V' p"
  shows "buckets_hold V' stop idx header (\<lambda>key. map f (content key))"
proof -
  obtain ps where ps: "\<And>b. b < length header \<Longrightarrow> bucket_chain V stop idx header b (ps b)"
    "\<And>key. content key = chain_values V (ps (idx key)) key" "\<And>key. idx key < length header"
    using buckets_holdE [OF hold] by metis
  have row: "is_row V p" if "b < length header" "p \<in> set (ps b)" for b p
    using ps(1) [OF that(1)] that(2) by (auto simp: bucket_chain_def)
  show ?thesis
  proof (rule buckets_holdI [of _ _ _ _ ps])
    fix b assume b: "b < length header"
    have "chain (next_row V') stop (header ! b) (ps b) = chain (next_row V) stop (header ! b) (ps b)"
      using row [OF b] rows by (intro chain_cong) simp
    then show "bucket_chain V' stop idx header b (ps b)"
      using ps(1) [OF b] row [OF b] rows by (simp add: bucket_chain_def)
  next
    fix key
    have "filter (\<lambda>p. key_of V' p = key) (ps (idx key)) = filter (\<lambda>p. key_of V p = key) (ps (idx key))"
      using row [OF ps(3)] rows by (intro filter_cong) auto
    then show "map f (content key) = chain_values V' (ps (idx key)) key"
      using row [OF ps(3)] rows by (auto simp: ps(2) chain_values_def)
  qed (rule ps(3))
qed

section \<open>A new row in front of its bucket\<close>

lemma buckets_hold_add:
  assumes hold: "buckets_hold V stop idx header content"
    and old: "\<And>p. is_row V p \<Longrightarrow> key_of V' p = key_of V p \<and> next_row V' p = next_row V p \<and>
      value_of V' p = value_of V p \<and> is_row V' p \<and> p < n"
    and new: "is_row V' n" "n \<noteq> stop" "key_of V' n = key" "next_row V' n = header ! idx key"
    and header: "header' = header[idx key := n]"
  shows "buckets_hold V' stop idx header' (content(key := value_of V' n # content key))"
proof -
  obtain ps where chains: "\<And>b. b < length header \<Longrightarrow> bucket_chain V stop idx header b (ps b)"
    and content: "\<And>key. content key = chain_values V (ps (idx key)) key" and idx: "\<And>key. idx key < length header"
    using buckets_holdE [OF hold] by metis
  let ?ps = "ps(idx key := n # ps (idx key))"
  have row: "is_row V p" if "b < length header" "p \<in> set (ps b)" for b p
    using chains [OF that(1)] that(2) by (auto simp: bucket_chain_def)
  have kept: "chain (next_row V') stop q (ps b) = chain (next_row V) stop q (ps b)" "chain_values V' (ps b) k = chain_values V (ps b) k"
    if "b < length header" for b q k
    using row [OF that] old by (auto intro!: chain_cong chain_values_cong)
  have "bucket_chain V' stop idx header' b (?ps b)" if b: "b < length header" for b
    using chains [OF b] kept(1) [OF b] row [OF b] old new b
    by (auto simp: bucket_chain_def header)
  moreover have "(content(key := value_of V' n # content key)) k = chain_values V' (?ps (idx k)) k" for k
    using content [of k] kept(2) [OF idx, of k k] new(3) by (auto simp: chain_values_def)
  ultimately show ?thesis using idx by (intro buckets_holdI [of _ _ _ _ ?ps]) (simp_all add: header)
qed

section \<open>Taking out the first row of a key\<close>

lemma chain_remove:
  assumes "chain next stop p (xs @ r # q # ys)" "distinct (xs @ r # q # ys)"
    "\<And>s. s \<in> set (xs @ ys) \<Longrightarrow> next' s = next s" "next' r = next q"
  shows "chain next' stop p (xs @ r # ys)"
  using assms
proof (induction xs arbitrary: p)
  case Nil
  then have "chain next' stop (next q) ys = chain next stop (next q) ys" by (intro chain_cong) simp
  with Nil show ?case by simp
qed auto

lemma chain_values_remove:
  assumes "key_of V q = key" "\<forall>p \<in> set xs. key_of V p \<noteq> key"
  shows "chain_values V (xs @ ys) k =
    (if k = key then tl (chain_values V (xs @ q # ys) k) else chain_values V (xs @ q # ys) k)"
  using assms by (auto simp: chain_values_def filter_empty_conv)

lemma buckets_hold_remove:
  assumes hold: "\<And>b. b < length header \<Longrightarrow> bucket_chain V stop idx header b (ps b)"
      "\<And>key. content key = chain_values V (ps (idx key)) key" "\<And>key. idx key < length header"
    and split: "ps (idx key) = xs @ q # ys" "key_of V q = key" "\<forall>p \<in> set xs. key_of V p \<noteq> key"
    and rows: "\<And>p. is_row V p \<Longrightarrow> key_of V' p = key_of V p \<and> value_of V' p = value_of V p \<and> is_row V' p"
    and own: "chain (next_row V') stop (header' ! idx key) (xs @ ys)"
    and others: "\<And>b. b < length header \<Longrightarrow> b \<noteq> idx key \<Longrightarrow> chain (next_row V') stop (header' ! b) (ps b)"
    and header: "length header' = length header"
  shows "buckets_hold V' stop idx header' (content(key := tl (content key)))"
proof -
  let ?ps = "ps(idx key := xs @ ys)"
  have row: "is_row V p" if "b < length header" "p \<in> set (ps b)" for b p
    using hold(1) [OF that(1)] that(2) by (auto simp: bucket_chain_def)
  have "bucket_chain V' stop idx header' b (?ps b)" if b: "b < length header" for b
    using hold(1) [OF b] row [OF b] rows own others [OF b] split(1)
    by (auto simp: bucket_chain_def sorted_wrt_append)
  moreover have "(content(key := tl (content key))) k = chain_values V' (?ps (idx k)) k" for k
  proof -
    have kept: "chain_values V' zs k = chain_values V zs k" if "set zs \<subseteq> set (ps (idx k))" for zs
      using that rows row [OF hold(3)] by (intro chain_values_cong) auto
    have "chain_values V' (?ps (idx k)) k = chain_values V (?ps (idx k)) k"
      by (rule kept) (auto simp: split(1) split: if_split_asm)
    then show ?thesis
      using hold(2) [of k] chain_values_remove [OF split(2,3), of ys k] split(1) by (auto simp: fun_upd_def)
  qed
  ultimately show ?thesis using hold(3) by (intro buckets_holdI [of _ _ _ _ ?ps]) (simp_all add: header)
qed

text \<open>From the front of its bucket, and from behind another row.\<close>

lemma buckets_hold_remove_front:
  assumes hold: "\<And>b. b < length header \<Longrightarrow> bucket_chain V stop idx header b (ps b)"
      "\<And>key. content key = chain_values V (ps (idx key)) key" "\<And>key. idx key < length header"
    and ps: "ps (idx key) = q # qs" "key_of V q = key"
  shows "buckets_hold V stop idx (header[idx key := next_row V q]) (content(key := tl (content key)))"
proof (rule buckets_hold_remove [OF hold, of key "[]" q qs])
  show "chain (next_row V) stop (header[idx key := next_row V q] ! idx key) ([] @ qs)"
    using hold(1) [OF hold(3), of key] hold(3) ps(1) by (simp add: bucket_chain_def)
  show "chain (next_row V) stop (header[idx key := next_row V q] ! b) (ps b)" if "b < length header" "b \<noteq> idx key" for b
    using hold(1) that by (auto simp: bucket_chain_def)
qed (use ps in auto)

lemma buckets_hold_remove_behind:
  assumes hold: "\<And>b. b < length header \<Longrightarrow> bucket_chain V stop idx header b (ps b)"
      "\<And>key. content key = chain_values V (ps (idx key)) key" "\<And>key. idx key < length header"
    and ps: "ps (idx key) = (zs @ [r]) @ q # ys" "key_of V q = key" "\<forall>p \<in> set (zs @ [r]). key_of V p \<noteq> key"
    and rows: "\<And>p. is_row V p \<Longrightarrow> key_of V' p = key_of V p \<and> value_of V' p = value_of V p \<and> is_row V' p \<and>
      next_row V' p = (if p = r then next_row V q else next_row V p)"
  shows "buckets_hold V' stop idx header (content(key := tl (content key)))"
proof (rule buckets_hold_remove [OF hold, of key "zs @ [r]" q ys])
  have row: "is_row V p \<and> idx (key_of V p) = b" if "b < length header" "p \<in> set (ps b)" for b p
    using hold(1) [OF that(1)] that(2) by (auto simp: bucket_chain_def)
  have bc: "chain (next_row V) stop (header ! idx key) (zs @ r # q # ys)" "sorted_wrt (\<lambda>p q. q < p) (zs @ r # q # ys)"
    using hold(1) [OF hold(3), of key] ps(1) by (simp_all add: bucket_chain_def)
  then have "distinct (zs @ r # q # ys)"
    by (auto simp: sorted_wrt_append distinct_conv_nth sorted_wrt_iff_nth_less) (metis linorder_neqE_nat order_less_irrefl)
  then show "chain (next_row V') stop (header ! idx key) ((zs @ [r]) @ ys)"
    using bc(1) rows row [OF hold(3), of _ key] ps(1)
    by (auto intro!: chain_remove [of "next_row V" stop _ zs r q ys, simplified])
  show "chain (next_row V') stop (header ! b) (ps b)" if b: "b < length header" "b \<noteq> idx key" for b
  proof -
    have "r \<notin> set (ps b)" using row [OF b(1), of r] row [OF hold(3), of r key] ps(1) b(2) by auto
    then have "chain (next_row V') stop (header ! b) (ps b) = chain (next_row V) stop (header ! b) (ps b)"
      using rows row [OF b(1)] by (intro chain_cong) auto
    then show ?thesis using hold(1) [OF b(1)] by (simp add: bucket_chain_def)
  qed
qed (use ps rows in auto)

section \<open>Walking along a chain\<close>

text \<open>
  The loops of \<open>find\<close> and \<open>unlink\<close>, which the two tables share: they end at \<open>stop\<close>, at the first
  row with the key, and at a row that is its own next row. On a chain they end.
\<close>

locale chain_walk =
  fixes next_of :: "'t \<Rightarrow> 'i::linorder \<Rightarrow> 'i"
    and key_at :: "'t \<Rightarrow> 'i \<Rightarrow> bytes"
    and stop :: 'i
    and datum :: "'t \<Rightarrow> 'i \<Rightarrow> 'd"
    and walk_find :: "'t \<Rightarrow> bytes \<Rightarrow> 'i \<Rightarrow> 'd option outcome"
    and walk_collect :: "'t \<Rightarrow> 'i \<Rightarrow> 'd list outcome"
    and relink :: "'i \<Rightarrow> 'i \<Rightarrow> 't \<Rightarrow> 't"
    and walk_unlink :: "'t \<Rightarrow> bytes \<Rightarrow> 'i \<Rightarrow> 'i \<Rightarrow> (bool \<times> 't) outcome"
  assumes walk_find: "walk_find t key current =
      (if current = stop then Returns None
       else if key_at t current = key then Returns (Some (datum t current))
       else if next_of t current = current then Returns None
       else walk_find t key (next_of t current))"
    and walk_collect: "walk_collect t current =
      (if current = stop then Returns []
       else if next_of t current = current then Returns [datum t current]
       else do { rest \<leftarrow> walk_collect t (next_of t current); Returns (datum t current # rest) })"
    and walk_unlink: "walk_unlink t key previous current =
      (if current = stop then Returns (False, t)
       else if key_at t current = key then Returns (True, relink previous (next_of t current) t)
       else if next_of t current = current then Returns (False, t)
       else walk_unlink t key current (next_of t current))"
begin

lemma walk_find_chain:
  "chain (next_of t) stop p ps \<Longrightarrow> sorted_wrt (\<lambda>p q. q < p) ps \<Longrightarrow>
     walk_find t key p = Returns (case filter (\<lambda>p. key_at t p = key) ps of [] \<Rightarrow> None | q # _ \<Rightarrow> Some (datum t q))"
proof (induction ps arbitrary: p)
  case Nil
  then show ?case by (subst walk_find) simp
next
  case (Cons q qs)
  have "next_of t q \<noteq> q" using chain_progress Cons.prems by metis
  with Cons show ?case by (subst walk_find) auto
qed

lemma walk_collect_chain:
  "chain (next_of t) stop p ps \<Longrightarrow> sorted_wrt (\<lambda>p q. q < p) ps \<Longrightarrow> walk_collect t p = Returns (map (datum t) ps)"
proof (induction ps arbitrary: p)
  case Nil
  then show ?case by (subst walk_collect) simp
next
  case (Cons q qs)
  have "next_of t q \<noteq> q" using chain_progress Cons.prems by metis
  with Cons show ?case by (subst walk_collect) auto
qed

lemma walk_unlink_chain:
  assumes "chain (next_of t) stop p qs" "sorted_wrt (\<lambda>p q. q < p) (prev # qs)" "\<exists>q \<in> set qs. key_at t q = key"
  shows "\<exists>xs q ys. qs = xs @ q # ys \<and> key_at t q = key \<and> (\<forall>p \<in> set xs. key_at t p \<noteq> key) \<and>
    walk_unlink t key prev p = Returns (True, relink (last (prev # xs)) (next_of t q) t)"
  using assms
proof (induction qs arbitrary: prev p)
  case (Cons q qs)
  have next_q: "next_of t q \<noteq> q" using chain_progress [of "next_of t" stop p q qs] Cons.prems by simp
  show ?case
  proof (cases "key_at t q = key")
    case True
    then have "walk_unlink t key prev p = Returns (True, relink prev (next_of t q) t)"
      using Cons.prems(1) by (subst walk_unlink) simp
    with True show ?thesis by (intro exI [of _ "[]"]) auto
  next
    case False
    then have step: "walk_unlink t key prev p = walk_unlink t key q (next_of t q)"
      using Cons.prems(1) next_q by (subst walk_unlink) simp
    have "chain (next_of t) stop (next_of t q) qs" "sorted_wrt (\<lambda>p q. q < p) (q # qs)" "\<exists>q \<in> set qs. key_at t q = key"
      using Cons.prems False by auto
    from Cons.IH [OF this] obtain xs q' ys
      where "qs = xs @ q' # ys" "key_at t q' = key" "\<forall>p \<in> set xs. key_at t p \<noteq> key"
        "walk_unlink t key q (next_of t q) = Returns (True, relink (last (q # xs)) (next_of t q') t)"
      by blast
    with step False show ?thesis by (intro exI [of _ "q # xs"] exI [of _ q'] exI [of _ ys]) auto
  qed
qed simp

end

section \<open>A table of buckets\<close>

text \<open>
  A table with a header of buckets: \<open>layout t r\<close> says that its file is laid out as the rows \<open>r\<close>.
  Linking a bucket changes the header only; relinking a row changes the next row of this row only.
\<close>

locale bucket_table = chain_walk next_of key_at stop datum walk_find walk_collect relink walk_unlink
  for next_of :: "'t \<Rightarrow> 'i::linorder \<Rightarrow> 'i" and key_at :: "'t \<Rightarrow> 'i \<Rightarrow> bytes" and stop :: 'i
    and datum :: "'t \<Rightarrow> 'i \<Rightarrow> 'd" and walk_find :: "'t \<Rightarrow> bytes \<Rightarrow> 'i \<Rightarrow> 'd option outcome"
    and walk_collect :: "'t \<Rightarrow> 'i \<Rightarrow> 'd list outcome" and relink :: "'i \<Rightarrow> 'i \<Rightarrow> 't \<Rightarrow> 't"
    and walk_unlink :: "'t \<Rightarrow> bytes \<Rightarrow> 'i \<Rightarrow> 'i \<Rightarrow> (bool \<times> 't) outcome" +
  fixes header :: "'t \<Rightarrow> 'i list"
    and bucket :: "'t \<Rightarrow> bytes \<Rightarrow> nat"
    and link :: "bytes \<Rightarrow> 'i \<Rightarrow> 't \<Rightarrow> 't"
    and layout :: "'t \<Rightarrow> 'r \<Rightarrow> bool"
    and row_in :: "'r \<Rightarrow> 'i \<Rightarrow> bool"
    and value_in :: "'t \<Rightarrow> 'r \<Rightarrow> 'i \<Rightarrow> 'd \<times> 'v"
    and stored :: "'t \<Rightarrow> (bytes \<Rightarrow> ('d \<times> 'v) list) \<Rightarrow> bool"
    and table_find :: "'t \<Rightarrow> bytes \<Rightarrow> 'd option outcome"
    and table_unlink :: "bytes \<Rightarrow> 't \<Rightarrow> (bool \<times> 't) outcome"
  assumes stored: "stored t content \<longleftrightarrow> (\<exists>r. layout t r \<and>
      buckets_hold \<lparr>next_row = next_of t, key_of = key_at t, value_of = value_in t r, is_row = row_in r\<rparr>
        stop (bucket t) (header t) content)"
    and fst_value_in: "fst (value_in t r p) = datum t p"
    and table_find: "table_find t key = walk_find t key (header t ! bucket t key)"
    and table_unlink: "header t ! bucket t key \<noteq> stop \<Longrightarrow> table_unlink key t =
      (if key_at t (header t ! bucket t key) = key
       then Returns (True, link key (next_of t (header t ! bucket t key)) t)
       else walk_unlink t key (header t ! bucket t key) (next_of t (header t ! bucket t key)))"
    and link: "header (link key p t) = (header t)[bucket t key := p]" "bucket (link key p t) = bucket t"
      "next_of (link key p t) = next_of t" "key_at (link key p t) = key_at t"
      "value_in (link key p t) = value_in t" "layout (link key p t) = layout t"
    and relink: "header (relink p n t) = header t" "bucket (relink p n t) = bucket t"
      "layout (relink p n t) = layout t"
    and relink_row: "layout t r \<Longrightarrow> row_in r p \<Longrightarrow> row_in r q \<Longrightarrow> key_at (relink p n t) q = key_at t q"
      "layout t r \<Longrightarrow> row_in r p \<Longrightarrow> row_in r q \<Longrightarrow> value_in (relink p n t) r q = value_in t r q"
      "layout t r \<Longrightarrow> row_in r p \<Longrightarrow> row_in r q \<Longrightarrow> next_of (relink p n t) q = (if q = p then n else next_of t q)"
begin

lemma find_stored:
  assumes "stored t content"
  shows "table_find t key = Returns (case content key of [] \<Rightarrow> None | (d, _) # _ \<Rightarrow> Some d)"
proof -
  obtain r where r: "buckets_hold \<lparr>next_row = next_of t, key_of = key_at t, value_of = value_in t r, is_row = row_in r\<rparr>
      stop (bucket t) (header t) content" using assms by (auto simp: stored)
  obtain ps where ps: "chain (next_of t) stop (header t ! bucket t key) ps" "sorted_wrt (\<lambda>p q. q < p) ps"
    and content: "content key = map (value_in t r) (filter (\<lambda>p. key_at t p = key) ps)"
    by (rule content_in_bucket [OF r, of key]) (auto simp: chain_values_def)
  show ?thesis
    unfolding table_find walk_find_chain [OF ps] content
    using fst_value_in [of t r] by (auto split: list.split) (metis fst_conv)
qed

lemma unlink_stored:
  assumes "stored t content" and present: "content key \<noteq> []"
  shows "\<exists>t'. table_unlink key t = Returns (True, t') \<and> stored t' (content(key := tl (content key))) \<and>
    (\<exists>p n. t' = link key p t \<or> t' = relink p n t)"
proof -
  obtain r where layout: "layout t r"
    and hold: "buckets_hold \<lparr>next_row = next_of t, key_of = key_at t, value_of = value_in t r, is_row = row_in r\<rparr>
      stop (bucket t) (header t) content" (is "buckets_hold ?V _ _ _ _") using assms by (auto simp: stored)
  obtain ps where chains: "\<And>b. b < length (header t) \<Longrightarrow> bucket_chain ?V stop (bucket t) (header t) b (ps b)"
    and content: "\<And>key. content key = chain_values ?V (ps (bucket t key)) key"
    and less: "\<And>key. bucket t key < length (header t)"
    using buckets_holdE [OF hold] by metis
  obtain front qs where ps: "ps (bucket t key) = front # qs"
    using present content [of key] by (cases "ps (bucket t key)") (auto simp: chain_values_def)
  have bc: "header t ! bucket t key = front" "front \<noteq> stop" "chain (next_of t) stop (next_of t front) qs"
      "sorted_wrt (\<lambda>p q. q < p) (front # qs)"
    and rows: "\<And>p. p \<in> set (front # qs) \<Longrightarrow> row_in r p"
    using chains [OF less, of key] ps by (simp_all add: bucket_chain_def) blast
  show ?thesis
  proof (cases "key_at t front = key")
    case True
    have "stored (link key (next_of t front) t) (content(key := tl (content key)))"
      unfolding stored using buckets_hold_remove_front [OF chains content less ps] True layout
      by (intro exI [of _ r]) (simp add: link)
    then show ?thesis using True bc table_unlink [of t key] by auto
  next
    case False
    then have "\<exists>q \<in> set qs. key_at t q = key"
      using present content [of key] ps by (auto simp: chain_values_def filter_empty_conv)
    from walk_unlink_chain [OF bc(3,4) this] obtain xs q ys
      where qs: "qs = xs @ q # ys" and q: "key_at t q = key" "\<forall>p \<in> set xs. key_at t p \<noteq> key"
      and run: "walk_unlink t key front (next_of t front) = Returns (True, relink (last (front # xs)) (next_of t q) t)"
      by blast
    obtain zs s where zs: "front # xs = zs @ [s]" by (metis rev_exhaust list.discI)
    have s: "row_in r s" using rows [of s] qs zs by (metis Un_iff append_Cons in_set_conv_decomp set_append)
    let ?t = "relink s (next_of t q) t"
    have "stored ?t (content(key := tl (content key)))"
      unfolding stored
    proof (intro exI conjI)
      show "layout ?t r" using layout by (simp add: relink)
      have "ps (bucket t key) = (zs @ [s]) @ q # ys" using ps qs zs by (metis append_Cons)
      moreover have "\<forall>p \<in> set (zs @ [s]). key_at t p \<noteq> key" using False q(2) unfolding zs [symmetric] by auto
      ultimately show "buckets_hold \<lparr>next_row = next_of ?t, key_of = key_at ?t, value_of = value_in ?t r, is_row = row_in r\<rparr>
          stop (bucket ?t) (header ?t) (content(key := tl (content key)))"
        unfolding relink using q(1) relink_row [OF layout s]
        by (intro buckets_hold_remove_behind [OF chains content less]) auto
    qed
    moreover have "table_unlink key t = Returns (True, ?t)"
      using False bc table_unlink [of t key] run by (simp add: zs del: last.simps)
    ultimately show ?thesis by blast
  qed
qed

end

section \<open>The contract of a table\<close>

text \<open>
  What the databases rely on: a store is a stack of values for every key. The operations on a
  store, and their meaning on the stacks: popping an empty stack is not allowed.
\<close>

datatype 'v store_op = Push bytes 'v | Pop bytes

primrec spec_step :: "'v store_op \<Rightarrow> (bytes \<Rightarrow> 'v list) \<Rightarrow> (bytes \<Rightarrow> 'v list) option" where
  "spec_step (Push key v) stacks = Some (stacks(key := v # stacks key))"
| "spec_step (Pop key) stacks = (if stacks key = [] then None else Some (stacks(key := tl (stacks key))))"

primrec spec_run :: "'v store_op list \<Rightarrow> (bytes \<Rightarrow> 'v list) \<Rightarrow> (bytes \<Rightarrow> 'v list) option" where
  "spec_run [] stacks = Some stacks"
| "spec_run (p # ops) stacks = Option.bind (spec_step p stacks) (spec_run ops)"

primrec store_step ::
  "(bytes \<Rightarrow> 'v \<Rightarrow> 't \<Rightarrow> 't outcome) \<Rightarrow> (bytes \<Rightarrow> 't \<Rightarrow> 't outcome) \<Rightarrow> 'v store_op \<Rightarrow> 't \<Rightarrow> 't outcome" where
  "store_step push pop (Push key v) t = push key v t"
| "store_step push pop (Pop key) t = pop key t"

primrec store_run ::
  "(bytes \<Rightarrow> 'v \<Rightarrow> 't \<Rightarrow> 't outcome) \<Rightarrow> (bytes \<Rightarrow> 't \<Rightarrow> 't outcome) \<Rightarrow> 'v store_op list \<Rightarrow> 't \<Rightarrow> 't outcome" where
  "store_run push pop [] t = Returns t"
| "store_run push pop (p # ops) t = do { t \<leftarrow> store_step push pop p t; store_run push pop ops t }"

primrec pushed :: "'v store_op list \<Rightarrow> (bytes \<times> 'v) list" where
  "pushed [] = []"
| "pushed (p # ops) = (case p of Push key v \<Rightarrow> [(key, v)] | Pop _ \<Rightarrow> []) @ pushed ops"

text \<open>
  \<open>shape\<close> is what no operation changes. A value of the right size can be pushed while there is room
  for it.
\<close>

locale stack_map =
  fixes holds :: "'t \<Rightarrow> (bytes \<Rightarrow> 'v list) \<Rightarrow> bool"
    and push :: "bytes \<Rightarrow> 'v \<Rightarrow> 't \<Rightarrow> 't outcome"
    and pop :: "bytes \<Rightarrow> 't \<Rightarrow> 't outcome"
    and shape :: "'t \<Rightarrow> 's"
    and sized :: "'s \<Rightarrow> bytes \<Rightarrow> 'v \<Rightarrow> bool"
    and cost :: "'s \<Rightarrow> 'v \<Rightarrow> nat"
    and room :: "'t \<Rightarrow> nat"
  assumes push: "holds t stacks \<Longrightarrow> sized (shape t) key v \<Longrightarrow> cost (shape t) v \<le> room t \<Longrightarrow>
      \<exists>t'. push key v t = Returns t' \<and> holds t' (stacks(key := v # stacks key)) \<and>
        shape t' = shape t \<and> room t \<le> room t' + cost (shape t) v"
    and pop: "holds t stacks \<Longrightarrow> stacks key \<noteq> [] \<Longrightarrow>
      \<exists>t'. pop key t = Returns t' \<and> holds t' (stacks(key := tl (stacks key))) \<and>
        shape t' = shape t \<and> room t \<le> room t'"
begin

text \<open>Every sequence of operations that is allowed on the stacks runs to its end and keeps the relation and the shape.\<close>

lemma run_simulates:
  assumes "holds t stacks" "spec_run ops stacks = Some stacks'"
    "\<forall>(key, v) \<in> set (pushed ops). sized (shape t) key v" "(\<Sum>(key, v) \<leftarrow> pushed ops. cost (shape t) v) \<le> room t"
  shows "\<exists>t'. store_run push pop ops t = Returns t' \<and> holds t' stacks' \<and> shape t' = shape t"
  using assms
proof (induction ops arbitrary: t stacks)
  case (Cons p ops)
  show ?case
  proof (cases p)
    case (Push key v)
    then obtain t' where t': "push key v t = Returns t'" "holds t' (stacks(key := v # stacks key))"
      "shape t' = shape t" "room t \<le> room t' + cost (shape t) v"
      using push [OF Cons.prems(1), of key v] Cons.prems(3,4) by fastforce
    have "spec_run ops (stacks(key := v # stacks key)) = Some stacks'" using Cons.prems(2) Push by simp
    from Cons.IH [OF t'(2) this] show ?thesis using t' Cons.prems(3,4) Push by simp
  next
    case (Pop key)
    then obtain t' where t': "pop key t = Returns t'" "holds t' (stacks(key := tl (stacks key)))"
      "shape t' = shape t" "room t \<le> room t'"
      using pop [OF Cons.prems(1), of key] Cons.prems(2) by (auto split: if_split_asm)
    have "spec_run ops (stacks(key := tl (stacks key))) = Some stacks'"
      using Cons.prems(2) Pop by (simp split: if_split_asm)
    from Cons.IH [OF t'(2) this] show ?thesis using t' Cons.prems(3,4) Pop by simp
  qed
qed simp

end

text \<open>
  The hash tables: \<open>find\<close> returns where the newest value of a key is, and \<open>reads t d v\<close> says that
  \<open>v\<close> is there. The contents carry these places.
\<close>

locale keyed_store =
  fixes stored :: "'t \<Rightarrow> (bytes \<Rightarrow> ('d \<times> 'v) list) \<Rightarrow> bool"
    and reads :: "'t \<Rightarrow> 'd \<Rightarrow> 'v \<Rightarrow> bool"
    and find :: "'t \<Rightarrow> bytes \<Rightarrow> 'd option outcome"
    and store :: "bytes \<Rightarrow> 'v \<Rightarrow> 't \<Rightarrow> 't"
    and unlink :: "bytes \<Rightarrow> 't \<Rightarrow> (bool \<times> 't) outcome"
    and shape :: "'t \<Rightarrow> 's"
    and sized :: "'s \<Rightarrow> bytes \<Rightarrow> 'v \<Rightarrow> bool"
    and cost :: "'s \<Rightarrow> 'v \<Rightarrow> nat"
    and room :: "'t \<Rightarrow> nat"
  assumes find: "stored t content \<Longrightarrow>
      find t key = Returns (case content key of [] \<Rightarrow> None | (d, _) # _ \<Rightarrow> Some d)"
    and reads: "stored t content \<Longrightarrow> (d, v) \<in> set (content key) \<Longrightarrow> reads t d v"
    and store: "stored t content \<Longrightarrow> sized (shape t) key v \<Longrightarrow> cost (shape t) v \<le> room t \<Longrightarrow>
      \<exists>d. stored (store key v t) (content(key := (d, v) # content key)) \<and>
        shape (store key v t) = shape t \<and> room t \<le> room (store key v t) + cost (shape t) v"
    and unlink: "stored t content \<Longrightarrow> content key \<noteq> [] \<Longrightarrow>
      \<exists>t'. unlink key t = Returns (True, t') \<and> stored t' (content(key := tl (content key))) \<and>
        shape t' = shape t \<and> room t \<le> room t'"
begin

lemma find_newest:
  assumes "stored t content" "\<forall>key. map snd (content key) = stacks key"
  shows "case stacks key of [] \<Rightarrow> find t key = Returns None
    | v # _ \<Rightarrow> (\<exists>d. find t key = Returns (Some d) \<and> reads t d v)"
proof (cases "content key")
  case Nil
  then have "stacks key = []" using assms(2) [rule_format, of key] by simp
  then show ?thesis using find [OF assms(1), of key] Nil by simp
next
  case (Cons e rest)
  then have "stacks key = snd e # map snd rest" using assms(2) [rule_format, of key] by simp
  then show ?thesis
    using find [OF assms(1), of key] reads [OF assms(1), of "fst e" "snd e" key] Cons by (simp add: split_def)
qed

end

text \<open>A hash table is a map of stacks.\<close>

sublocale keyed_store \<subseteq> stacks: stack_map
  "\<lambda>t stacks. \<exists>content. stored t content \<and> (\<forall>key. map snd (content key) = stacks key)"
  "\<lambda>key v t. Returns (store key v t)" "\<lambda>key t. map_option snd (unlink key t)" shape sized cost room
proof (unfold_locales, goal_cases)
  case (1 t stacks key v)
  then obtain content where c: "stored t content" "\<forall>key. map snd (content key) = stacks key" by blast
  obtain d where "stored (store key v t) (content(key := (d, v) # content key)) \<and>
      shape (store key v t) = shape t \<and> room t \<le> room (store key v t) + cost (shape t) v"
    using store [OF c(1)] 1 by blast
  then show ?case using c(2) by (auto intro!: exI [of _ "content(key := (d, v) # content key)"])
next
  case (2 t stacks key)
  then obtain content where c: "stored t content" "\<forall>key. map snd (content key) = stacks key" by blast
  then have "content key \<noteq> []" using 2(2) by (metis list.map_disc_iff)
  from unlink [OF c(1) this] obtain t' where "unlink key t = Returns (True, t')"
    "stored t' (content(key := tl (content key)))" "shape t' = shape t" "room t \<le> room t'" by blast
  moreover have "map snd (tl (content key)) = tl (stacks key)" using c(2) by (metis map_tl)
  ultimately show ?case using c(2) by (auto intro!: exI [of _ "content(key := tl (content key))"])
qed

end
