(* ===== verification/Slab_Table.thy ===== *)
theory Slab_Table
  imports Bucket_Chains
begin

text \<open>
  The hash table of variable-sized rows the databases are built on: \<open>slab_manager.cpp\<close>,
  \<open>hash_table_header.ipp\<close>, \<open>slab_row.ipp\<close>, \<open>slab_hash_table.ipp\<close> and \<open>remainder.ipp\<close>. The mapped
  file is a function from positions to bytes, so a row that is written past its end overwrites
  what follows it, as in the file. The refinement relation \<open>stores\<close> connects the bytes with what
  the table means: for every key the values stored under it, the newest first.
\<close>

section \<open>The allocator\<close>

text \<open>
  Positions are relative to the end of the header. The first eight bytes of the payload keep its
  size on disk.
\<close>

record slab_manager =
  slab_file :: memory
  payload_size :: u64

definition slab_manager_init :: "memory \<Rightarrow> slab_manager" where
  "slab_manager_init file = \<lparr>slab_file = file, payload_size = 8\<rparr>"

definition read_size :: "slab_manager \<Rightarrow> slab_manager" where
  "read_size manager = manager\<lparr>payload_size := from_little_endian (read_at (slab_file manager) 0 8)\<rparr>"

definition write_size :: "slab_manager \<Rightarrow> slab_manager" where
  "write_size manager =
     manager\<lparr>slab_file := write_at (slab_file manager) 0 (to_little_endian (payload_size manager))\<rparr>"

definition slab_create :: "slab_manager \<Rightarrow> bool \<times> slab_manager" where
  "slab_create manager = (if payload_size manager \<noteq> 8 then (False, manager) else (True, write_size manager))"

text \<open>The sizes of the header and of the file are arguments of \<open>start\<close>.\<close>

definition slab_start :: "u64 \<Rightarrow> nat \<Rightarrow> slab_manager \<Rightarrow> bool \<times> slab_manager" where
  "slab_start header_size file_size manager =
     (let manager = read_size manager in (unat (header_size + payload_size manager) \<le> file_size, manager))"

definition slab_sync :: "slab_manager \<Rightarrow> slab_manager" where
  "slab_sync manager = write_size manager"

definition new_slab :: "nat \<Rightarrow> slab_manager \<Rightarrow> u64 \<times> slab_manager" where
  "new_slab slab_size manager =
     (payload_size manager, manager\<lparr>payload_size := payload_size manager + of_nat slab_size\<rparr>)"

section \<open>The table\<close>

text \<open>
  The size of a key is the template's parameter; the hash of a key is a parameter, because the
  library boost computes it.
\<close>

abbreviation (input) header_empty :: u64 where "header_empty \<equiv> 0xffffffffffffffff"

record slab_hash_table =
  table_key_size :: nat
  table_hash :: "bytes \<Rightarrow> nat"
  table_header :: "u64 list"
  table_manager :: slab_manager

definition bucket_index :: "slab_hash_table \<Rightarrow> bytes \<Rightarrow> nat" where
  "bucket_index table key = remainder (table_hash table) key (length (table_header table))"

definition read_bucket_value :: "slab_hash_table \<Rightarrow> bytes \<Rightarrow> u64" where
  "read_bucket_value table key = table_header table ! bucket_index table key"

definition link_bucket :: "bytes \<Rightarrow> u64 \<Rightarrow> slab_hash_table \<Rightarrow> slab_hash_table" where
  "link_bucket key begin table =
     table\<lparr>table_header := (table_header table)[bucket_index table key := begin]\<rparr>"

abbreviation table_file :: "slab_hash_table \<Rightarrow> memory" where
  "table_file table \<equiv> slab_file (table_manager table)"

definition write_file :: "nat \<Rightarrow> bytes \<Rightarrow> slab_hash_table \<Rightarrow> slab_hash_table" where
  "write_file p bs table =
     table\<lparr>table_manager := (table_manager table)\<lparr>slab_file := write_at (table_file table) p bs\<rparr>\<rparr>"

text \<open>The row at a position: the key, the position of the next row, the value.\<close>

definition value_begin :: "slab_hash_table \<Rightarrow> nat" where
  "value_begin table = table_key_size table + 8"

definition row_key :: "slab_hash_table \<Rightarrow> u64 \<Rightarrow> bytes" where
  "row_key table position = read_at (table_file table) (unat position) (table_key_size table)"

definition row_compare :: "slab_hash_table \<Rightarrow> u64 \<Rightarrow> bytes \<Rightarrow> bool" where
  "row_compare table position key \<longleftrightarrow> row_key table position = key"

definition row_next :: "slab_hash_table \<Rightarrow> u64 \<Rightarrow> u64" where
  "row_next table position =
     from_little_endian (read_at (table_file table) (unat position + table_key_size table) 8)"

definition write_next_position :: "u64 \<Rightarrow> u64 \<Rightarrow> slab_hash_table \<Rightarrow> slab_hash_table" where
  "write_next_position position next table =
     write_file (unat position + table_key_size table) (to_little_endian next) table"

definition row_create :: "bytes \<Rightarrow> nat \<Rightarrow> u64 \<Rightarrow> slab_hash_table \<Rightarrow> u64 \<times> slab_hash_table" where
  "row_create key value_size next table =
     (let (position, manager) = new_slab (length key + 8 + value_size) (table_manager table);
          table = table\<lparr>table_manager := manager\<rparr>;
          table = write_file (unat position) key table;
          table = write_file (unat position + length key) (to_little_endian next) table
      in (position, table))"

text \<open>
  \<open>store\<close>: the callback \<open>write\<close> is what it writes, \<open>value\<close>; nothing keeps it within
  \<open>value_size\<close> bytes. \<open>restore\<close> writes into the first row of the bucket.
\<close>

definition slab_store :: "bytes \<Rightarrow> bytes \<Rightarrow> nat \<Rightarrow> slab_hash_table \<Rightarrow> u64 \<times> slab_hash_table" where
  "slab_store key value value_size table =
     (let old_begin = read_bucket_value table key;
          (new_begin, table) = row_create key value_size old_begin table;
          table = write_file (unat new_begin + value_begin table) value table;
          table = link_bucket key new_begin table
      in (new_begin + of_nat (value_begin table), table))"

definition slab_restore :: "bytes \<Rightarrow> bytes \<Rightarrow> slab_hash_table \<Rightarrow> u64 \<times> slab_hash_table" where
  "slab_restore key value table =
     (let old_begin = read_bucket_value table key;
          table = write_file (unat old_begin + value_begin table) value table
      in (old_begin + of_nat (value_begin table), table))"

text \<open>
  The loops over a chain end when the next position is \<open>empty\<close> or the current one; on a longer
  cycle they run forever, which is the value \<open>Abnormal\<close>. The result of \<open>find\<close> is the position of
  the value.
\<close>

partial_function (option) find_from :: "slab_hash_table \<Rightarrow> bytes \<Rightarrow> u64 \<Rightarrow> u64 option outcome" where
  "find_from table key current =
     (if current = header_empty then Returns None
      else if row_compare table current key then Returns (Some (current + of_nat (value_begin table)))
      else if row_next table current = current then Returns None
      else find_from table key (row_next table current))"

definition slab_find :: "slab_hash_table \<Rightarrow> bytes \<Rightarrow> u64 option outcome" where
  "slab_find table key = find_from table key (read_bucket_value table key)"

partial_function (option) collect_from :: "slab_hash_table \<Rightarrow> u64 \<Rightarrow> u64 list outcome" where
  "collect_from table current =
     (if current = header_empty then Returns []
      else if row_next table current = current then Returns [current + of_nat (value_begin table)]
      else do {
        rest \<leftarrow> collect_from table (row_next table current);
        Returns ((current + of_nat (value_begin table)) # rest) })"

definition slab_find_bucket :: "slab_hash_table \<Rightarrow> nat \<Rightarrow> u64 list outcome" where
  "slab_find_bucket table index = collect_from table (table_header table ! index)"

partial_function (option) unlink_from ::
  "slab_hash_table \<Rightarrow> bytes \<Rightarrow> u64 \<Rightarrow> u64 \<Rightarrow> (bool \<times> slab_hash_table) outcome" where
  "unlink_from table key previous current =
     (if current = header_empty then Returns (False, table)
      else if row_compare table current key then
        Returns (True, write_next_position previous (row_next table current) table)
      else if row_next table current = current then Returns (False, table)
      else unlink_from table key current (row_next table current))"

text \<open>\<open>unlink\<close> reads the row at the bucket's value before it looks whether the bucket is empty.\<close>

definition slab_unlink :: "bytes \<Rightarrow> slab_hash_table \<Rightarrow> (bool \<times> slab_hash_table) outcome" where
  "slab_unlink key table =
     (let begin = read_bucket_value table key in
      if begin = header_empty then Abnormal
      else if row_compare table begin key then Returns (True, link_bucket key (row_next table begin) table)
      else unlink_from table key begin (row_next table begin))"

section \<open>The layout of the payload\<close>

text \<open>The rows with the sizes they were allocated with, one after the other.\<close>

fun slab_layout :: "nat \<Rightarrow> nat \<Rightarrow> (nat \<times> nat) list \<Rightarrow> nat \<Rightarrow> bool" where
  "slab_layout h a [] e \<longleftrightarrow> a = e"
| "slab_layout h a ((p, n) # rows) e \<longleftrightarrow> p = a \<and> slab_layout h (a + h + n) rows e"

lemma slab_layout_append:
  "slab_layout h a rows e \<Longrightarrow> slab_layout h a (rows @ [(e, n)]) (e + h + n)"
  by (induction h a rows e rule: slab_layout.induct) auto

lemma slab_layout_bounds:
  "slab_layout h a rows e \<Longrightarrow> a \<le> e \<and> (\<forall>(p, n) \<in> set rows. a \<le> p \<and> p + h + n \<le> e)"
  by (induction h a rows e rule: slab_layout.induct) fastforce+

lemma slab_layout_disjoint:
  "slab_layout h a rows e \<Longrightarrow> (p, n) \<in> set rows \<Longrightarrow> (q, k) \<in> set rows \<Longrightarrow>
     (p, n) = (q, k) \<or> p + h + n \<le> q \<or> q + h + k \<le> p"
proof (induction h a rows e rule: slab_layout.induct)
  case (2 h a p' n' rows e)
  then have "\<forall>(q, k) \<in> set rows. a + h + n' \<le> q" using slab_layout_bounds [of h "a + h + n'" rows e] by auto
  with 2 show ?case by fastforce
qed simp

lemma slab_layout_map_of:
  "slab_layout h a rows e \<Longrightarrow> 0 < h \<Longrightarrow> (p, n) \<in> set rows \<Longrightarrow> map_of rows p = Some n"
proof (induction h a rows e rule: slab_layout.induct)
  case (2 h a p' n' rows e)
  then have "\<forall>(q, k) \<in> set rows. a + h + n' \<le> q" using slab_layout_bounds [of h "a + h + n'" rows e] by auto
  with 2 show ?case by fastforce
qed simp

section \<open>What the table stores\<close>

definition row_value :: "slab_hash_table \<Rightarrow> (nat \<times> nat) list \<Rightarrow> u64 \<Rightarrow> bytes" where
  "row_value table rows p =
     read_at (table_file table) (unat p + value_begin table) (the (map_of rows (unat p)))"

abbreviation value_position :: "slab_hash_table \<Rightarrow> u64 \<Rightarrow> u64" where
  "value_position table p \<equiv> p + of_nat (value_begin table)"

abbreviation payload :: "slab_hash_table \<Rightarrow> u64" where
  "payload table \<equiv> payload_size (table_manager table)"

abbreviation laid_out :: "slab_hash_table \<Rightarrow> (nat \<times> nat) list \<Rightarrow> bool" where
  "laid_out table rows \<equiv> slab_layout (value_begin table) 8 rows (unat (payload table))"

abbreviation row_of :: "(nat \<times> nat) list \<Rightarrow> u64 \<Rightarrow> bool" where
  "row_of rows p \<equiv> unat p \<in> fst ` set rows"

definition stores :: "slab_hash_table \<Rightarrow> (bytes \<Rightarrow> (u64 \<times> bytes) list) \<Rightarrow> bool" where
  "stores table content \<longleftrightarrow> (\<exists>rows. laid_out table rows \<and>
     buckets_hold \<lparr>next_row = row_next table, key_of = row_key table,
       value_of = (\<lambda>p. (value_position table p, row_value table rows p)), is_row = row_of rows\<rparr>
       header_empty (bucket_index table) (table_header table) content)"

lemma value_begin_pos: "0 < value_begin table"
  by (simp add: value_begin_def)

lemma slab_layout_row:
  assumes "laid_out t rows" "row_of rows p"
  obtains n where "(unat p, n) \<in> set rows" "map_of rows (unat p) = Some n"
    "unat p + value_begin t + n \<le> unat (payload t)" "unat (value_position t p) = unat p + value_begin t"
proof -
  obtain n where n: "(unat p, n) \<in> set rows" using assms(2) by auto
  have below: "unat p + value_begin t + n \<le> unat (payload t)" using slab_layout_bounds [OF assms(1)] n by auto
  then have fits: "unat p + value_begin t < 2 ^ 64" using unat_u64_less [of "payload t"] by linarith
  then have "unat (of_nat (value_begin t) :: u64) = value_begin t" by (intro unat_of_nat_u64) linarith
  then show ?thesis
    using that [OF n slab_layout_map_of [OF assms(1) value_begin_pos n] below] fits by (simp add: unat_add_u64)
qed

subsection \<open>Rows that are not touched\<close>

lemma frame_row:
  assumes "table_key_size t' = table_key_size t"
    "\<And>i. unat p \<le> i \<Longrightarrow> i < unat p + value_begin t + n \<Longrightarrow> table_file t' i = table_file t i"
  shows "row_key t' p = row_key t p" "row_next t' p = row_next t p"
    "read_at (table_file t') (unat p + value_begin t) n = read_at (table_file t) (unat p + value_begin t) n"
proof -
  have "read_at (table_file t') a k = read_at (table_file t) a k"
    if "unat p \<le> a" "a + k \<le> unat p + value_begin t + n" for a k
    using assms(2) that by (intro read_at_cong) auto
  then show "row_key t' p = row_key t p" "row_next t' p = row_next t p"
    "read_at (table_file t') (unat p + value_begin t) n = read_at (table_file t) (unat p + value_begin t) n"
    by (simp_all add: row_key_def row_next_def assms(1) value_begin_def)
qed

lemma write_next_rows:
  assumes layout: "laid_out t rows" and r: "row_of rows r" and p: "row_of rows p"
  shows "row_key (write_next_position r nxt t) p = row_key t p"
    "row_value (write_next_position r nxt t) rows p = row_value t rows p"
    "row_next (write_next_position r nxt t) p = (if p = r then nxt else row_next t p)"
proof -
  obtain n where n: "(unat p, n) \<in> set rows" "map_of rows (unat p) = Some n" using slab_layout_row [OF layout p] .
  obtain m where m: "(unat r, m) \<in> set rows" using slab_layout_row [OF layout r] .
  have apart: "p \<noteq> r \<Longrightarrow> unat p + value_begin t + n \<le> unat r \<or> unat r + value_begin t + m \<le> unat p"
    using slab_layout_disjoint [OF layout n(1) m] by (auto simp: word_unat_eq_iff)
  note defs = row_key_def row_next_def row_value_def value_begin_def write_next_position_def write_file_def
  show "row_value (write_next_position r nxt t) rows p = row_value t rows p"
    using apart n(2) by (cases "p = r") (auto simp: defs intro!: read_write_other)
  show "row_key (write_next_position r nxt t) p = row_key t p"
    "row_next (write_next_position r nxt t) p = (if p = r then nxt else row_next t p)"
    using apart by (cases "p = r"; force simp: defs read_write_other read_write_same)+
qed

lemma write_next_value_begin: "value_begin (write_next_position r nxt t) = value_begin t"
  by (simp add: value_begin_def write_next_position_def write_file_def)

text \<open>The loops and the buckets are those of every table, so finding and unlinking are, too.\<close>

interpretation slab_walk: chain_walk row_next row_key header_empty value_position find_from collect_from
  write_next_position unlink_from
  by unfold_locales (subst find_from.simps collect_from.simps unlink_from.simps, simp add: row_compare_def)+

interpretation slab_buckets: bucket_table row_next row_key header_empty value_position find_from collect_from
  write_next_position unlink_from table_header bucket_index link_bucket laid_out row_of
  "\<lambda>t rows p. (value_position t p, row_value t rows p)" stores slab_find slab_unlink
  by unfold_locales
    ((simp add: write_next_rows write_next_value_begin; fail) |
     simp add: stores_def slab_find_def slab_unlink_def read_bucket_value_def row_compare_def link_bucket_def
      fun_eq_iff row_next_def row_key_def row_value_def value_begin_def bucket_index_def
      write_next_position_def write_file_def Let_def)+

lemma stores_value:
  assumes "stores t content" "(d, v) \<in> set (content key)"
  shows "read_at (table_file t) (unat d) (length v) = v"
proof -
  obtain rows where rows: "laid_out t rows"
    "buckets_hold \<lparr>next_row = row_next t, key_of = row_key t,
       value_of = (\<lambda>p. (value_position t p, row_value t rows p)), is_row = row_of rows\<rparr>
       header_empty (bucket_index t) (table_header t) content"
    using assms(1) by (auto simp: stores_def)
  obtain p where p: "row_of rows p" "d = value_position t p" "v = row_value t rows p"
    by (rule content_rows [OF rows(2) assms(2)]) simp
  obtain n where "unat (value_position t p) = unat p + value_begin t" by (rule slab_layout_row [OF rows(1) p(1)])
  then show ?thesis by (simp add: p row_value_def)
qed

subsection \<open>Storing\<close>

lemma slab_store_result:
  assumes "length key = table_key_size t" "slab_store key value n t = (p, t')"
  shows "p = value_position t (payload t)" "table_key_size t' = table_key_size t" "table_hash t' = table_hash t"
    "table_header t' = (table_header t)[bucket_index t key := payload t]"
    "payload t' = payload t + of_nat (value_begin t + n)"
    "table_file t' = write_at (write_at (write_at (table_file t) (unat (payload t)) key)
       (unat (payload t) + table_key_size t) (to_little_endian (read_bucket_value t key)))
       (unat (payload t) + value_begin t) value"
  using assms
  by (auto simp: slab_store_def row_create_def new_slab_def write_file_def link_bucket_def value_begin_def
      bucket_index_def Let_def)

lemma slab_store_old_rows:
  assumes layout: "laid_out t rows" and key: "length key = table_key_size t"
    and run: "slab_store key value n t = (d, t')" and p: "row_of rows p"
  shows "row_key t' p = row_key t p" "row_next t' p = row_next t p" "p < payload t"
    "row_value t' (rows @ [(unat (payload t), n)]) p = row_value t rows p"
proof -
  note new = slab_store_result [OF key run]
  obtain k where k: "map_of rows (unat p) = Some k" "unat p + value_begin t + k \<le> unat (payload t)"
    by (rule slab_layout_row [OF layout p])
  have "table_file t' i = table_file t i" if "i < unat (payload t)" for i
    using that by (simp add: new(6) write_at_def)
  then have frame: "row_key t' p = row_key t p" "row_next t' p = row_next t p"
    "read_at (table_file t') (unat p + value_begin t) k = read_at (table_file t) (unat p + value_begin t) k"
    using k(2) by (intro frame_row [OF new(2), of p k]; simp)+
  then show "row_key t' p = row_key t p" "row_next t' p = row_next t p" by simp_all
  show "p < payload t" using k(2) value_begin_pos [of t] by (simp add: word_less_nat_alt)
  then have "map_of (rows @ [(unat (payload t), n)]) (unat p) = Some k"
    using k(1) by (simp add: map_add_def word_less_nat_alt)
  then show "row_value t' (rows @ [(unat (payload t), n)]) p = row_value t rows p"
    using frame(3) k(1) by (simp add: row_value_def value_begin_def new(2))
qed

lemma slab_store_new_row:
  assumes layout: "laid_out t rows" and key: "length key = table_key_size t" and n: "length value = n"
    and run: "slab_store key value n t = (d, t')"
  shows "row_key t' (payload t) = key" "row_next t' (payload t) = table_header t ! bucket_index t key"
    "row_value t' (rows @ [(unat (payload t), n)]) (payload t) = value"
proof -
  note new = slab_store_result [OF key run]
  have "unat (payload t) \<notin> fst ` set rows"
    using slab_layout_bounds [OF layout] value_begin_pos [of t] by force
  then have "map_of (rows @ [(unat (payload t), n)]) (unat (payload t)) = Some n"
    by (simp add: map_add_def map_of_eq_None_iff [THEN iffD2])
  then show "row_key t' (payload t) = key" "row_next t' (payload t) = table_header t ! bucket_index t key"
    "row_value t' (rows @ [(unat (payload t), n)]) (payload t) = value"
    using key n
    by (simp_all add: row_key_def row_next_def row_value_def new(2,6) read_write_other read_write_same
        value_begin_def read_bucket_value_def)
qed

lemma slab_store_stores:
  assumes st: "stores t content" and key: "length key = table_key_size t" and n: "length value = n"
    and space: "unat (payload t) + value_begin t + n < 2 ^ 64"
    and run: "slab_store key value n t = (d, t')"
  shows "stores t' (content(key := (d, value) # content key))"
proof -
  obtain rows where layout: "laid_out t rows"
    and hold: "buckets_hold \<lparr>next_row = row_next t, key_of = row_key t,
       value_of = (\<lambda>p. (value_position t p, row_value t rows p)), is_row = row_of rows\<rparr>
       header_empty (bucket_index t) (table_header t) content"
    using st by (auto simp: stores_def)
  let ?rows = "rows @ [(unat (payload t), n)]"
  note new = slab_store_result [OF key run] and old_rows = slab_store_old_rows [OF layout key run]
    and new_row = slab_store_new_row [OF layout key n run]
  have vb: "value_begin t' = value_begin t" by (simp add: value_begin_def new(2))
  have "unat (of_nat (value_begin t + n) :: u64) = value_begin t + n" using space by (intro unat_of_nat_u64) linarith
  then have "unat (payload t') = unat (payload t) + value_begin t + n"
    using space by (simp add: new(5) unat_add_u64 del: of_nat_add)
  then have "laid_out t' ?rows" using slab_layout_append [OF layout, of n] by (simp add: vb)
  moreover have "unat (payload t) < unat (header_empty :: u64)" using space value_begin_pos [of t] by simp
  then have "payload t \<noteq> header_empty" by auto
  then have "buckets_hold \<lparr>next_row = row_next t', key_of = row_key t',
       value_of = (\<lambda>p. (value_position t' p, row_value t' ?rows p)), is_row = row_of ?rows\<rparr>
       header_empty (bucket_index t) (table_header t') (content(key := (d, value) # content key))"
    using buckets_hold_add [OF hold, of "\<lparr>next_row = row_next t', key_of = row_key t',
       value_of = (\<lambda>p. (value_position t' p, row_value t' ?rows p)), is_row = row_of ?rows\<rparr>" "payload t" key
       "table_header t'"] old_rows new_row
    by (simp add: vb new(1,4))
  moreover have "bucket_index t' = bucket_index t" by (simp add: fun_eq_iff bucket_index_def new(3,4))
  ultimately show ?thesis by (auto simp: stores_def)
qed

text \<open>
  How the databases make a table, from a file of any content: \<open>None\<close> when a step refuses. A table
  that was just created is empty.
\<close>

definition slab_table_create :: "nat \<Rightarrow> (bytes \<Rightarrow> nat) \<Rightarrow> nat \<Rightarrow> memory \<Rightarrow> slab_hash_table option" where
  "slab_table_create key_size hash buckets m =
     (case (header_create header_empty buckets, slab_create (slab_manager_init m)) of
        (Some header, True, manager) \<Rightarrow>
          Some \<lparr>table_key_size = key_size, table_hash = hash, table_header = header,
            table_manager = read_size manager\<rparr>
      | _ \<Rightarrow> None)"

lemma slab_table_created:
  assumes "0 < buckets"
  obtains t where "slab_table_create key_size hash buckets m = Some t" "table_key_size t = key_size"
    "payload t = 8" "stores t (\<lambda>_. [])"
proof -
  let ?t = "\<lparr>table_key_size = key_size, table_hash = hash, table_header = replicate buckets header_empty,
    table_manager = \<lparr>slab_file = write_at m 0 (to_little_endian (8 :: u64)), payload_size = 8\<rparr>\<rparr>"
  have "slab_table_create key_size hash buckets m = Some ?t"
    using assms by (simp add: slab_table_create_def header_create_def slab_create_def slab_manager_init_def
        write_size_def read_size_def read_write_same)
  moreover have "stores ?t (\<lambda>_. [])"
    using assms unfolding stores_def
    by (intro exI [of _ "[]"]) (auto simp: bucket_index_def remainder_def intro!: buckets_hold_empty)
  ultimately show ?thesis using that by simp
qed

interpretation slab: keyed_store stores "\<lambda>t d v. read_at (table_file t) (unat d) (length v) = v"
  slab_find "\<lambda>key v t. snd (slab_store key v (length v) t)" slab_unlink
  table_key_size "\<lambda>s key v. length key = s" "\<lambda>s v. s + 8 + length v" "\<lambda>t. 2 ^ 64 - 1 - unat (payload t)"
proof (unfold_locales, goal_cases)
  case (3 t content key v)
  obtain d t' where run: "slab_store key v (length v) t = (d, t')" by fastforce
  have space: "unat (payload t) + value_begin t + length v < 2 ^ 64"
    using 3(3) unat_u64_less [of "payload t"] unfolding value_begin_def by linarith
  then have "unat (of_nat (value_begin t + length v) :: u64) = value_begin t + length v"
    by (intro unat_of_nat_u64) linarith
  then have "unat (payload t') = unat (payload t) + (value_begin t + length v)"
    using space slab_store_result(5) [OF 3(2) run] unat_add_u64 [of "payload t" "of_nat (value_begin t + length v)"]
    by (simp del: of_nat_add)
  then show ?case
    using slab_store_stores [OF 3(1,2) refl space run] slab_store_result(2) [OF 3(2) run] run
    by (auto simp: value_begin_def)
next
  case (4 t content key)
  then show ?case
    using slab_buckets.unlink_stored [OF 4]
    by (auto simp: link_bucket_def write_next_position_def write_file_def)
qed (use slab_buckets.find_stored stores_value in blast)+

text \<open>
  Nothing keeps what \<open>store\<close> writes within the size it was given. When the value is longer, the
  next row that is stored begins inside it.
\<close>

lemma slab_store_overrun:
  assumes "length key = table_key_size t" "length other = table_key_size t" "other \<noteq> []"
    "value_size < length v" "unat (payload t) + value_begin t + value_size < 2 ^ 64"
    "slab_store key v value_size t = (d, t')" "slab_store other w n t' = (e, t'')"
  shows "unat d + value_size = unat (payload t')" "table_file t'' (unat d + value_size) = hd other"
proof -
  note first = slab_store_result [OF assms(1,6)]
  have "length other = table_key_size t'" using assms(2) first(2) by simp
  note second = slab_store_result [OF this assms(7)]
  have "unat (of_nat (value_begin t + value_size) :: u64) = value_begin t + value_size"
    "unat (of_nat (value_begin t) :: u64) = value_begin t"
    using assms(5) by (intro unat_of_nat_u64; linarith)+
  then have "unat (payload t') = unat (payload t) + value_begin t + value_size" "unat d = unat (payload t) + value_begin t"
    using assms(5) by (simp_all add: first(1,5) unat_add_u64 del: of_nat_add)
  then show "unat d + value_size = unat (payload t')" by simp
  then show "table_file t'' (unat d + value_size) = hd other"
    using assms(2,3) first(2) by (cases other) (auto simp: second(6) write_at_def value_begin_def hd_conv_nth)
qed

section \<open>Properties\<close>

abbreviation slab_push :: "bytes \<Rightarrow> bytes \<Rightarrow> slab_hash_table \<Rightarrow> slab_hash_table outcome" where
  "slab_push key v table \<equiv> Returns (snd (slab_store key v (length v) table))"

abbreviation slab_pop :: "bytes \<Rightarrow> slab_hash_table \<Rightarrow> slab_hash_table outcome" where
  "slab_pop key table \<equiv> map_option snd (slab_unlink key table)"

text \<open>
  C11: The slab hash table implements a stack of values for every key. Starting from a table that
  was just created, every sequence of stores and unlinks that never unlinks a key with no value
  runs to its end, whatever the hash function and the number of buckets, as long as the file does
  not grow past what a 64-bit position can address; afterwards \<open>find\<close> returns a pointer to the bytes of the
  newest value that is left under a key, and nothing for a key with no value left.
\<close>

theorem slab_operations:
  assumes "0 < buckets" "spec_run ops (\<lambda>_. []) = Some stacks"
    "\<forall>(key, v) \<in> set (pushed ops). length key = key_size"
    "8 + (\<Sum>(key, v) \<leftarrow> pushed ops. key_size + 8 + length v) < 2 ^ 64"
  shows "\<exists>t. slab_table_create key_size hash buckets m \<bind> store_run slab_push slab_pop ops = Returns t \<and>
    (\<forall>key. case stacks key of [] \<Rightarrow> slab_find t key = Returns None
       | v # _ \<Rightarrow> \<exists>d. slab_find t key = Returns (Some d) \<and> read_at (table_file t) (unat d) (length v) = v)"
proof -
  obtain new where new: "slab_table_create key_size hash buckets m = Some new" "table_key_size new = key_size"
    "payload new = 8" "stores new (\<lambda>_. [])"
    using slab_table_created [OF assms(1)] by blast
  have start: "\<exists>content. stores new content \<and> (\<forall>key. map snd (content key) = [])"
    using new(4) by (intro exI [of _ "\<lambda>_. []"]) simp
  obtain t content where run: "store_run slab_push slab_pop ops new = Returns t" "stores t content"
    "\<forall>key. map snd (content key) = stacks key"
    using slab.stacks.run_simulates [OF start assms(2)] assms(3,4) new(2,3) by auto
  then show ?thesis unfolding new(1) using slab.find_newest by (intro exI [of _ t]) simp
qed

theorem slab_operations_witness:
  "\<exists>t. slab_table_create 1 (\<lambda>_. 0) 1 (\<lambda>_. 0) \<bind>
       store_run slab_push slab_pop [Push [1] [10], Push [2] [20, 21], Push [1] [11, 12], Pop [2], Pop [1]] = Returns t \<and>
     (\<exists>d. slab_find t [1] = Returns (Some d) \<and> read_at (table_file t) (unat d) 1 = [10]) \<and>
     slab_find t [2] = Returns None"
proof -
  let ?ops = "[Push [1] [10], Push [2] [20, 21], Push [1] [11, 12], Pop [2], Pop [1]]"
  have "spec_run ?ops (\<lambda>_. []) = Some ((\<lambda>_. [])([1] := [[10]]))" by (simp add: fun_eq_iff)
  from slab_operations [OF _ this, of 1 1 "\<lambda>_. 0" "\<lambda>_. 0"]
  obtain t where "slab_table_create 1 (\<lambda>_. 0) 1 (\<lambda>_. 0) \<bind> store_run slab_push slab_pop ?ops = Returns t"
    and all: "\<forall>key. case ((\<lambda>_. [])([1] := [[10]])) key of [] \<Rightarrow> slab_find t key = Returns None
       | v # _ \<Rightarrow> \<exists>d. slab_find t key = Returns (Some d) \<and> read_at (table_file t) (unat d) (length v) = v"
    by auto
  moreover have "(\<exists>d. slab_find t [1] = Returns (Some d) \<and> read_at (table_file t) (unat d) 1 = [10]) \<and>
     slab_find t [2] = Returns None"
    using all [rule_format, of "[1]"] all [rule_format, of "[2]"] by simp
  ultimately show ?thesis by blast
qed

end
