(* ===== verification/Record_Table.thy ===== *)
theory Record_Table
  imports Bucket_Chains
begin

text \<open>
  The hash table of fixed-size records and what is built on it: \<open>record_manager.cpp\<close>,
  \<open>record_row.ipp\<close>, \<open>record_hash_table.ipp\<close>, \<open>record_list.cpp\<close> and \<open>record_multimap.ipp\<close>. The
  relation \<open>record_stores\<close> gives the values under every key of a hash table, \<open>multimap_holds\<close> the
  rows under every key of a multimap, the newest first.
\<close>

section \<open>The allocator\<close>

text \<open>Positions are relative to the end of the header; the first four bytes keep the count on disk.\<close>

record record_manager =
  record_file :: memory
  record_count :: u32
  record_size :: nat

definition write_count :: "record_manager \<Rightarrow> record_manager" where
  "write_count manager =
     manager\<lparr>record_file := write_at (record_file manager) 0 (to_little_endian (record_count manager))\<rparr>"

definition read_count :: "record_manager \<Rightarrow> record_manager" where
  "read_count manager = manager\<lparr>record_count := from_little_endian (read_at (record_file manager) 0 4)\<rparr>"

definition record_manager_init :: "memory \<Rightarrow> nat \<Rightarrow> record_manager" where
  "record_manager_init file bytes_each = \<lparr>record_file = file, record_count = 0, record_size = bytes_each\<rparr>"

definition record_create :: "record_manager \<Rightarrow> bool \<times> record_manager" where
  "record_create manager =
     (if record_count manager \<noteq> 0 then (False, manager) else (True, write_count manager))"

definition record_start :: "u64 \<Rightarrow> nat \<Rightarrow> record_manager \<Rightarrow> bool \<times> record_manager" where
  "record_start header_size file_size manager =
     (let manager = read_count manager
      in (unat header_size + (4 + unat (record_count manager) * record_size manager) \<le> file_size, manager))"

definition record_sync :: "record_manager \<Rightarrow> record_manager" where
  "record_sync manager = write_count manager"

definition set_count :: "u32 \<Rightarrow> record_manager \<Rightarrow> record_manager" where
  "set_count n manager = manager\<lparr>record_count := n\<rparr>"

definition new_records :: "nat \<Rightarrow> record_manager \<Rightarrow> u32 \<times> record_manager" where
  "new_records n manager = (record_count manager, manager\<lparr>record_count := record_count manager + of_nat n\<rparr>)"

definition record_to_position :: "record_manager \<Rightarrow> u32 \<Rightarrow> nat" where
  "record_to_position manager index = 4 + unat index * record_size manager"

definition position_to_record :: "record_manager \<Rightarrow> nat \<Rightarrow> u32" where
  "position_to_record manager position = of_nat ((position - 4) div record_size manager)"

definition write_record :: "nat \<Rightarrow> bytes \<Rightarrow> record_manager \<Rightarrow> record_manager" where
  "write_record p bs manager = manager\<lparr>record_file := write_at (record_file manager) p bs\<rparr>"

section \<open>The hash table\<close>

abbreviation (input) record_empty :: u32 where "record_empty \<equiv> 0xffffffff"

record record_hash_table =
  map_key_size :: nat
  map_hash :: "bytes \<Rightarrow> nat"
  map_header :: "u32 list"
  map_manager :: record_manager

definition map_bucket_index :: "record_hash_table \<Rightarrow> bytes \<Rightarrow> nat" where
  "map_bucket_index table key = remainder (map_hash table) key (length (map_header table))"

definition map_read_bucket_value :: "record_hash_table \<Rightarrow> bytes \<Rightarrow> u32" where
  "map_read_bucket_value table key = map_header table ! map_bucket_index table key"

definition map_link :: "bytes \<Rightarrow> u32 \<Rightarrow> record_hash_table \<Rightarrow> record_hash_table" where
  "map_link key begin table =
     table\<lparr>map_header := (map_header table)[map_bucket_index table key := begin]\<rparr>"

definition map_write :: "nat \<Rightarrow> bytes \<Rightarrow> record_hash_table \<Rightarrow> record_hash_table" where
  "map_write p bs table = table\<lparr>map_manager := write_record p bs (map_manager table)\<rparr>"

abbreviation map_file :: "record_hash_table \<Rightarrow> memory" where
  "map_file table \<equiv> record_file (map_manager table)"

abbreviation map_position :: "record_hash_table \<Rightarrow> u32 \<Rightarrow> nat" where
  "map_position table index \<equiv> record_to_position (map_manager table) index"

text \<open>The record at an index: the key, the index of the next record, the value.\<close>

definition record_value_begin :: "record_hash_table \<Rightarrow> nat" where
  "record_value_begin table = map_key_size table + 4"

definition record_key :: "record_hash_table \<Rightarrow> u32 \<Rightarrow> bytes" where
  "record_key table index = read_at (map_file table) (map_position table index) (map_key_size table)"

definition record_compare :: "record_hash_table \<Rightarrow> u32 \<Rightarrow> bytes \<Rightarrow> bool" where
  "record_compare table index key \<longleftrightarrow> record_key table index = key"

definition record_data :: "record_hash_table \<Rightarrow> u32 \<Rightarrow> nat" where
  "record_data table index = map_position table index + record_value_begin table"

definition next_index :: "record_hash_table \<Rightarrow> u32 \<Rightarrow> u32" where
  "next_index table index =
     from_little_endian (read_at (map_file table) (map_position table index + map_key_size table) 4)"

definition write_next_index :: "u32 \<Rightarrow> u32 \<Rightarrow> record_hash_table \<Rightarrow> record_hash_table" where
  "write_next_index index next table =
     map_write (map_position table index + map_key_size table) (to_little_endian next) table"

definition record_row_create :: "bytes \<Rightarrow> u32 \<Rightarrow> record_hash_table \<Rightarrow> u32 \<times> record_hash_table" where
  "record_row_create key next table =
     (let (index, manager) = new_records 1 (map_manager table);
          table = table\<lparr>map_manager := manager\<rparr>;
          table = map_write (map_position table index) key table;
          table = map_write (map_position table index + length key) (to_little_endian next) table
      in (index, table))"

definition record_store :: "bytes \<Rightarrow> bytes \<Rightarrow> record_hash_table \<Rightarrow> record_hash_table" where
  "record_store key value table =
     (let old_begin = map_read_bucket_value table key;
          (new_begin, table) = record_row_create key old_begin table;
          table = map_write (record_data table new_begin) value table
      in map_link key new_begin table)"

partial_function (option) record_find_from :: "record_hash_table \<Rightarrow> bytes \<Rightarrow> u32 \<Rightarrow> nat option outcome" where
  "record_find_from table key current =
     (if current = record_empty then Returns None
      else if record_compare table current key then Returns (Some (record_data table current))
      else if next_index table current = current then Returns None
      else record_find_from table key (next_index table current))"

definition record_find :: "record_hash_table \<Rightarrow> bytes \<Rightarrow> nat option outcome" where
  "record_find table key = record_find_from table key (map_read_bucket_value table key)"

partial_function (option) record_collect_from :: "record_hash_table \<Rightarrow> u32 \<Rightarrow> nat list outcome" where
  "record_collect_from table current =
     (if current = record_empty then Returns []
      else if next_index table current = current then Returns [record_data table current]
      else do {
        rest \<leftarrow> record_collect_from table (next_index table current);
        Returns (record_data table current # rest) })"

definition record_find_bucket :: "record_hash_table \<Rightarrow> nat \<Rightarrow> nat list outcome" where
  "record_find_bucket table index = record_collect_from table (map_header table ! index)"

partial_function (option) record_unlink_from ::
  "record_hash_table \<Rightarrow> bytes \<Rightarrow> u32 \<Rightarrow> u32 \<Rightarrow> (bool \<times> record_hash_table) outcome" where
  "record_unlink_from table key previous current =
     (if current = record_empty then Returns (False, table)
      else if record_compare table current key then
        Returns (True, write_next_index previous (next_index table current) table)
      else if next_index table current = current then Returns (False, table)
      else record_unlink_from table key current (next_index table current))"

text \<open>\<open>unlink\<close> reads the record at the bucket's value before it looks whether the bucket is empty.\<close>

definition record_unlink :: "bytes \<Rightarrow> record_hash_table \<Rightarrow> (bool \<times> record_hash_table) outcome" where
  "record_unlink key table =
     (let begin = map_read_bucket_value table key in
      if begin = record_empty then Abnormal
      else if record_compare table begin key then Returns (True, map_link key (next_index table begin) table)
      else record_unlink_from table key begin (next_index table begin))"

section \<open>Lists of records\<close>

definition list_insert :: "u32 \<Rightarrow> record_manager \<Rightarrow> u32 \<times> record_manager" where
  "list_insert index manager =
     (let (new_index, manager) = new_records 1 manager
      in (new_index, write_record (record_to_position manager new_index) (to_little_endian index) manager))"

definition list_create :: "record_manager \<Rightarrow> u32 \<times> record_manager" where
  "list_create manager = list_insert record_empty manager"

definition list_next :: "record_manager \<Rightarrow> u32 \<Rightarrow> u32" where
  "list_next manager index = from_little_endian (read_at (record_file manager) (record_to_position manager index) 4)"

definition list_get :: "record_manager \<Rightarrow> u32 \<Rightarrow> nat" where
  "list_get manager index = record_to_position manager index + 4"

section \<open>The multimap\<close>

record record_multimap =
  multimap_map :: record_hash_table
  multimap_records :: record_manager

definition lookup_row :: "record_multimap \<Rightarrow> bytes \<Rightarrow> u32 outcome" where
  "lookup_row mm key = do {
     start_info \<leftarrow> record_find (multimap_map mm) key;
     case start_info of
       None \<Rightarrow> Returns record_empty
     | Some address \<Rightarrow> Returns (from_little_endian (read_at (map_file (multimap_map mm)) address 4)) }"

definition create_new :: "bytes \<Rightarrow> bytes \<Rightarrow> record_multimap \<Rightarrow> record_multimap" where
  "create_new key value mm =
     (let (first, records) = list_create (multimap_records mm);
          records = write_record (list_get records first) value records
      in mm\<lparr>multimap_records := records,
            multimap_map := record_store key (to_little_endian first) (multimap_map mm)\<rparr>)"

definition add_to_list :: "nat \<Rightarrow> bytes \<Rightarrow> record_multimap \<Rightarrow> record_multimap" where
  "add_to_list address value mm =
     (let old_begin = from_little_endian (read_at (map_file (multimap_map mm)) address 4);
          (new_begin, records) = list_insert old_begin (multimap_records mm);
          records = write_record (list_get records new_begin) value records
      in mm\<lparr>multimap_records := records,
            multimap_map := map_write address (to_little_endian new_begin) (multimap_map mm)\<rparr>)"

definition add_row :: "bytes \<Rightarrow> bytes \<Rightarrow> record_multimap \<Rightarrow> record_multimap outcome" where
  "add_row key value mm = do {
     start_info \<leftarrow> record_find (multimap_map mm) key;
     case start_info of
       None \<Rightarrow> Returns (create_new key value mm)
     | Some address \<Rightarrow> Returns (add_to_list address value mm) }"

text \<open>Deleting from a key with no row follows a null pointer.\<close>

definition delete_last_row :: "bytes \<Rightarrow> record_multimap \<Rightarrow> record_multimap outcome" where
  "delete_last_row key mm = do {
     start_info \<leftarrow> record_find (multimap_map mm) key;
     case start_info of
       None \<Rightarrow> Abnormal
     | Some address \<Rightarrow>
         (let old_begin = from_little_endian (read_at (map_file (multimap_map mm)) address 4);
              new_begin = list_next (multimap_records mm) old_begin
          in if new_begin = record_empty then do {
               (_, table) \<leftarrow> record_unlink key (multimap_map mm);
               Returns (mm\<lparr>multimap_map := table\<rparr>) }
             else Returns (mm\<lparr>multimap_map := map_write address (to_little_endian new_begin) (multimap_map mm)\<rparr>)) }"

text \<open>The indexes \<open>record_multimap_iterable\<close> runs through, from the first one to \<open>empty\<close>.\<close>

partial_function (option) multimap_iterate :: "record_manager \<Rightarrow> u32 \<Rightarrow> u32 list outcome" where
  "multimap_iterate records index =
     (if index = record_empty then Returns []
      else do {
        rest \<leftarrow> multimap_iterate records (list_next records index);
        Returns (index # rest) })"

section \<open>What the hash table stores\<close>

abbreviation value_size_of :: "record_hash_table \<Rightarrow> nat" where
  "value_size_of table \<equiv> record_size (map_manager table) - record_value_begin table"

definition record_value :: "record_hash_table \<Rightarrow> u32 \<Rightarrow> bytes" where
  "record_value table index = read_at (map_file table) (record_data table index) (value_size_of table)"

definition records_laid_out :: "record_hash_table \<Rightarrow> nat \<Rightarrow> bool" where
  "records_laid_out table n \<longleftrightarrow>
     n = unat (record_count (map_manager table)) \<and> record_value_begin table \<le> record_size (map_manager table)"

abbreviation record_below :: "nat \<Rightarrow> u32 \<Rightarrow> bool" where
  "record_below n index \<equiv> unat index < n"

definition record_stores :: "record_hash_table \<Rightarrow> (bytes \<Rightarrow> (nat \<times> bytes) list) \<Rightarrow> bool" where
  "record_stores table content \<longleftrightarrow> (\<exists>n. records_laid_out table n \<and>
     buckets_hold \<lparr>next_row = next_index table, key_of = record_key table,
       value_of = (\<lambda>i. (record_data table i, record_value table i)), is_row = record_below n\<rparr>
       record_empty (map_bucket_index table) (map_header table) content)"

lemma record_to_position_file [simp]:
  "record_to_position (m\<lparr>record_file := f\<rparr>) i = record_to_position m i"
  "record_to_position (m\<lparr>record_count := c\<rparr>) i = record_to_position m i"
  by (simp_all add: record_to_position_def)

lemma record_to_position_apart:
  "i \<noteq> j \<Longrightarrow> record_to_position m i + record_size m \<le> record_to_position m j \<or>
     record_to_position m j + record_size m \<le> record_to_position m i"
proof -
  have less: "unat i * s + s \<le> unat j * s" if "unat i < unat j" for i j :: u32 and s
    using mult_le_mono1 [of "Suc (unat i)" "unat j" s] that by simp
  assume "i \<noteq> j"
  then consider "unat i < unat j" | "unat j < unat i" by (metis nat_neq_iff word_unat_eq_iff)
  then show ?thesis by cases (use less in \<open>auto simp: record_to_position_def\<close>)
qed

lemma record_frame:
  assumes "map_key_size t' = map_key_size t" "record_size (map_manager t') = record_size (map_manager t)"
    "record_value_begin t \<le> record_size (map_manager t)"
    "\<And>p. map_position t i \<le> p \<Longrightarrow> p < map_position t i + record_size (map_manager t) \<Longrightarrow> map_file t' p = map_file t p"
  shows "record_key t' i = record_key t i" "next_index t' i = next_index t i" "record_value t' i = record_value t i"
    "record_data t' i = record_data t i"
proof -
  have pos: "map_position t' i = map_position t i" by (simp add: record_to_position_def assms(2))
  have "read_at (map_file t') a k = read_at (map_file t) a k"
    if "map_position t i \<le> a" "a + k \<le> map_position t i + record_size (map_manager t)" for a k
    using assms(4) that by (intro read_at_cong) auto
  then show "record_key t' i = record_key t i" "next_index t' i = next_index t i" "record_value t' i = record_value t i"
    "record_data t' i = record_data t i"
    using assms(3)
    by (simp_all add: record_key_def next_index_def record_value_def record_data_def record_value_begin_def pos assms(1,2))
qed

lemma record_read_write:
  assumes "i \<noteq> j" "a + k \<le> record_size m" "b + length bs \<le> record_size m"
  shows "read_at (write_at f (record_to_position m i + b) bs) (record_to_position m j + a) k =
    read_at f (record_to_position m j + a) k"
  using record_to_position_apart [OF assms(1), of m] assms(2,3) by (intro read_write_other) auto

lemma write_next_index_rows:
  assumes "records_laid_out t n"
  shows "record_key (write_next_index r nxt t) i = record_key t i"
    "record_value (write_next_index r nxt t) i = record_value t i"
    "record_data (write_next_index r nxt t) i = record_data t i"
    "next_index (write_next_index r nxt t) i = (if i = r then nxt else next_index t i)"
proof -
  have room: "map_key_size t + 4 \<le> record_size (map_manager t)"
    using assms by (simp add: records_laid_out_def record_value_begin_def)
  note defs = record_key_def next_index_def record_value_def record_data_def record_value_begin_def
    write_next_index_def map_write_def write_record_def
  have frame: "read_at (write_at f (record_to_position m r + map_key_size t) (to_little_endian nxt)) (record_to_position m i + a) k
      = read_at f (record_to_position m i + a) k"
    if "i \<noteq> r" "a + k \<le> record_size m" "m = map_manager t" for f m a k
    using that room by (intro record_read_write) auto
  show "record_data (write_next_index r nxt t) i = record_data t i" by (simp add: defs)
  show "record_key (write_next_index r nxt t) i = record_key t i"
    using frame [of 0 "map_key_size t" "map_manager t"] room
    by (cases "i = r") (simp_all add: defs read_write_other)
  show "record_value (write_next_index r nxt t) i = record_value t i"
    using frame [of "map_key_size t + 4" "value_size_of t" "map_manager t"] room
    by (cases "i = r") (simp_all add: defs read_write_other add.assoc)
  show "next_index (write_next_index r nxt t) i = (if i = r then nxt else next_index t i)"
    using frame [of "map_key_size t" 4 "map_manager t"] room
    by (cases "i = r") (simp_all add: defs read_write_same)
qed

interpretation record_walk: chain_walk next_index record_key record_empty record_data record_find_from
  record_collect_from write_next_index record_unlink_from
  by unfold_locales
    (subst record_find_from.simps record_collect_from.simps record_unlink_from.simps, simp add: record_compare_def)+

interpretation record_buckets: bucket_table next_index record_key record_empty record_data record_find_from
  record_collect_from write_next_index record_unlink_from map_header map_bucket_index map_link records_laid_out
  record_below "\<lambda>t n i. (record_data t i, record_value t i)" record_stores record_find record_unlink
  by unfold_locales
    ((simp add: write_next_index_rows; fail) |
     simp add: record_stores_def record_find_def record_unlink_def map_read_bucket_value_def record_compare_def
      map_link_def fun_eq_iff next_index_def record_key_def record_value_def record_value_begin_def map_bucket_index_def
      write_next_index_def map_write_def write_record_def records_laid_out_def record_data_def Let_def)+

lemma record_stores_value:
  assumes "record_stores t content" "(d, v) \<in> set (content key)"
  shows "read_at (map_file t) d (length v) = v" "length v = value_size_of t"
    "\<exists>i. unat i < unat (record_count (map_manager t)) \<and> d = record_data t i \<and> record_key t i = key"
proof -
  obtain n where n: "records_laid_out t n" "buckets_hold \<lparr>next_row = next_index t, key_of = record_key t,
       value_of = (\<lambda>i. (record_data t i, record_value t i)), is_row = record_below n\<rparr>
       record_empty (map_bucket_index t) (map_header t) content"
    using assms(1) by (auto simp: record_stores_def)
  obtain i where "unat i < n" "d = record_data t i" "v = record_value t i" "record_key t i = key"
    by (rule content_rows [OF n(2) assms(2)]) simp
  with n(1) show "read_at (map_file t) d (length v) = v" "length v = value_size_of t"
    "\<exists>i. unat i < unat (record_count (map_manager t)) \<and> d = record_data t i \<and> record_key t i = key"
    by (auto simp: record_value_def records_laid_out_def)
qed

subsection \<open>Storing\<close>

definition record_fits :: "bytes \<Rightarrow> bytes \<Rightarrow> record_hash_table \<Rightarrow> bool" where
  "record_fits key value t \<longleftrightarrow> length key = map_key_size t \<and> length value = value_size_of t \<and>
     unat (record_count (map_manager t)) + 1 < 2 ^ 32"

lemma record_store_result:
  fixes t :: record_hash_table and key v :: bytes
  defines "new \<equiv> record_count (map_manager t)" and "t' \<equiv> record_store key v t"
  assumes "length key = map_key_size t"
  shows "map_key_size t' = map_key_size t" "map_hash t' = map_hash t"
    "map_header t' = (map_header t)[map_bucket_index t key := new]"
    "record_count (map_manager t') = new + 1" "record_size (map_manager t') = record_size (map_manager t)"
    "map_file t' = write_at (write_at (write_at (map_file t) (map_position t new) key)
       (map_position t new + map_key_size t) (to_little_endian (map_read_bucket_value t key)))
       (record_data t new) v"
  using assms
  by (auto simp: record_store_def record_row_create_def new_records_def map_write_def write_record_def map_link_def
      record_data_def record_value_begin_def record_to_position_def map_bucket_index_def Let_def)

lemma record_store_rows:
  assumes layout: "records_laid_out t n" and fits: "record_fits key v t"
  shows "records_laid_out (record_store key v t) (Suc n)"
    "i \<noteq> record_count (map_manager t) \<Longrightarrow> record_key (record_store key v t) i = record_key t i \<and>
       next_index (record_store key v t) i = next_index t i \<and>
       record_value (record_store key v t) i = record_value t i \<and> record_data (record_store key v t) i = record_data t i"
    "record_key (record_store key v t) (record_count (map_manager t)) = key"
    "next_index (record_store key v t) (record_count (map_manager t)) = map_header t ! map_bucket_index t key"
    "record_value (record_store key v t) (record_count (map_manager t)) = v"
proof -
  let ?new = "record_count (map_manager t)" and ?t = "record_store key v t"
  have len: "length key = map_key_size t" "length v = value_size_of t"
    and room: "map_key_size t + 4 \<le> record_size (map_manager t)"
    using layout fits by (simp_all add: record_fits_def records_laid_out_def record_value_begin_def)
  note res = record_store_result [OF len(1), of v]
  have "unat (?new + 1) = Suc (unat ?new)" using fits unat_add_lem [of ?new 1] by (simp add: record_fits_def)
  then show "records_laid_out ?t (Suc n)"
    using layout res by (simp add: records_laid_out_def record_value_begin_def)
  show "record_key ?t i = record_key t i \<and> next_index ?t i = next_index t i \<and> record_value ?t i = record_value t i \<and>
      record_data ?t i = record_data t i" if "i \<noteq> ?new"
    using record_frame [OF res(1,5), of i] record_to_position_apart [OF that, of "map_manager t"] len room
    by (auto simp: res(6) record_value_begin_def record_data_def write_at_other)
  have pos: "map_position ?t ?new = map_position t ?new" "record_data ?t ?new = record_data t ?new"
    by (simp_all add: record_to_position_def record_data_def record_value_begin_def res(1,5))
  show "record_key ?t ?new = key" "next_index ?t ?new = map_header t ! map_bucket_index t key"
    "record_value ?t ?new = v"
    using len
    by (simp_all add: record_key_def next_index_def record_value_def pos res(1,5,6) read_write_other read_write_same
        map_read_bucket_value_def record_value_begin_def record_data_def)
qed

lemma record_store_stores:
  assumes st: "record_stores t content" and fits: "record_fits key v t"
  shows "record_stores (record_store key v t)
    (content(key := (record_data t (record_count (map_manager t)), v) # content key))"
proof -
  let ?new = "record_count (map_manager t)" and ?t = "record_store key v t"
  obtain n where layout: "records_laid_out t n"
    and hold: "buckets_hold \<lparr>next_row = next_index t, key_of = record_key t,
       value_of = (\<lambda>i. (record_data t i, record_value t i)), is_row = record_below n\<rparr>
       record_empty (map_bucket_index t) (map_header t) content"
    using st by (auto simp: record_stores_def)
  have len: "length key = map_key_size t" using fits by (simp add: record_fits_def)
  note res = record_store_result [OF len, of v] and rows = record_store_rows [OF layout fits]
  have n: "n = unat ?new" using layout by (simp add: records_laid_out_def)
  have old: "i \<noteq> ?new" "i < ?new" if "unat i < n" for i using that by (auto simp: n word_less_nat_alt)
  have "unat ?new < unat (record_empty :: u32)" using fits by (simp add: record_fits_def)
  then have "?new \<noteq> record_empty" by auto
  then have "buckets_hold \<lparr>next_row = next_index ?t, key_of = record_key ?t,
       value_of = (\<lambda>i. (record_data ?t i, record_value ?t i)), is_row = record_below (Suc n)\<rparr>
       record_empty (map_bucket_index t) (map_header ?t) (content(key := (record_data t ?new, v) # content key))"
    using buckets_hold_add [OF hold, of "\<lparr>next_row = next_index ?t, key_of = record_key ?t,
       value_of = (\<lambda>i. (record_data ?t i, record_value ?t i)), is_row = record_below (Suc n)\<rparr>" ?new key "map_header ?t"]
      rows(2-) old
    by (auto simp: res(3) n record_data_def record_value_begin_def record_to_position_def res(1,5))
  moreover have "map_bucket_index ?t = map_bucket_index t" by (simp add: fun_eq_iff map_bucket_index_def res(2,3))
  ultimately show ?thesis using rows(1) by (auto simp: record_stores_def)
qed

interpretation records: keyed_store record_stores "\<lambda>t d v. read_at (map_file t) d (length v) = v"
  record_find record_store record_unlink "\<lambda>t. (map_key_size t, value_size_of t)"
  "\<lambda>(s, n) key v. length key = s \<and> length v = n" "\<lambda>_ _. 1" "\<lambda>t. 2 ^ 32 - 2 - unat (record_count (map_manager t))"
proof (unfold_locales, goal_cases)
  case (3 t content key v)
  let ?new = "record_count (map_manager t)"
  have fits: "record_fits key v t" using 3(2,3) by (auto simp: record_fits_def)
  then have "unat (?new + 1) = Suc (unat ?new)" using unat_add_lem [of ?new 1] by (simp add: record_fits_def)
  then show ?case
    using record_store_stores [OF 3(1) fits] record_store_result [of key t v] 3(2)
    by (auto simp: record_value_begin_def)
next
  case (4 t content key)
  then show ?case
    using record_buckets.unlink_stored [OF 4]
    by (auto simp: map_link_def write_next_index_def map_write_def write_record_def record_value_begin_def)
qed (use record_buckets.find_stored record_stores_value(1) in blast)+

subsection \<open>Changing a value in place\<close>

lemma record_write_rows:
  assumes layout: "records_laid_out t n" and len: "length v = value_size_of t"
  shows "record_key (map_write (record_data t j) v t) i = record_key t i"
    "next_index (map_write (record_data t j) v t) i = next_index t i"
    "record_data (map_write (record_data t j) v t) i = record_data t i"
    "record_value (map_write (record_data t j) v t) i = (if i = j then v else record_value t i)"
proof -
  have room: "map_key_size t + 4 \<le> record_size (map_manager t)"
    using layout by (simp add: records_laid_out_def record_value_begin_def)
  note defs = record_key_def next_index_def record_value_def record_data_def record_value_begin_def
    map_write_def write_record_def
  have frame: "read_at (write_at f (record_to_position m j + (map_key_size t + 4)) v) (record_to_position m i + a) k
      = read_at f (record_to_position m i + a) k"
    if "i \<noteq> j" "a + k \<le> record_size m" "m = map_manager t" for f m a k
    using that room len by (intro record_read_write) (auto simp: record_value_begin_def)
  show "record_data (map_write (record_data t j) v t) i = record_data t i" by (simp add: defs)
  show "record_key (map_write (record_data t j) v t) i = record_key t i"
    using frame [of 0 "map_key_size t" "map_manager t"] room
    by (cases "i = j") (simp_all add: defs read_write_other)
  show "next_index (map_write (record_data t j) v t) i = next_index t i"
    using frame [of "map_key_size t" 4 "map_manager t"] room
    by (cases "i = j") (simp_all add: defs read_write_other)
  show "record_value (map_write (record_data t j) v t) i = (if i = j then v else record_value t i)"
    using frame [of "map_key_size t + 4" "value_size_of t" "map_manager t"] room len
    by (cases "i = j") (simp_all add: defs read_write_same add.assoc)
qed

lemma record_data_inject:
  "record_value_begin t \<le> record_size (map_manager t) \<Longrightarrow> record_data t i = record_data t j \<Longrightarrow> i = j"
  using record_to_position_apart [of i j "map_manager t"]
  by (cases "i = j") (auto simp: record_data_def record_value_begin_def)

lemma record_write_stores:
  assumes st: "record_stores t content" and key: "content key = [(d, old)]" and len: "length v = value_size_of t"
  shows "record_stores (map_write d v t) (content(key := [(d, v)]))"
proof -
  obtain n where layout: "records_laid_out t n"
    and hold: "buckets_hold \<lparr>next_row = next_index t, key_of = record_key t,
       value_of = (\<lambda>i. (record_data t i, record_value t i)), is_row = record_below n\<rparr>
       record_empty (map_bucket_index t) (map_header t) content"
    using st by (auto simp: record_stores_def)
  have room: "record_value_begin t \<le> record_size (map_manager t)" using layout by (simp add: records_laid_out_def)
  obtain j where j: "d = record_data t j" "record_key t j = key"
    using record_stores_value(3) [OF st, of d old key] key by auto
  have same: "record_data t i = d \<longleftrightarrow> i = j" for i using record_data_inject [OF room] j(1) by blast
  let ?t = "map_write d v t"
  note rows = record_write_rows [OF layout len, of j, folded j(1)]
  let ?f = "\<lambda>(e, w). (e, if e = d then v else w)"
  have "buckets_hold \<lparr>next_row = next_index ?t, key_of = record_key ?t,
       value_of = (\<lambda>i. (record_data ?t i, record_value ?t i)), is_row = record_below n\<rparr>
       record_empty (map_bucket_index t) (map_header t) (\<lambda>key. map ?f (content key))"
    by (rule buckets_hold_map [OF hold]) (simp add: rows same)
  moreover have "(\<lambda>key. map ?f (content key)) = content(key := [(d, v)])"
  proof
    fix k
    have "e \<noteq> d" if "(e, w) \<in> set (content k)" "k \<noteq> key" for e w
      using record_stores_value(3) [OF st that(1)] that(2) j record_data_inject [OF room] by metis
    then have "k \<noteq> key \<Longrightarrow> map ?f (content k) = content k" by (intro map_idI) auto
    then show "map ?f (content k) = (content(key := [(d, v)])) k" by (simp add: key)
  qed
  moreover have "map_bucket_index ?t = map_bucket_index t" "map_header ?t = map_header t" "records_laid_out ?t n"
    using layout
    by (simp_all add: fun_eq_iff map_bucket_index_def map_write_def write_record_def records_laid_out_def record_value_begin_def)
  ultimately show ?thesis by (auto simp: record_stores_def)
qed

section \<open>What a list holds\<close>

definition list_reads :: "record_manager \<Rightarrow> u32 \<Rightarrow> bytes \<Rightarrow> bool" where
  "list_reads m i v \<longleftrightarrow> length v + 4 \<le> record_size m \<and> read_at (record_file m) (list_get m i) (length v) = v"

definition list_holds :: "record_manager \<Rightarrow> u32 \<Rightarrow> bytes list \<Rightarrow> bool" where
  "list_holds m start vs \<longleftrightarrow> (\<exists>is. chain (list_next m) record_empty start is \<and>
     (\<forall>i \<in> set is. unat i < unat (record_count m)) \<and> list_all2 (list_reads m) is vs)"

definition list_push :: "u32 \<Rightarrow> bytes \<Rightarrow> record_manager \<Rightarrow> u32 \<times> record_manager" where
  "list_push start v m = (let (i, m) = list_insert start m in (i, write_record (list_get m i) v m))"

lemma list_push_result:
  fixes m :: record_manager and start :: u32 and v :: bytes
  defines "m' \<equiv> snd (list_push start v m)"
  assumes "length v + 4 \<le> record_size m" "unat (record_count m) + 1 < 2 ^ 32"
  shows "fst (list_push start v m) = record_count m" "unat (record_count m') = Suc (unat (record_count m))"
    "record_size m' = record_size m" "list_next m' (record_count m) = start" "list_reads m' (record_count m) v"
    "i \<noteq> record_count m \<Longrightarrow> list_next m' i = list_next m i"
    "i \<noteq> record_count m \<Longrightarrow> list_reads m' i w = list_reads m i w"
proof -
  let ?new = "record_count m"
  have m': "m' = m\<lparr>record_count := ?new + 1, record_file := write_at (write_at (record_file m)
      (record_to_position m ?new) (to_little_endian start)) (record_to_position m ?new + 4) v\<rparr>"
    by (simp add: m'_def list_push_def list_insert_def new_records_def write_record_def list_get_def Let_def)
  show "fst (list_push start v m) = ?new"
    by (simp add: list_push_def list_insert_def new_records_def Let_def)
  show "unat (record_count m') = Suc (unat ?new)"
    using unat_add_lem [of ?new 1] assms(3) by (simp add: m')
  show "record_size m' = record_size m" by (simp add: m')
  show "list_next m' ?new = start" by (simp add: m' list_next_def read_write_other read_write_same)
  show "list_reads m' ?new v" using assms(2) by (simp add: m' list_reads_def list_get_def read_write_same)
  have frame: "read_at (record_file m') (record_to_position m i + a) k = read_at (record_file m) (record_to_position m i + a) k"
    if "i \<noteq> ?new" "a + k \<le> record_size m" for a k
    using record_read_write [of ?new i a k m 0] record_read_write [of ?new i a k m 4] that assms(2) by (simp add: m')
  show "list_next m' i = list_next m i" if "i \<noteq> ?new"
    using frame [OF that, of 0 4] assms(2) by (simp add: list_next_def m')
  show "list_reads m' i w = list_reads m i w" if "i \<noteq> ?new"
    using frame [OF that, of 4 "length w"] by (auto simp: list_reads_def list_get_def m')
qed

lemma list_push_keeps:
  assumes "length v + 4 \<le> record_size m" "unat (record_count m) + 1 < 2 ^ 32" "list_holds m s ws"
  shows "list_holds (snd (list_push start v m)) s ws"
proof -
  note res = list_push_result [OF assms(1,2)]
  obtain js where js: "chain (list_next m) record_empty s js" "\<forall>i \<in> set js. unat i < unat (record_count m)"
    "list_all2 (list_reads m) js ws" using assms(3) by (auto simp: list_holds_def)
  then have fresh: "i \<noteq> record_count m" if "i \<in> set js" for i using that by auto
  let ?m = "snd (list_push start v m)"
  have "chain (list_next ?m) record_empty s js" using js(1) chain_cong [of js "list_next ?m" "list_next m"] res(6) fresh by auto
  moreover have "list_all2 (list_reads ?m) js ws"
    using js(3) by (rule list.rel_mono_strong) (use res(7) fresh in auto)
  moreover have "unat (record_count ?m) = Suc (unat (record_count m))" by (rule res(2))
  ultimately show ?thesis using js(2) unfolding list_holds_def by (intro exI [of _ js]) auto
qed

lemma list_push_holds:
  assumes "length v + 4 \<le> record_size m" "unat (record_count m) + 1 < 2 ^ 32" "list_holds m start vs"
  shows "list_holds (snd (list_push start v m)) (fst (list_push start v m)) (v # vs)"
proof -
  note res = list_push_result [OF assms(1,2), of start]
  obtain js where js: "chain (list_next (snd (list_push start v m))) record_empty start js"
    "\<forall>i \<in> set js. unat i < unat (record_count (snd (list_push start v m)))"
    "list_all2 (list_reads (snd (list_push start v m))) js vs"
    using list_push_keeps [OF assms, of start] by (auto simp: list_holds_def)
  have "unat (record_count m) < unat (record_empty :: u32)" using assms(2) by simp
  then have "record_count m \<noteq> record_empty" by auto
  then show ?thesis unfolding list_holds_def
    using js res(1,2,4,5) by (intro exI [of _ "record_count m # js"]) auto
qed

lemma multimap_iterate_chain:
  "chain (list_next m) record_empty start is \<Longrightarrow> multimap_iterate m start = Returns is"
  by (induction "is" arbitrary: start) (subst multimap_iterate.simps, auto)+

section \<open>What the multimap holds\<close>

definition multimap_entry :: "record_manager \<Rightarrow> (nat \<times> bytes) list \<Rightarrow> bytes list \<Rightarrow> bool" where
  "multimap_entry records entry vs \<longleftrightarrow> vs = [] \<and> entry = [] \<or>
     vs \<noteq> [] \<and> (\<exists>d start. entry = [(d, to_little_endian start)] \<and> list_holds records start vs)"

definition multimap_holds :: "record_multimap \<Rightarrow> (bytes \<Rightarrow> bytes list) \<Rightarrow> bool" where
  "multimap_holds mm content \<longleftrightarrow> value_size_of (multimap_map mm) = 4 \<and>
     (\<exists>entries. record_stores (multimap_map mm) entries \<and>
        (\<forall>key. multimap_entry (multimap_records mm) (entries key) (content key)))"

definition multimap_fits :: "bytes \<Rightarrow> bytes \<Rightarrow> record_multimap \<Rightarrow> bool" where
  "multimap_fits key v mm \<longleftrightarrow> length key = map_key_size (multimap_map mm) \<and>
     length v + 4 \<le> record_size (multimap_records mm) \<and>
     unat (record_count (multimap_records mm)) + 1 < 2 ^ 32 \<and>
     unat (record_count (map_manager (multimap_map mm))) + 1 < 2 ^ 32"

lemma add_row_as_push:
  "create_new key v mm = mm\<lparr>multimap_records := snd (list_push record_empty v (multimap_records mm)),
     multimap_map := record_store key (to_little_endian (fst (list_push record_empty v (multimap_records mm)))) (multimap_map mm)\<rparr>"
  "add_to_list d v mm =
     (let old_begin = from_little_endian (read_at (map_file (multimap_map mm)) d 4)
      in mm\<lparr>multimap_records := snd (list_push old_begin v (multimap_records mm)),
            multimap_map := map_write d (to_little_endian (fst (list_push old_begin v (multimap_records mm)))) (multimap_map mm)\<rparr>)"
  by (simp_all add: create_new_def add_to_list_def list_create_def list_push_def split_def Let_def)

lemma multimap_holds_update:
  assumes "record_stores (multimap_map mm) (entries(key := entry))" "value_size_of (multimap_map mm) = 4"
    "multimap_entry (multimap_records mm) entry vs"
    "\<And>k. multimap_entry (multimap_records mm) (entries k) (content k)"
  shows "multimap_holds mm (content(key := vs))"
  unfolding multimap_holds_def using assms by (intro conjI exI [of _ "entries(key := entry)"]) auto

lemma multimap_entry_cons:
  "list_holds m start (v # vs) \<Longrightarrow> multimap_entry m [(d, to_little_endian start)] (v # vs)"
  by (auto simp: multimap_entry_def)

lemma add_row_holds:
  assumes "multimap_holds mm content" and fits: "multimap_fits key v mm"
  shows "\<exists>mm'. add_row key v mm = Returns mm' \<and> multimap_holds mm' (content(key := v # content key))"
proof -
  let ?t = "multimap_map mm" and ?m = "multimap_records mm"
  obtain entries where st: "record_stores ?t entries" and size: "value_size_of ?t = 4"
    and entry: "\<And>key. multimap_entry ?m (entries key) (content key)"
    using assms(1) by (auto simp: multimap_holds_def)
  have room: "length v + 4 \<le> record_size ?m" "unat (record_count ?m) + 1 < 2 ^ 32"
    using fits by (simp_all add: multimap_fits_def)
  have kept: "multimap_entry (snd (list_push start v ?m)) (entries k) (content k)" for start k
    using entry [of k] list_push_keeps [OF room] unfolding multimap_entry_def by blast
  show ?thesis
  proof (cases "content key")
    case Nil
    then have none: "entries key = []" using entry [of key] by (auto simp: multimap_entry_def)
    let ?p = "list_push record_empty v ?m"
    have "list_holds ?m record_empty []" by (auto simp: list_holds_def intro!: exI [of _ "[]"])
    then have new: "list_holds (snd ?p) (fst ?p) [v]" by (rule list_push_holds [OF room])
    have "record_fits key (to_little_endian (fst ?p)) ?t"
      using fits size by (simp add: record_fits_def multimap_fits_def)
    from record_store_stores [OF st this]
    have "multimap_holds (create_new key v mm) (content(key := [v]))"
      using multimap_entry_cons [OF new] kept none size fits record_store_result(1,5) [of key ?t]
      by (intro multimap_holds_update) (simp_all add: add_row_as_push multimap_fits_def record_value_begin_def)
    then show ?thesis using records.find [OF st, of key] none Nil by (simp add: add_row_def)
  next
    case (Cons w ws)
    then obtain d start where e: "entries key = [(d, to_little_endian start)]" "list_holds ?m start (content key)"
      using entry [of key] by (auto simp: multimap_entry_def)
    have start: "from_little_endian (read_at (map_file ?t) d 4) = start"
      using record_stores_value(1) [OF st, of d "to_little_endian start" key] e(1) by simp
    let ?p = "list_push start v ?m"
    have new: "list_holds (snd ?p) (fst ?p) (v # content key)" by (rule list_push_holds [OF room e(2)])
    have "record_stores (map_write d (to_little_endian (fst ?p)) ?t) (entries(key := [(d, to_little_endian (fst ?p))]))"
      using record_write_stores [OF st e(1)] size by simp
    then have "multimap_holds (add_to_list d v mm) (content(key := v # content key))"
      using multimap_entry_cons [OF new] kept size
      by (intro multimap_holds_update)
        (simp_all add: add_row_as_push start map_write_def write_record_def record_value_begin_def)
    then show ?thesis using records.find [OF st, of key] e(1) by (simp add: add_row_def)
  qed
qed

lemma list_holds_tail:
  assumes "list_holds m start (v # vs)"
  shows "list_holds m (list_next m start) vs" "vs = [] \<longleftrightarrow> list_next m start = record_empty"
proof -
  obtain ns where "chain (list_next m) record_empty start ns" "\<forall>i \<in> set ns. unat i < unat (record_count m)"
    "list_all2 (list_reads m) ns (v # vs)"
    using assms unfolding list_holds_def by blast
  moreover from this(3) obtain i js where "ns = i # js" by (cases ns) auto
  ultimately have js: "chain (list_next m) record_empty (list_next m start) js"
    "\<forall>i \<in> set js. unat i < unat (record_count m)" "list_all2 (list_reads m) js vs"
    by simp_all
  then show "list_holds m (list_next m start) vs" unfolding list_holds_def by blast
  have "js = [] \<longleftrightarrow> vs = []" using js(3) by auto
  moreover have "js = [] \<longleftrightarrow> list_next m start = record_empty" using js(1) by (cases js) auto
  ultimately show "vs = [] \<longleftrightarrow> list_next m start = record_empty" by simp
qed

lemma delete_last_row_holds:
  assumes "multimap_holds mm content" and row: "content key \<noteq> []"
  shows "\<exists>mm'. delete_last_row key mm = Returns mm' \<and> multimap_holds mm' (content(key := tl (content key)))"
proof -
  let ?t = "multimap_map mm" and ?m = "multimap_records mm"
  obtain entries where st: "record_stores ?t entries" and size: "value_size_of ?t = 4"
    and entry: "\<And>key. multimap_entry ?m (entries key) (content key)"
    using assms(1) by (auto simp: multimap_holds_def)
  obtain v vs where vs: "content key = v # vs" using row by (cases "content key") auto
  obtain d start where e: "entries key = [(d, to_little_endian start)]" "list_holds ?m start (v # vs)"
    using entry [of key] vs by (auto simp: multimap_entry_def)
  have find: "record_find ?t key = Returns (Some d)" using records.find [OF st, of key] e(1) by simp
  have start: "from_little_endian (read_at (map_file ?t) d 4) = start"
    using record_stores_value(1) [OF st, of d "to_little_endian start" key] e(1) by simp
  note tail = list_holds_tail [OF e(2)]
  show ?thesis
  proof (cases "list_next ?m start = record_empty")
    case True
    obtain t' where t': "record_unlink key ?t = Returns (True, t')" "record_stores t' (entries(key := []))"
      "\<exists>p n. t' = map_link key p ?t \<or> t' = write_next_index p n ?t"
      using record_buckets.unlink_stored [OF st, of key] e(1) by auto
    then have "value_size_of t' = 4"
      using size by (auto simp: map_link_def write_next_index_def map_write_def write_record_def record_value_begin_def)
    then have "multimap_holds (mm\<lparr>multimap_map := t'\<rparr>) (content(key := []))"
      using t'(2) entry by (intro multimap_holds_update) (simp_all add: multimap_entry_def)
    then show ?thesis using True find start t'(1) tail(2) vs by (simp add: delete_last_row_def)
  next
    case False
    let ?n = "list_next ?m start"
    have "record_stores (map_write d (to_little_endian ?n) ?t) (entries(key := [(d, to_little_endian ?n)]))"
      using record_write_stores [OF st e(1)] size by simp
    moreover have "multimap_entry ?m [(d, to_little_endian ?n)] vs"
      using tail False by (cases vs) (auto intro: multimap_entry_cons)
    ultimately have "multimap_holds (mm\<lparr>multimap_map := map_write d (to_little_endian ?n) ?t\<rparr>) (content(key := vs))"
      using entry size
      by (intro multimap_holds_update) (simp_all add: map_write_def write_record_def record_value_begin_def)
    then show ?thesis using False find start vs by (simp add: delete_last_row_def)
  qed
qed

text \<open>Iterating from what \<open>lookup\<close> returns visits the rows of the key, the newest first.\<close>

lemma lookup_iterate:
  assumes "multimap_holds mm content"
  shows "\<exists>start is. lookup_row mm key = Returns start \<and> multimap_iterate (multimap_records mm) start = Returns is \<and>
    list_all2 (list_reads (multimap_records mm)) is (content key)"
proof -
  let ?t = "multimap_map mm" and ?m = "multimap_records mm"
  obtain entries where st: "record_stores ?t entries" and entry: "multimap_entry ?m (entries key) (content key)"
    using assms(1) by (auto simp: multimap_holds_def)
  show ?thesis
  proof (cases "content key")
    case Nil
    then have "record_find ?t key = Returns None"
      using entry records.find [OF st, of key] by (auto simp: multimap_entry_def)
    then show ?thesis using Nil multimap_iterate_chain [of ?m record_empty "[]"] by (auto simp: lookup_row_def)
  next
    case (Cons v vs)
    then obtain d start where e: "entries key = [(d, to_little_endian start)]" "list_holds ?m start (content key)"
      using entry by (auto simp: multimap_entry_def)
    have "lookup_row mm key = Returns start"
      using records.find [OF st, of key] e(1) record_stores_value(1) [OF st, of d "to_little_endian start" key]
      by (simp add: lookup_row_def)
    then show ?thesis using e(2) multimap_iterate_chain by (auto simp: list_holds_def)
  qed
qed

section \<open>Properties\<close>

text \<open>
  \<open>hash_table_multimap_record_size\<close>: the key, the index of the next record and the index of the
  first row of the key.
\<close>

definition multimap_record_size :: "nat \<Rightarrow> nat" where
  "multimap_record_size key_size = key_size + 4 + 4"

text \<open>How \<open>history_database::create\<close> makes the two files; \<open>None\<close> when a step refuses.\<close>

definition multimap_create ::
  "nat \<Rightarrow> (bytes \<Rightarrow> nat) \<Rightarrow> nat \<Rightarrow> nat \<Rightarrow> memory \<Rightarrow> memory \<Rightarrow> record_multimap option" where
  "multimap_create key_size hash buckets row_size m rows =
     (case (header_create record_empty buckets,
            record_create (record_manager_init m (multimap_record_size key_size)),
            record_create (record_manager_init rows row_size)) of
        (Some header, (True, manager), (True, records)) \<Rightarrow>
          Some \<lparr>multimap_map = \<lparr>map_key_size = key_size, map_hash = hash, map_header = header,
                  map_manager = read_count manager\<rparr>,
                multimap_records = read_count records\<rparr>
      | _ \<Rightarrow> None)"

definition new_multimap :: "nat \<Rightarrow> (bytes \<Rightarrow> nat) \<Rightarrow> nat \<Rightarrow> nat \<Rightarrow> memory \<Rightarrow> memory \<Rightarrow> record_multimap" where
  "new_multimap key_size hash buckets row_size m rows =
     \<lparr>multimap_map = \<lparr>map_key_size = key_size, map_hash = hash, map_header = replicate buckets record_empty,
        map_manager = \<lparr>record_file = write_at m 0 (to_little_endian (0 :: u32)), record_count = 0,
          record_size = multimap_record_size key_size\<rparr>\<rparr>,
      multimap_records = \<lparr>record_file = write_at rows 0 (to_little_endian (0 :: u32)), record_count = 0,
        record_size = row_size\<rparr>\<rparr>"

lemma multimap_created:
  "0 < buckets \<Longrightarrow>
     multimap_create key_size hash buckets row_size m rows = Some (new_multimap key_size hash buckets row_size m rows)"
  by (simp add: multimap_create_def new_multimap_def header_create_def record_create_def record_manager_init_def
      write_count_def read_count_def read_write_same)

lemma new_multimap_holds:
  assumes "0 < buckets"
  shows "multimap_holds (new_multimap key_size hash buckets row_size m rows) (\<lambda>_. [])"
proof -
  let ?t = "multimap_map (new_multimap key_size hash buckets row_size m rows)"
  note defs = new_multimap_def multimap_record_size_def record_value_begin_def
  have "records_laid_out ?t 0" "value_size_of ?t = 4" by (simp_all add: defs records_laid_out_def)
  moreover have "buckets_hold \<lparr>next_row = next_index ?t, key_of = record_key ?t,
       value_of = (\<lambda>i. (record_data ?t i, record_value ?t i)), is_row = record_below 0\<rparr>
       record_empty (map_bucket_index ?t) (map_header ?t) (\<lambda>_. [])"
  proof -
    have "map_header ?t = replicate buckets record_empty" "\<And>key. map_bucket_index ?t key < buckets"
      using assms by (simp_all add: defs map_bucket_index_def remainder_def)
    then show ?thesis by (simp only:) (rule buckets_hold_empty [OF assms])
  qed
  ultimately have "record_stores ?t (\<lambda>_. [])" "value_size_of ?t = 4" unfolding record_stores_def by blast+
  then show ?thesis unfolding multimap_holds_def by (intro conjI exI [of _ "\<lambda>_. []"]) (simp_all add: multimap_entry_def)
qed

text \<open>The multimap is a map of stacks, too. A row takes one record of the list and at most one of the map.\<close>

interpretation multimap: stack_map multimap_holds add_row delete_last_row
  "\<lambda>mm. (map_key_size (multimap_map mm), record_size (multimap_records mm))"
  "\<lambda>(s, n) key v. length key = s \<and> length v + 4 \<le> n" "\<lambda>_ _. 1"
  "\<lambda>mm. 2 ^ 32 - 2 - max (unat (record_count (multimap_records mm))) (unat (record_count (map_manager (multimap_map mm))))"
proof (unfold_locales, goal_cases)
  case (1 mm content key v)
  have fits: "multimap_fits key v mm" using 1(2,3) by (auto simp: multimap_fits_def)
  then have succ: "unat (record_count (multimap_records mm) + 1) = Suc (unat (record_count (multimap_records mm)))"
    "unat (record_count (map_manager (multimap_map mm)) + 1) = Suc (unat (record_count (map_manager (multimap_map mm))))"
    using unat_add_lem [of "record_count (multimap_records mm)" 1]
      unat_add_lem [of "record_count (map_manager (multimap_map mm))" 1] by (simp_all add: multimap_fits_def)
  obtain mm' where run: "add_row key v mm = Returns mm'" and holds: "multimap_holds mm' (content(key := v # content key))"
    using add_row_holds [OF 1(1) fits] by blast
  note defs = list_push_def list_insert_def new_records_def write_record_def map_write_def Let_def
  have key: "length key = map_key_size (multimap_map mm)" using fits by (simp add: multimap_fits_def)
  have "mm' = create_new key v mm \<or> (\<exists>d. mm' = add_to_list d v mm)"
    using run by (auto simp: add_row_def bind_eq_Some_conv split: option.split_asm)
  then have "map_key_size (multimap_map mm') = map_key_size (multimap_map mm) \<and>
      record_size (multimap_records mm') = record_size (multimap_records mm) \<and>
      unat (record_count (multimap_records mm')) = Suc (unat (record_count (multimap_records mm))) \<and>
      unat (record_count (map_manager (multimap_map mm'))) \<le> Suc (unat (record_count (map_manager (multimap_map mm))))"
    using succ record_store_result [OF key] by (auto simp: add_row_as_push defs)
  then show ?case using run holds by auto
next
  case (2 mm content key)
  obtain mm' where run: "delete_last_row key mm = Returns mm'" and holds: "multimap_holds mm' (content(key := tl (content key)))"
    using delete_last_row_holds [OF 2] by blast
  obtain entries where st: "record_stores (multimap_map mm) entries"
    and entry: "multimap_entry (multimap_records mm) (entries key) (content key)"
    using 2(1) by (auto simp: multimap_holds_def)
  have "entries key \<noteq> []" using entry 2(2) by (auto simp: multimap_entry_def)
  then obtain t' where "record_unlink key (multimap_map mm) = Returns (True, t')"
    "\<exists>p n. t' = map_link key p (multimap_map mm) \<or> t' = write_next_index p n (multimap_map mm)"
    using record_buckets.unlink_stored [OF st] by blast
  then have "multimap_records mm' = multimap_records mm \<and> map_key_size (multimap_map mm') = map_key_size (multimap_map mm) \<and>
      record_count (map_manager (multimap_map mm')) = record_count (map_manager (multimap_map mm))"
    using run
    by (auto simp: delete_last_row_def bind_eq_Some_conv Let_def map_link_def write_next_index_def map_write_def
        write_record_def split: option.split_asm if_split_asm)
  then show ?case using run holds by auto
qed

text \<open>
  C12: The record multimap, on which the address history is built, implements a stack of rows for
  every key, through a hash table of first rows and linked lists in a second file. Every sequence
  of \<open>add_row\<close> and \<open>delete_last_row\<close> on a new multimap that never deletes from a key with no row
  runs to its end, and then the iteration from what \<open>lookup\<close> returns for a key ends, too, and
  visits exactly the rows that are left under the key, the newest first.
\<close>

theorem multimap_operations:
  assumes "0 < buckets" "spec_run ops (\<lambda>_. []) = Some stacks"
    "\<forall>(key, v) \<in> set (pushed ops). length key = key_size \<and> length v + 4 \<le> row_size"
    "length (pushed ops) < 2 ^ 32 - 1"
  shows "\<exists>mm. multimap_create key_size hash buckets row_size m rows \<bind> store_run add_row delete_last_row ops =
      Returns mm \<and>
    (\<forall>key. \<exists>start is. lookup_row mm key = Returns start \<and> multimap_iterate (multimap_records mm) start = Returns is \<and>
       list_all2 (\<lambda>i v. read_at (record_file (multimap_records mm)) (list_get (multimap_records mm) i) (length v) = v)
         is (stacks key))"
proof -
  let ?mm = "new_multimap key_size hash buckets row_size m rows"
  have "map_key_size (multimap_map ?mm) = key_size" "record_size (multimap_records ?mm) = row_size"
    "record_count (multimap_records ?mm) = 0" "record_count (map_manager (multimap_map ?mm)) = 0"
    by (simp_all add: new_multimap_def)
  moreover have "(\<Sum>(key, v) \<leftarrow> pushed ops. 1) = length (pushed ops)"
    by (induction "pushed ops") (auto simp: sum_list_triv split_def)
  ultimately obtain mm where mm: "store_run add_row delete_last_row ops ?mm = Returns mm" "multimap_holds mm stacks"
    using multimap.run_simulates [OF new_multimap_holds [OF assms(1)] assms(2), of key_size hash row_size m rows]
      assms(3,4) by auto
  have "\<exists>start is. lookup_row mm key = Returns start \<and> multimap_iterate (multimap_records mm) start = Returns is \<and>
       list_all2 (\<lambda>i v. read_at (record_file (multimap_records mm)) (list_get (multimap_records mm) i) (length v) = v)
         is (stacks key)" for key
    using lookup_iterate [OF mm(2), of key] by (auto simp: list_reads_def elim!: list_all2_mono)
  with mm(1) show ?thesis unfolding multimap_created [OF assms(1)] by (intro exI [of _ mm]) simp
qed

theorem multimap_operations_witness:
  "\<exists>mm. multimap_create 1 (\<lambda>_. 0) 1 8 (\<lambda>_. 0) (\<lambda>_. 0) \<bind> store_run add_row delete_last_row
       [Push [1] [10], Push [2] [20], Push [1] [11], Push [1] [12], Pop [2], Pop [1]] = Returns mm \<and>
     (\<exists>start i j. lookup_row mm [1] = Returns start \<and> multimap_iterate (multimap_records mm) start = Returns [i, j] \<and>
        read_at (record_file (multimap_records mm)) (list_get (multimap_records mm) i) 1 = [11] \<and>
        read_at (record_file (multimap_records mm)) (list_get (multimap_records mm) j) 1 = [10])"
proof -
  let ?ops = "[Push [1] [10], Push [2] [20], Push [1] [11], Push [1] [12], Pop [2], Pop [1]]"
  have "spec_run ?ops (\<lambda>_. []) = Some ((\<lambda>_. [])([1] := [[11], [10]]))" by (simp add: fun_eq_iff)
  from multimap_operations [OF _ this, of 1 1 8 "\<lambda>_. 0" "\<lambda>_. 0" "\<lambda>_. 0"]
  obtain mm where "multimap_create 1 (\<lambda>_. 0) 1 8 (\<lambda>_. 0) (\<lambda>_. 0) \<bind> store_run add_row delete_last_row ?ops = Returns mm"
    and all: "\<forall>key. \<exists>start is. lookup_row mm key = Returns start \<and> multimap_iterate (multimap_records mm) start = Returns is \<and>
       list_all2 (\<lambda>i v. read_at (record_file (multimap_records mm)) (list_get (multimap_records mm) i) (length v) = v)
         is (((\<lambda>_. [])([1] := [[11], [10]])) key)"
    by auto
  moreover from all [rule_format, of "[1]"] obtain start i j where "lookup_row mm [1] = Returns start"
    "multimap_iterate (multimap_records mm) start = Returns [i, j]"
    "read_at (record_file (multimap_records mm)) (list_get (multimap_records mm) i) 1 = [11]"
    "read_at (record_file (multimap_records mm)) (list_get (multimap_records mm) j) 1 = [10]"
    by (auto simp: list_all2_Cons2)
  ultimately show ?thesis by blast
qed

end
