(* ===== verification/Base58.thy ===== *)
theory Base58
  imports Prelude
begin

text \<open>
  The text encoding of addresses and keys: \<open>base_58.cpp\<close>. Encoding and decoding convert between
  base 256 and base 58 in a buffer whose size is computed before; the lemmas show that the buffer
  is always large enough, so that no carry is lost, and that the two conversions are inverse.
\<close>

section \<open>The routines\<close>

definition base58_chars :: bytes where
  "base58_chars = map of_char ''123456789ABCDEFGHJKLMNPQRSTUVWXYZabcdefghijkmnopqrstuvwxyz''"

definition is_base58 :: "bytes \<Rightarrow> bool" where
  "is_base58 str \<longleftrightarrow> list_all (\<lambda>ch. ch \<in> set base58_chars) str"

text \<open>\<open>std::string::find\<close> of a character, with \<open>None\<close> for \<open>npos\<close>.\<close>

primrec string_find :: "u8 \<Rightarrow> bytes \<Rightarrow> nat option" where
  "string_find c [] = None"
| "string_find c (x # xs) = (if x = c then Some 0 else map_option Suc (string_find c xs))"

definition search_first_nonzero :: "bytes \<Rightarrow> bytes" where
  "search_first_nonzero bs = dropWhile (\<lambda>b. b = 0) bs"

definition count_leading :: "u8 \<Rightarrow> bytes \<Rightarrow> nat" where
  "count_leading zero bs = length (takeWhile (\<lambda>b. b = zero) bs)"

text \<open>
  The loop of \<open>pack_value\<close> and of \<open>unpack_char\<close>, from the last element to the first: the digits
  are multiplied by \<open>factor\<close>, the carry is added, and what overflows the first digit is lost.
\<close>

primrec carry_loop :: "nat \<Rightarrow> nat \<Rightarrow> bytes \<Rightarrow> nat \<Rightarrow> bytes" where
  "carry_loop factor base [] carry = []"
| "carry_loop factor base (d # ds) carry =
     (let carry = carry + factor * unat d
      in of_nat (carry mod base) # carry_loop factor base ds (carry div base))"

definition pack_value :: "nat \<Rightarrow> bytes \<Rightarrow> bytes" where
  "pack_value carry indexes = rev (carry_loop 256 58 (rev indexes) carry)"

definition unpack_char :: "nat \<Rightarrow> bytes \<Rightarrow> bytes" where
  "unpack_char carry bs = rev (carry_loop 58 256 (rev bs) carry)"

definition encode_base58 :: "bytes \<Rightarrow> bytes" where
  "encode_base58 unencoded =
     (let leading_zeros = count_leading 0 unencoded;
          number_nonzero = length unencoded - leading_zeros;
          indexes = replicate (number_nonzero * 138 div 100 + 1) 0;
          indexes = fold (\<lambda>b. pack_value (unat b)) (drop leading_zeros unencoded) indexes
      in replicate leading_zeros (base58_chars ! 0) @
         map (\<lambda>i. base58_chars ! unat i) (search_first_nonzero indexes))"

primrec decode_chars :: "bytes \<Rightarrow> bytes \<Rightarrow> bytes option" where
  "decode_chars [] bs = Some bs"
| "decode_chars (c # cs) bs =
     (case string_find c base58_chars of None \<Rightarrow> None | Some carry \<Rightarrow> decode_chars cs (unpack_char carry bs))"

definition decode_base58 :: "bytes \<Rightarrow> bytes option" where
  "decode_base58 encoded =
     (let leading_zeros = count_leading (base58_chars ! 0) encoded;
          data_size = length encoded * 733 div 1000 + 1
      in case decode_chars (drop leading_zeros encoded) (replicate data_size 0) of
           None \<Rightarrow> None
         | Some decoded \<Rightarrow> Some (replicate leading_zeros 0 @ search_first_nonzero decoded))"

section \<open>The alphabet\<close>

lemma base58_chars_simps [simp]: "length base58_chars = 58" "distinct base58_chars"
  by (simp_all add: base58_chars_def)

lemma string_find_nth:
  "distinct cs \<Longrightarrow> i < length cs \<Longrightarrow> string_find (cs ! i) cs = Some i"
proof (induction cs arbitrary: i)
  case (Cons c cs)
  then show ?case by (cases i) auto
qed simp

lemma string_find_Some: "string_find c cs = Some i \<Longrightarrow> i < length cs \<and> cs ! i = c"
  by (induction cs arbitrary: i) (auto split: if_split_asm)

lemma string_find_None: "string_find c cs = None \<longleftrightarrow> c \<notin> set cs"
  by (induction cs) auto

lemma char_zero: "i < 58 \<Longrightarrow> base58_chars ! i = base58_chars ! 0 \<longleftrightarrow> i = 0"
  using nth_eq_iff_index_eq [of base58_chars i 0] by simp

section \<open>Numbers in a base\<close>

text \<open>The number a buffer stands for; the first digit is the most significant one.\<close>

definition number :: "nat \<Rightarrow> bytes \<Rightarrow> nat" where
  "number base ds = foldl (\<lambda>n d. n * base + unat d) 0 ds"

definition digits :: "nat \<Rightarrow> bytes \<Rightarrow> bool" where
  "digits base ds \<longleftrightarrow> (\<forall>d \<in> set ds. unat d < base)"

lemma number_simps [simp]:
  "number base [] = 0" "number base (ds @ [d]) = number base ds * base + unat d"
  by (simp_all add: number_def)

lemma digits_simps [simp]:
  "digits base []" "digits base (d # ds) \<longleftrightarrow> unat d < base \<and> digits base ds"
  "digits base (ds @ es) \<longleftrightarrow> digits base ds \<and> digits base es" "digits base (rev ds) \<longleftrightarrow> digits base ds"
  "digits 256 ds"
  by (auto simp: digits_def)

lemma number_less: "digits base ds \<Longrightarrow> number base ds < base ^ length ds"
proof (induction ds rule: rev_induct)
  case (snoc d ds)
  then have "number base ds + 1 \<le> base ^ length ds" "unat d < base" by auto
  then have "(number base ds + 1) * base \<le> base ^ length ds * base" by (intro mult_le_mono1)
  with \<open>unat d < base\<close> show ?case by (simp add: algebra_simps)
qed simp

lemma number_leading_zeros: "number base (dropWhile (\<lambda>b. b = 0) ds) = number base ds"
proof (induction ds)
  case (Cons d ds)
  then show ?case by (auto simp: number_def)
qed simp

lemma number_Cons: "number base (d # ds) = unat d * base ^ length ds + number base ds"
  by (induction ds rule: rev_induct) (simp_all add: number_def algebra_simps)

lemma number_zeros [simp]: "number base (replicate n 0 @ ds) = number base ds" "number base (replicate n 0) = 0"
  by (induction n) (simp_all add: number_Cons)

lemma unat_of_nat_u8: "n < 256 \<Longrightarrow> unat (of_nat n :: u8) = n"
  by (simp add: unat_of_nat take_bit_nat_eq_self)

text \<open>The digits of a number are unique but for leading zeros.\<close>

lemma number_unique_length:
  "digits base ds \<Longrightarrow> digits base es \<Longrightarrow> length ds = length es \<Longrightarrow> number base ds = number base es \<Longrightarrow> ds = es"
proof (induction ds arbitrary: es rule: rev_induct)
  case (snoc d ds)
  then obtain fs e where es: "es = fs @ [e]" by (cases es rule: rev_cases) auto
  with snoc have "number base ds * base + unat d = number base fs * base + unat e" "unat d < base" "unat e < base"
    by auto
  then have "unat d = unat e" by (metis add.commute mod_less mod_mult_self1)
  with \<open>number base ds * base + unat d = number base fs * base + unat e\<close> \<open>unat d < base\<close>
  have "number base ds = number base fs" by auto
  moreover have "d = e" using \<open>unat d = unat e\<close> by (simp add: word_unat_eq_iff)
  ultimately show ?case using snoc es by auto
qed simp

lemma number_unique:
  assumes "digits base ds" "digits base es" "number base ds = number base es"
    "ds = [] \<or> hd ds \<noteq> 0" "es = [] \<or> hd es \<noteq> 0"
  shows "ds = es"
proof -
  have pad: "ds = es" if "digits base ds" "digits base es" "number base ds = number base es" "length ds \<le> length es"
    "es = [] \<or> hd es \<noteq> 0" for ds es
  proof -
    let ?ds = "replicate (length es - length ds) 0 @ ds"
    have "digits base ?ds" using that(1,2,4) by (cases es) (auto simp: digits_def)
    then have pad: "?ds = es" using number_unique_length [of base ?ds es] that by simp
    have "length es - length ds = 0"
    proof (rule ccontr)
      assume "length es - length ds \<noteq> 0"
      then have "hd ?ds = 0" "?ds \<noteq> []" by (simp_all add: hd_append)
      with pad that(5) show False by simp
    qed
    with pad show ?thesis by simp
  qed
  show ?thesis
    using pad [of ds es] pad [of es ds] assms by (cases "length ds \<le> length es") auto
qed

section \<open>The conversion loops\<close>

lemma length_carry_loop [simp]: "length (carry_loop factor base ds carry) = length ds"
  by (induction ds arbitrary: carry) (simp_all add: Let_def)

text \<open>One pass over a buffer multiplies the number by the factor and adds the carry.\<close>

lemma carry_loop_number:
  assumes "0 < base" "base \<le> 256"
  shows "number base (rev (carry_loop factor base ds carry)) = (number base (rev ds) * factor + carry) mod base ^ length ds"
    "digits base (carry_loop factor base ds carry)"
proof (induction ds arbitrary: carry)
  case (Cons d ds)
  {
    case 1
    let ?c = "carry + factor * unat d"
    have "unat (of_nat (?c mod base) :: u8) = ?c mod base"
      using assms mod_less_divisor [of base ?c] by (intro unat_of_nat_u8) linarith
    then have "number base (rev (carry_loop factor base (d # ds) carry)) =
        (number base (rev ds) * factor + ?c div base) mod base ^ length ds * base + ?c mod base"
      by (simp add: Let_def Cons.IH(1))
    also have "\<dots> = ((number base (rev ds) * factor + ?c div base) * base + ?c mod base) mod base ^ length (d # ds)"
      using mod_mult2_eq [of "(number base (rev ds) * factor + ?c div base) * base + ?c mod base" base "base ^ length ds"]
        assms(1) by (simp add: mult.commute)
    also have "(number base (rev ds) * factor + ?c div base) * base + ?c mod base = number base (rev (d # ds)) * factor + carry"
      by (simp add: algebra_simps)
    finally show ?case .
  next
    case 2
    have "unat (of_nat ((carry + factor * unat d) mod base) :: u8) = (carry + factor * unat d) mod base"
      using assms mod_less_divisor [of base "carry + factor * unat d"] by (intro unat_of_nat_u8) linarith
    with Cons.IH(2) assms(1) show ?case by (simp add: Let_def)
  }
qed simp_all

text \<open>The passes for the digits of a number in the other base.\<close>

lemma passes_number:
  fixes factor base :: nat
  assumes "0 < base" "base \<le> 256" "digits base ds"
  defines "pass \<equiv> \<lambda>e ds. rev (carry_loop factor base (rev ds) (unat (e :: u8)))"
  shows "number base (fold pass es ds) = (number base ds * factor ^ length es + number factor es) mod base ^ length ds"
    "digits base (fold pass es ds)" "length (fold pass es ds) = length ds"
proof (induction es rule: rev_induct)
  case Nil
  {
    case 1 then show ?case using number_less [OF assms(3)] by simp
  next
    case 2 then show ?case using assms(3) by simp
  next
    case 3 then show ?case by simp
  }
next
  case (snoc e es)
  {
    case 1
    have "number base (fold pass (es @ [e]) ds) = (number base (fold pass es ds) * factor + unat e) mod base ^ length ds"
      using carry_loop_number(1) [OF assms(1,2), of factor "rev (fold pass es ds)"] snoc(3) by (simp add: pass_def)
    also have "\<dots> = ((number base ds * factor ^ length es + number factor es) * factor + unat e) mod base ^ length ds"
      unfolding snoc(1) by (metis mod_add_left_eq mod_mult_left_eq)
    finally show ?case by (simp add: algebra_simps)
  next
    case 2
    then show ?case using carry_loop_number(2) [OF assms(1,2)] by (simp add: pass_def)
  next
    case 3
    then show ?case using snoc(3) by (simp add: pass_def)
  }
qed

lemma buffer_enough:
  fixes a b :: nat
  assumes "a ^ q \<le> b ^ p" "0 < q" "1 < b"
  shows "a ^ n \<le> b ^ (n * p div q + 1)"
proof -
  have "(a ^ n) ^ q = (a ^ q) ^ n" by (simp add: power_mult [symmetric] mult.commute)
  also have "\<dots> \<le> (b ^ p) ^ n" using assms(1) by (rule power_mono) simp
  also have "\<dots> = b ^ (n * p)" by (simp add: power_mult [symmetric] mult.commute)
  also have "\<dots> \<le> b ^ ((n * p div q + 1) * q)"
  proof (rule power_increasing)
    have "n * p = n * p div q * q + n * p mod q" by simp
    then have "n * p \<le> n * p div q * q + q" using mod_less_divisor [OF assms(2), of "n * p"] by linarith
    then show "n * p \<le> (n * p div q + 1) * q" by (simp add: algebra_simps)
  qed (use assms(3) in simp)
  also have "\<dots> = (b ^ (n * p div q + 1)) ^ q" by (simp only: power_mult)
  finally show ?thesis using assms(2) by (metis power_mono_iff zero_le)
qed

lemma buffer_58: "256 ^ n \<le> (58 :: nat) ^ (n * 138 div 100 + 1)"
  by (rule buffer_enough) simp_all

lemma buffer_256: "58 ^ n \<le> (256 :: nat) ^ (n * 733 div 1000 + 1)"
proof -
  have "71 * (n * 52 div 71) \<le> n * 52" by simp
  then have "n * 52 div 71 * 1000 \<le> n * 733" by linarith
  then have "n * 52 div 71 \<le> n * 733 div 1000" by (simp add: less_eq_div_iff_mult_less_eq)
  have "58 ^ n \<le> (256 :: nat) ^ (n * 52 div 71 + 1)" by (rule buffer_enough) simp_all
  also have "\<dots> \<le> 256 ^ (n * 733 div 1000 + 1)"
    using \<open>n * 52 div 71 \<le> n * 733 div 1000\<close> by (intro power_increasing) simp_all
  finally show ?thesis .
qed

lemma converted:
  assumes "digits factor es" "factor ^ n \<le> base ^ len" "length es \<le> n" "0 < base" "base \<le> 256" "0 < factor"
  defines "ds \<equiv> search_first_nonzero (fold (\<lambda>e ds. rev (carry_loop factor base (rev ds) (unat e))) es (replicate len 0))"
  shows "number base ds = number factor es" "digits base ds" "ds = [] \<or> hd ds \<noteq> 0"
proof -
  have zeros: "digits base (replicate len 0)" using assms(4) by (simp add: digits_def)
  have "number factor es < factor ^ length es" using number_less [OF assms(1)] .
  also have "\<dots> \<le> factor ^ n" using assms(3,6) by (intro power_increasing) simp_all
  finally have "number factor es < base ^ len" using assms(2) by simp
  then show "number base ds = number factor es"
    using passes_number(1) [OF assms(4,5) zeros, of factor es]
    by (simp add: ds_def search_first_nonzero_def number_leading_zeros)
  show "digits base ds"
    using passes_number(2) [OF assms(4,5) zeros, of factor es]
    by (auto simp: ds_def search_first_nonzero_def digits_def dest: set_dropWhileD)
  show "ds = [] \<or> hd ds \<noteq> 0"
    unfolding ds_def search_first_nonzero_def by (meson hd_dropWhile)
qed

lemma leading_split:
  "bs = replicate (count_leading zero bs) zero @ drop (count_leading zero bs) bs"
  "drop (count_leading zero bs) bs = [] \<or> hd (drop (count_leading zero bs) bs) \<noteq> zero"
proof -
  have "takeWhile (\<lambda>b. b = zero) bs = replicate (count_leading zero bs) zero"
    unfolding count_leading_def by (metis (mono_tags) replicate_length_same set_takeWhileD)
  moreover have drop: "drop (count_leading zero bs) bs = dropWhile (\<lambda>b. b = zero) bs"
    by (simp add: count_leading_def dropWhile_eq_drop)
  ultimately show "bs = replicate (count_leading zero bs) zero @ drop (count_leading zero bs) bs"
    by (metis takeWhile_dropWhile_id)
  show "drop (count_leading zero bs) bs = [] \<or> hd (drop (count_leading zero bs) bs) \<noteq> zero"
    unfolding drop by (meson hd_dropWhile)
qed

lemma count_leading_replicate:
  "ds = [] \<or> hd ds \<noteq> zero \<Longrightarrow> count_leading zero (replicate n zero @ ds) = n"
  by (cases ds) (simp_all add: count_leading_def takeWhile_append)

section \<open>Encoding and decoding\<close>

lemma encoded_digits:
  assumes "ds = [] \<or> hd ds \<noteq> 0" "digits 256 ds"
  obtains ix where "encode_base58 (replicate n 0 @ ds) = replicate n (base58_chars ! 0) @ map (\<lambda>i. base58_chars ! unat i) ix"
    "digits 58 ix" "ix = [] \<or> hd ix \<noteq> 0" "number 58 ix = number 256 ds"
proof -
  let ?ix = "search_first_nonzero (fold (\<lambda>b. pack_value (unat b)) ds (replicate (length ds * 138 div 100 + 1) 0))"
  have "encode_base58 (replicate n 0 @ ds) = replicate n (base58_chars ! 0) @ map (\<lambda>i. base58_chars ! unat i) ?ix"
    unfolding encode_base58_def count_leading_replicate [OF assms(1)] by (simp add: Let_def)
  moreover have "number 58 ?ix = number 256 ds \<and> digits 58 ?ix \<and> (?ix = [] \<or> hd ?ix \<noteq> 0)"
    using converted [OF assms(2) buffer_58 [of "length ds"]] by (simp add: pack_value_def [abs_def])
  ultimately show ?thesis using that by blast
qed

lemma decode_chars_digits:
  "digits 58 ix \<Longrightarrow> decode_chars (map (\<lambda>i. base58_chars ! unat i) ix) bs = Some (fold (\<lambda>i. unpack_char (unat i)) ix bs)"
  by (induction ix arbitrary: bs) (simp_all add: string_find_nth)

lemma decoded_digits:
  assumes "ix = [] \<or> hd ix \<noteq> 0" "digits 58 ix"
  obtains ds where "decode_base58 (replicate n (base58_chars ! 0) @ map (\<lambda>i. base58_chars ! unat i) ix) =
      Some (replicate n 0 @ ds)"
    "ds = [] \<or> hd ds \<noteq> 0" "number 256 ds = number 58 ix"
proof -
  let ?cs = "map (\<lambda>i. base58_chars ! unat i) ix" and ?len = "(n + length ix) * 733 div 1000 + 1"
  let ?ds = "search_first_nonzero (fold (\<lambda>i. unpack_char (unat i)) ix (replicate ?len 0))"
  have "?cs = [] \<or> hd ?cs \<noteq> base58_chars ! 0"
    using assms char_zero [of "unat (hd ix)"] by (cases ix) (auto simp: word_unat_eq_iff)
  note leading = count_leading_replicate [OF this, of n]
  have "decode_base58 (replicate n (base58_chars ! 0) @ ?cs) = Some (replicate n 0 @ ?ds)"
    unfolding decode_base58_def leading by (simp add: Let_def decode_chars_digits [OF assms(2)])
  moreover have "number 256 ?ds = number 58 ix \<and> (?ds = [] \<or> hd ?ds \<noteq> 0)"
    using converted [OF assms(2) buffer_256 [of "n + length ix"]] by (simp add: unpack_char_def [abs_def])
  ultimately show ?thesis using that by blast
qed

lemma decode_chars_Some:
  "decode_chars cs bs \<noteq> None \<longleftrightarrow> is_base58 cs"
  by (induction cs arbitrary: bs)
    (auto simp: is_base58_def string_find_None dest!: string_find_Some split: option.split)

lemma base58_digits:
  assumes "is_base58 cs"
  obtains ix where "cs = map (\<lambda>i. base58_chars ! unat i) ix" "digits 58 ix"
proof -
  have "\<exists>ix. cs = map (\<lambda>i. base58_chars ! unat i) ix \<and> digits 58 ix" using assms
  proof (induction cs)
    case (Cons c cs)
    then obtain k ix where "k < 58" "c = base58_chars ! k" "cs = map (\<lambda>i. base58_chars ! unat i) ix" "digits 58 ix"
      by (auto simp: is_base58_def in_set_conv_nth)
    then show ?case by (intro exI [of _ "of_nat k # ix"]) (simp add: unat_of_nat_u8)
  qed simp
  then show ?thesis using that by blast
qed

lemma is_base58_leading:
  "is_base58 (drop (count_leading (base58_chars ! 0) str) str) \<longleftrightarrow> is_base58 str"
proof -
  have "is_base58 (replicate n (base58_chars ! 0) @ cs) \<longleftrightarrow> is_base58 cs" for n cs
    by (auto simp: is_base58_def list_all_iff)
  then show ?thesis using leading_split(1) [where zero = "base58_chars ! 0" and bs = str] by metis
qed

lemma decode_encode: "decode_base58 (encode_base58 bs) = Some bs"
proof -
  define n where "n = count_leading 0 bs"
  define ds where "ds = drop n bs"
  have bs: "bs = replicate n 0 @ ds" "ds = [] \<or> hd ds \<noteq> 0"
    using leading_split [where zero = 0 and bs = bs] by (simp_all add: n_def ds_def)
  obtain ix where enc: "encode_base58 bs = replicate n (base58_chars ! 0) @ map (\<lambda>i. base58_chars ! unat i) ix"
    and i: "digits 58 ix" "ix = [] \<or> hd ix \<noteq> 0" "number 58 ix = number 256 ds"
    unfolding bs(1) by (rule encoded_digits [OF bs(2), of n]) simp
  obtain es where "decode_base58 (encode_base58 bs) = Some (replicate n 0 @ es)" "es = [] \<or> hd es \<noteq> 0"
    "number 256 es = number 58 ix"
    unfolding enc by (rule decoded_digits [OF i(2,1), of n])
  moreover from this have "es = ds" using number_unique [of 256 es ds] bs(2) i(3) by simp
  ultimately show ?thesis using bs(1) by simp
qed

lemma encode_decode:
  assumes "decode_base58 str = Some bs"
  shows "encode_base58 bs = str"
proof -
  define n where "n = count_leading (base58_chars ! 0) str"
  define cs where "cs = drop n str"
  have str: "str = replicate n (base58_chars ! 0) @ cs" "cs = [] \<or> hd cs \<noteq> base58_chars ! 0"
    using leading_split [where zero = "base58_chars ! 0" and bs = str] by (simp_all add: n_def cs_def)
  have "is_base58 cs"
    using assms decode_chars_Some [of cs "replicate (length str * 733 div 1000 + 1) 0"]
    by (auto simp: decode_base58_def Let_def n_def [symmetric] cs_def [symmetric] split: option.split_asm)
  then obtain ix where i: "cs = map (\<lambda>i. base58_chars ! unat i) ix" "digits 58 ix" by (rule base58_digits)
  have "ix = [] \<or> hd ix \<noteq> 0" using str(2) i by (cases ix) auto
  note i = i this
  obtain ds where "decode_base58 str = Some (replicate n 0 @ ds)" "ds = [] \<or> hd ds \<noteq> 0" "number 256 ds = number 58 ix"
    unfolding str(1) i(1) by (rule decoded_digits [OF i(3,2), of n])
  with assms have ds: "bs = replicate n 0 @ ds" "ds = [] \<or> hd ds \<noteq> 0" "number 256 ds = number 58 ix" by simp_all
  obtain js where "encode_base58 bs = replicate n (base58_chars ! 0) @ map (\<lambda>i. base58_chars ! unat i) js"
    "digits 58 js" "js = [] \<or> hd js \<noteq> 0" "number 58 js = number 256 ds"
    unfolding ds(1) by (rule encoded_digits [OF ds(2), of n]) simp
  moreover from this have "js = ix" using number_unique [of 58 js ix] i(2,3) ds(3) by simp
  ultimately show ?thesis using str(1) i(1) by simp
qed

lemma decode_None: "decode_base58 str = None \<longleftrightarrow> \<not> is_base58 str"
  using decode_chars_Some [of "drop (count_leading (base58_chars ! 0) str) str" "replicate (length str * 733 div 1000 + 1) 0"]
    is_base58_leading [of str]
  by (auto simp: decode_base58_def Let_def split: option.split)

end
