(* ===== verification/Payment_Address.thy ===== *)
theory Payment_Address
  imports Script Hashes Signatures Base58
begin

text \<open>
  Payment addresses: \<open>payment_address.cpp\<close>, the checksum of \<open>checksum.cpp\<close> and \<open>checksum.ipp\<close>, and
  the part of \<open>ec_public.cpp\<close> the addresses use. An address is a version and the hash of a key or
  of a script; it is shown as text in base 58 with a checksum, and the databases extract it from
  scripts.
\<close>

section \<open>Checksums\<close>

definition bitcoin_checksum :: "bytes \<Rightarrow> u32" where
  "bitcoin_checksum bs = from_little_endian (take 4 (bitcoin_hash bs))"

definition verify_checksum :: "bytes \<Rightarrow> bool" where
  "verify_checksum bs =
     (if length bs < 4 then False
      else
        (let body = take (length bs - 4) bs; checksum = from_little_endian (drop (length bs - 4) bs)
         in bitcoin_checksum body = checksum))"

text \<open>\<open>wrap\<close>, with the arrays of its templates as lists.\<close>

definition wrap :: "u8 \<Rightarrow> bytes \<Rightarrow> bytes" where
  "wrap version payload = (version # payload) @ to_little_endian (bitcoin_checksum (version # payload))"

section \<open>Public keys\<close>

text \<open>Serialising a point is a function of the curve library; \<open>True\<close> asks for the compressed form.\<close>

record secp256k1_points = secp256k1 +
  ec_pubkey_serialize :: "bool \<Rightarrow> bytes \<Rightarrow> bytes"

definition ec_compress :: "secp256k1_points \<Rightarrow> bytes \<Rightarrow> bytes option" where
  "ec_compress lib point = map_option (ec_pubkey_serialize lib True) (ec_pubkey_parse lib point)"

definition ec_decompress :: "secp256k1_points \<Rightarrow> bytes \<Rightarrow> bytes option" where
  "ec_decompress lib point = map_option (ec_pubkey_serialize lib False) (ec_pubkey_parse lib point)"

record ec_public =
  ec_valid :: bool
  ec_compressed :: bool
  ec_point :: bytes

definition null_ec_public :: ec_public where
  "null_ec_public = \<lparr>ec_valid = False, ec_compressed = True, ec_point = replicate 33 0\<rparr>"

definition ec_public_from_point :: "secp256k1_points \<Rightarrow> bytes \<Rightarrow> bool \<Rightarrow> ec_public" where
  "ec_public_from_point lib point compress =
     (if \<not> is_public_key point then null_ec_public
      else
        (case ec_compress lib point of
           Some compressed \<Rightarrow> \<lparr>ec_valid = True, ec_compressed = compress, ec_point = compressed\<rparr>
         | None \<Rightarrow> null_ec_public))"

definition ec_public_to_data :: "secp256k1_points \<Rightarrow> ec_public \<Rightarrow> bytes option" where
  "ec_public_to_data lib point =
     (if \<not> ec_valid point then None
      else if ec_compressed point then Some (ec_point point)
      else ec_decompress lib (ec_point point))"

section \<open>Addresses\<close>

record payment_address =
  address_valid :: bool
  address_version :: u8
  address_hash :: short_hash

abbreviation (input) mainnet_p2kh :: u8 where "mainnet_p2kh \<equiv> 0x32"
abbreviation (input) mainnet_p2sh :: u8 where "mainnet_p2sh \<equiv> 0x05"
abbreviation (input) payment_size :: nat where "payment_size \<equiv> 25"

definition null_address :: payment_address where
  "null_address = \<lparr>address_valid = False, address_version = 0, address_hash = replicate 20 0\<rparr>"

definition hash_address :: "short_hash \<Rightarrow> u8 \<Rightarrow> payment_address" where
  "hash_address hash version = \<lparr>address_valid = True, address_version = version, address_hash = hash\<rparr>"

definition is_address :: "bytes \<Rightarrow> bool" where
  "is_address decoded \<longleftrightarrow> length decoded = payment_size \<and> verify_checksum decoded"

definition from_payment :: "bytes \<Rightarrow> payment_address" where
  "from_payment decoded =
     (if \<not> is_address decoded then null_address else hash_address (take 20 (drop 1 decoded)) (hd decoded))"

text \<open>
  The decoding into an array of a fixed size takes the text as a C string, which ends at the first
  zero byte.
\<close>

definition decode_base58_array :: "nat \<Rightarrow> bytes \<Rightarrow> bytes option" where
  "decode_base58_array out_size encoded =
     (case decode_base58 (c_str encoded) of
        None \<Rightarrow> None
      | Some buffer \<Rightarrow> if length buffer \<noteq> out_size then None else Some buffer)"

definition from_string :: "bytes \<Rightarrow> payment_address" where
  "from_string address =
     (case decode_base58_array payment_size address of
        None \<Rightarrow> null_address
      | Some decoded \<Rightarrow> if \<not> is_address decoded then null_address else from_payment decoded)"

definition from_public :: "secp256k1_points \<Rightarrow> ec_public \<Rightarrow> u8 \<Rightarrow> payment_address" where
  "from_public lib point version =
     (if \<not> ec_valid point then null_address
      else
        (case ec_public_to_data lib point of
           Some bs \<Rightarrow> hash_address (bitcoin_short_hash bs) version
         | None \<Rightarrow> null_address))"

definition from_script :: "script \<Rightarrow> u8 \<Rightarrow> payment_address" where
  "from_script redeem version = hash_address (bitcoin_short_hash (script_to_data False redeem)) version"

definition encoded :: "payment_address \<Rightarrow> bytes" where
  "encoded address = encode_base58 (wrap (address_version address) (address_hash address))"

section \<open>Extraction from scripts\<close>

text \<open>
  \<open>to_array\<close> into an array of another size than the data leaves bytes of the array unset or all of
  them; this is the value \<open>Abnormal\<close>. \<open>key_address\<close> is the case of a public key.
\<close>

definition to_array :: "nat \<Rightarrow> bytes \<Rightarrow> bytes outcome" where
  "to_array n bs = (if length bs = n then Returns bs else Abnormal)"

definition key_address :: "secp256k1_points \<Rightarrow> bytes \<Rightarrow> u8 \<Rightarrow> payment_address outcome" where
  "key_address lib bs version =
     (if length bs = 33 then do {
        point \<leftarrow> to_array 33 bs;
        Returns (from_public lib \<lparr>ec_valid = True, ec_compressed = True, ec_point = point\<rparr> version) }
      else do {
        point \<leftarrow> to_array 65 bs;
        Returns (from_public lib (ec_public_from_point lib point False) version) })"

definition extract_address :: "secp256k1_points \<Rightarrow> script \<Rightarrow> u8 \<Rightarrow> u8 \<Rightarrow> payment_address outcome" where
  "extract_address lib ops p2kh_version p2sh_version =
     (if \<not> script_is_valid ops then Returns null_address
      else
        (case pattern ops of
           Pay_multisig \<Rightarrow> Returns null_address
         | Pay_public_key \<Rightarrow> key_address lib (op_data (ops ! 0)) p2kh_version
         | Pay_key_hash \<Rightarrow> do { hash \<leftarrow> to_array 20 (op_data (ops ! 2)); Returns (hash_address hash p2kh_version) }
         | Pay_key_hash_with_lock_height \<Rightarrow>
             do { hash \<leftarrow> to_array 20 (op_data (ops ! 4)); Returns (hash_address hash p2kh_version) }
         | Pay_script_hash \<Rightarrow> do { hash \<leftarrow> to_array 20 (op_data (ops ! 1)); Returns (hash_address hash p2sh_version) }
         | Sign_multisig \<Rightarrow>
             (let redeem_data = op_data (last ops) in
              if redeem_data = [] then Returns null_address
              else
                (case script_from_chunk redeem_data False Strict of
                   (ok, redeem_script) \<Rightarrow>
                     if \<not> ok then Returns null_address
                     else if pattern redeem_script \<noteq> Pay_multisig then Returns null_address
                     else Returns (from_script redeem_script 5)))
         | Sign_public_key \<Rightarrow> Returns null_address
         | Sign_key_hash \<Rightarrow> key_address lib (op_data (ops ! 1)) p2kh_version
         | Sign_key_hash_with_lock_height \<Rightarrow> key_address lib (op_data (ops ! 1)) p2kh_version
         | Sign_script_hash \<Rightarrow> Returns (hash_address (bitcoin_short_hash (op_data (last ops))) p2sh_version)
         | _ \<Rightarrow> Returns null_address))"

text \<open>The patterns give data of the sizes that the extraction relies on.\<close>

lemma is_public_key_length: "is_public_key bs \<Longrightarrow> length bs = 33 \<or> length bs = 65"
  by (auto simp: is_public_key_def is_compressed_key_def is_uncompressed_key_def)

lemma key_address_returns: "is_public_key bs \<Longrightarrow> \<exists>a. key_address lib bs version = Returns a"
  by (drule is_public_key_length) (auto simp: key_address_def to_array_def)

lemma extract_returns: "\<exists>a. extract_address lib ops p2kh p2sh = Returns a"
proof (cases "pattern ops")
  case Sign_key_hash
  then have "length ops = 2" "is_public_key (op_data (last ops))"
    by (auto simp: pattern_def is_sign_key_hash_pattern_def split: if_split_asm)
  then have "is_public_key (op_data (ops ! 1))" by (cases ops rule: rev_cases) (auto simp: nth_append)
  with Sign_key_hash show ?thesis by (simp add: extract_address_def key_address_returns)
next
  case Sign_multisig
  then show ?thesis by (simp add: extract_address_def Let_def split: prod.split)
qed (auto simp: extract_address_def to_array_def pattern_def is_pay_public_key_pattern_def is_pay_key_hash_pattern_def
    is_pay_key_hash_with_lock_height_pattern_def is_pay_script_hash_pattern_def
    is_sign_key_hash_with_lock_height_pattern_def intro!: key_address_returns split: if_split_asm)

section \<open>Addresses as text\<close>

lemma to_from_little_endian:
  assumes "length bs = 4"
  shows "to_little_endian (from_little_endian bs :: u32) = bs"
proof -
  let ?lists = "{bs :: bytes. set bs \<subseteq> UNIV \<and> length bs = 4}"
  have "card (range (to_little_endian :: u32 \<Rightarrow> bytes)) = card ?lists"
    using card_lists_length_eq [of "UNIV :: u8 set" 4]
    by (subst card_image) (simp_all add: card_word inj_on_inverseI [of _ from_little_endian])
  moreover have "finite ?lists" by (rule finite_lists_length_eq) simp
  ultimately have "range (to_little_endian :: u32 \<Rightarrow> bytes) = ?lists"
    by (intro card_subset_eq) auto
  with assms obtain w :: u32 where "bs = to_little_endian w" by blast
  then show ?thesis by simp
qed

lemma length_wrap [simp]: "length (wrap version payload) = length payload + 5"
  by (simp add: wrap_def)

lemma wrap_address:
  assumes "length hash = 20"
  shows "is_address (wrap version hash)" "from_payment (wrap version hash) = hash_address hash version"
proof -
  show address: "is_address (wrap version hash)"
    using assms by (simp add: is_address_def verify_checksum_def Let_def wrap_def)
  have "take 20 (drop 1 (wrap version hash)) = hash" using assms by (simp add: wrap_def)
  with address show "from_payment (wrap version hash) = hash_address hash version"
    by (simp add: from_payment_def wrap_def)
qed

lemma address_wrap:
  assumes "is_address decoded"
  shows "decoded = wrap (hd decoded) (take 20 (drop 1 decoded))" "length (take 20 (drop 1 decoded)) = 20"
proof -
  have len: "length decoded = 25" using assms by (simp add: is_address_def)
  then obtain version rest where v: "decoded = version # rest" "length rest = 24" by (cases decoded) auto
  have four: "length (drop 20 rest) = 4" using v(2) by simp
  have "bitcoin_checksum (version # take 20 rest) = from_little_endian (drop 20 rest)"
    using assms v by (simp add: is_address_def verify_checksum_def Let_def)
  then have "to_little_endian (bitcoin_checksum (version # take 20 rest)) = drop 20 rest"
    by (simp add: to_from_little_endian [OF four])
  then show "decoded = wrap (hd decoded) (take 20 (drop 1 decoded))" using v by (simp add: wrap_def)
  show "length (take 20 (drop 1 decoded)) = 20" using len by simp
qed

lemma from_string_valid:
  assumes "address_valid (from_string s)"
  shows "c_str s = encoded (from_string s)" "length (address_hash (from_string s)) = 20"
proof -
  obtain decoded where d: "decode_base58 (c_str s) = Some decoded" "is_address decoded"
    "from_string s = hash_address (take 20 (drop 1 decoded)) (hd decoded)"
    using assms by (auto simp: from_string_def decode_base58_array_def null_address_def from_payment_def
        split: option.split_asm if_split_asm)
  note w = address_wrap [OF d(2)]
  show "c_str s = encoded (from_string s)"
    using encode_decode [OF d(1)] w(1) by (simp add: d(3) encoded_def hash_address_def)
  show "length (address_hash (from_string s)) = 20" using w(2) by (simp add: d(3) hash_address_def)
qed



end
