(* ===== verification/Databases.thy ===== *)
theory Databases
  imports Slab_Table Record_Table Chain Payment_Address
begin

text \<open>
  The databases over the hash tables: \<open>transaction_database.cpp\<close>, \<open>spend_database.cpp\<close>,
  \<open>block_database.cpp\<close>, \<open>history_database.cpp\<close>, \<open>stealth_database.cpp\<close>,
  \<open>blockchain_asset_database.cpp\<close> and the part of \<open>address_asset_database.cpp\<close> that blocks change,
  with the result classes that read from the mapped files. A pointer into a file is a position.
  An assertion is not checked in a release build: following a null pointer is \<open>Abnormal\<close>.
\<close>

section \<open>Flushing\<close>

definition slab_table_sync :: "slab_hash_table \<Rightarrow> slab_hash_table" where
  "slab_table_sync table = table\<lparr>table_manager := slab_sync (table_manager table)\<rparr>"

definition record_table_sync :: "record_hash_table \<Rightarrow> record_hash_table" where
  "record_table_sync table = table\<lparr>map_manager := record_sync (map_manager table)\<rparr>"

definition multimap_sync :: "record_multimap \<Rightarrow> record_multimap" where
  "multimap_sync mm =
     mm\<lparr>multimap_map := record_table_sync (multimap_map mm), multimap_records := record_sync (multimap_records mm)\<rparr>"

text \<open>The bytes that a deserializer at a position of a slab file may read, up to the end of the payload.\<close>

definition bytes_at :: "slab_hash_table \<Rightarrow> u64 \<Rightarrow> bytes" where
  "bytes_at table position =
     read_at (table_file table) (unat position) (unat (payload_size (table_manager table)) - unat position)"

section \<open>Transactions\<close>

definition transaction_value :: "u64 \<Rightarrow> nat \<Rightarrow> transaction \<Rightarrow> bytes" where
  "transaction_value height index tx =
     write_4_bytes_little_endian (ucast height) @ write_4_bytes_little_endian (of_nat index) @ transaction_to_data tx"

definition transaction_store :: "u64 \<Rightarrow> nat \<Rightarrow> transaction \<Rightarrow> slab_hash_table \<Rightarrow> slab_hash_table" where
  "transaction_store height index tx table =
     snd (slab_store (transaction_hash tx) (transaction_value height index tx) (4 + 4 + transaction_serialized_size tx) table)"

definition slab_remove :: "bytes \<Rightarrow> slab_hash_table \<Rightarrow> slab_hash_table outcome" where
  "slab_remove hash table = map_option snd (slab_unlink hash table)"

definition transaction_get :: "slab_hash_table \<Rightarrow> hash_digest \<Rightarrow> u64 option outcome" where
  "transaction_get table hash = slab_find table hash"

definition transaction_result_height :: "slab_hash_table \<Rightarrow> u64 \<Rightarrow> u32" where
  "transaction_result_height table slab = from_little_endian (take 4 (bytes_at table slab))"

definition transaction_result_index :: "slab_hash_table \<Rightarrow> u64 \<Rightarrow> u32" where
  "transaction_result_index table slab = from_little_endian (take 4 (drop 4 (bytes_at table slab)))"

definition transaction_result_transaction :: "slab_hash_table \<Rightarrow> u64 \<Rightarrow> transaction" where
  "transaction_result_transaction table slab =
     snd (fst (run_state transaction_from_data (ready (drop 8 (bytes_at table slab)) 0)))"

section \<open>Spends\<close>

text \<open>The bytes of a point that \<open>point_iterator\<close> runs through are the key.\<close>

definition point_key :: "point \<Rightarrow> bytes" where
  "point_key p = point_hash p @ to_little_endian (point_index p)"

definition spend_store :: "point \<Rightarrow> point \<Rightarrow> record_hash_table \<Rightarrow> record_hash_table" where
  "spend_store outpoint spend table = record_store (point_key outpoint) (point_to_data spend) table"

definition spend_remove :: "point \<Rightarrow> record_hash_table \<Rightarrow> record_hash_table outcome" where
  "spend_remove outpoint table = map_option snd (record_unlink (point_key outpoint) table)"

definition spend_get :: "record_hash_table \<Rightarrow> point \<Rightarrow> point option outcome" where
  "spend_get table outpoint = do {
     memory \<leftarrow> record_find table (point_key outpoint);
     case memory of
       None \<Rightarrow> Returns None
     | Some start \<Rightarrow>
         Returns (Some \<lparr>point_hash = read_at (map_file table) start 32,
                        point_index = from_little_endian (read_at (map_file table) (start + 32) 4)\<rparr>) }"

section \<open>Blocks\<close>

record block_database =
  block_map :: slab_hash_table
  block_index :: record_manager

definition block_value :: "u32 \<Rightarrow> block \<Rightarrow> bytes" where
  "block_value height b =
     header_to_data False (block_header b) @ write_4_bytes_little_endian height
     @ write_4_bytes_little_endian (of_nat (length (block_transactions b)))
     @ concat (map transaction_hash (block_transactions b))"

definition write_index :: "u32 \<Rightarrow> u64 \<Rightarrow> record_manager \<Rightarrow> record_manager" where
  "write_index height position manager =
     write_record (record_to_position manager height) (to_little_endian position) manager"

definition zeroize :: "u32 \<Rightarrow> u32 \<Rightarrow> record_manager \<Rightarrow> record_manager" where
  "zeroize first count manager = fold (\<lambda>i. write_index (first + of_nat i) 0) [0..<unat count] manager"

definition write_position :: "u64 \<Rightarrow> u32 \<Rightarrow> record_manager \<Rightarrow> record_manager" where
  "write_position position height manager =
     (let new_count = height + 1;
          initial_count = record_count manager;
          manager =
            (if new_count > initial_count then
               (let create_count = new_count - initial_count
                in zeroize initial_count (create_count - 1) (snd (new_records (unat create_count) manager)))
             else manager)
      in write_index height position manager)"

definition read_position :: "record_manager \<Rightarrow> u32 \<Rightarrow> u64" where
  "read_position manager height = from_little_endian (read_at (record_file manager) (record_to_position manager height) 8)"

definition block_store :: "block \<Rightarrow> u64 \<Rightarrow> block_database \<Rightarrow> block_database" where
  "block_store b height blocks =
     (let height32 = ucast height;
          value_size = 148 + 4 + 4 + length (block_transactions b) * 32;
          (position, table) = slab_store (header_hash (block_header b)) (block_value height32 b) value_size (block_map blocks)
      in \<lparr>block_map = table, block_index = write_position position height32 (block_index blocks)\<rparr>)"

definition block_top :: "block_database \<Rightarrow> u64 option" where
  "block_top blocks =
     (if record_count (block_index blocks) = 0 then None else Some (ucast (record_count (block_index blocks) - 1)))"

text \<open>
  The position of the block's slab; by height it comes from the index, where the position of a
  block that is missing is zero.
\<close>

definition block_get_height :: "block_database \<Rightarrow> u64 \<Rightarrow> u64 option" where
  "block_get_height blocks height =
     (if height \<ge> ucast (record_count (block_index blocks)) then None
      else Some (read_position (block_index blocks) (ucast height)))"

definition block_get_hash :: "block_database \<Rightarrow> hash_digest \<Rightarrow> u64 option outcome" where
  "block_get_hash blocks hash = slab_find (block_map blocks) hash"

definition block_unlink :: "u64 \<Rightarrow> block_database \<Rightarrow> block_database" where
  "block_unlink from_height blocks =
     (if ucast (record_count (block_index blocks)) > from_height
      then blocks\<lparr>block_index := set_count (ucast from_height) (block_index blocks)\<rparr> else blocks)"

definition block_remove :: "hash_digest \<Rightarrow> block_database \<Rightarrow> block_database outcome" where
  "block_remove hash blocks = do {
     table \<leftarrow> slab_remove hash (block_map blocks);
     Returns (blocks\<lparr>block_map := table\<rparr>) }"

definition block_sync :: "block_database \<Rightarrow> block_database" where
  "block_sync blocks = \<lparr>block_map = slab_table_sync (block_map blocks), block_index = record_sync (block_index blocks)\<rparr>"

definition block_result_header :: "slab_hash_table \<Rightarrow> u64 \<Rightarrow> header" where
  "block_result_header table slab = snd (fst (run_state (header_from_data False) (ready (bytes_at table slab) 0)))"

definition block_result_height :: "slab_hash_table \<Rightarrow> u64 \<Rightarrow> u32" where
  "block_result_height table slab = from_little_endian (take 4 (drop 148 (bytes_at table slab)))"

definition block_result_transaction_count :: "slab_hash_table \<Rightarrow> u64 \<Rightarrow> u32" where
  "block_result_transaction_count table slab = from_little_endian (take 4 (drop (148 + 4) (bytes_at table slab)))"

definition block_result_transaction_hash :: "slab_hash_table \<Rightarrow> u64 \<Rightarrow> nat \<Rightarrow> hash_digest" where
  "block_result_transaction_hash table slab index = take 32 (drop (148 + 4 + 4 + index * 32) (bytes_at table slab))"

section \<open>Histories\<close>

definition output_row :: "point \<Rightarrow> u32 \<Rightarrow> u64 \<Rightarrow> bytes" where
  "output_row outpoint output_height amount =
     [0] @ point_to_data outpoint @ write_4_bytes_little_endian output_height @ write_8_bytes_little_endian amount"

definition input_row :: "point \<Rightarrow> u32 \<Rightarrow> point \<Rightarrow> bytes" where
  "input_row inpoint input_height previous =
     [1] @ point_to_data inpoint @ write_4_bytes_little_endian input_height
     @ write_8_bytes_little_endian (point_checksum previous)"

definition history_add_output :: "short_hash \<Rightarrow> point \<Rightarrow> u32 \<Rightarrow> u64 \<Rightarrow> record_multimap \<Rightarrow> record_multimap outcome" where
  "history_add_output key outpoint output_height amount mm = add_row key (output_row outpoint output_height amount) mm"

definition history_add_input :: "short_hash \<Rightarrow> point \<Rightarrow> u32 \<Rightarrow> point \<Rightarrow> record_multimap \<Rightarrow> record_multimap outcome" where
  "history_add_input key inpoint input_height previous mm = add_row key (input_row inpoint input_height previous) mm"

section \<open>Stealth outputs\<close>

definition is_stealth_script :: "script \<Rightarrow> bool" where
  "is_stealth_script ops \<longleftrightarrow> pattern ops = Null_data \<and> length (op_data (ops ! 1)) \<ge> 32"

definition to_stealth_prefix :: "script \<Rightarrow> u32 option" where
  "to_stealth_prefix ops =
     (if \<not> is_stealth_script ops then None
      else Some (from_little_endian (take 4 (bitcoin_hash (script_to_data False ops)))))"

definition extract_ephemeral_key :: "script \<Rightarrow> hash_digest option" where
  "extract_ephemeral_key ops = (if \<not> is_stealth_script ops then None else Some (take 32 (op_data (ops ! 1))))"

definition stealth_store ::
  "u32 \<Rightarrow> u32 \<Rightarrow> hash_digest \<Rightarrow> short_hash \<Rightarrow> hash_digest \<Rightarrow> record_manager \<Rightarrow> record_manager" where
  "stealth_store prefix height ephemeral public_key tx_hash manager =
     (let (index, manager) = new_records 1 manager
      in write_record (record_to_position manager index)
           (to_little_endian prefix @ to_little_endian height @ ephemeral @ public_key @ tx_hash) manager)"

section \<open>Assets\<close>

record blockchain_asset =
  ba_version :: u32
  ba_tx_point :: point
  ba_height :: u64
  ba_asset :: asset_detail

definition blockchain_asset_to_data :: "blockchain_asset \<Rightarrow> bytes" where
  "blockchain_asset_to_data a =
     write_4_bytes_little_endian (ba_version a) @ point_to_data (ba_tx_point a)
     @ write_8_bytes_little_endian (ba_height a) @ asset_detail_to_data (ba_asset a)"

definition blockchain_asset_serialized_size :: "blockchain_asset \<Rightarrow> nat" where
  "blockchain_asset_serialized_size a =
     4 + point_satoshi_fixed_size + 8 + asset_detail_serialized_size (ba_asset a)"

definition asset_store :: "hash_digest \<Rightarrow> blockchain_asset \<Rightarrow> slab_hash_table \<Rightarrow> slab_hash_table" where
  "asset_store hash sp_detail table =
     snd (slab_store hash (blockchain_asset_to_data sp_detail) (blockchain_asset_serialized_size sp_detail) table)"

definition blockchain_asset_from_data :: "blockchain_asset reads" where
  "blockchain_asset_from_data = do {
     version \<leftarrow> read_4_bytes_little_endian;
     (_, tx_point) \<leftarrow> point_from_data;
     height \<leftarrow> read_8_bytes_little_endian;
     (_, detail) \<leftarrow> asset_detail_from_data;
     State_Monad.return \<lparr>ba_version = version, ba_tx_point = tx_point, ba_height = height, ba_asset = detail\<rparr> }"

definition asset_get :: "slab_hash_table \<Rightarrow> hash_digest \<Rightarrow> blockchain_asset option outcome" where
  "asset_get table hash = do {
     memory \<leftarrow> slab_find table hash;
     Returns (map_option (\<lambda>d. fst (run_state blockchain_asset_from_data (ready (bytes_at table d) 0))) memory) }"

section \<open>Assets of addresses\<close>

definition asset_output_row :: "point \<Rightarrow> u32 \<Rightarrow> u64 \<Rightarrow> u16 \<Rightarrow> u32 \<Rightarrow> bytes \<Rightarrow> bytes" where
  "asset_output_row outpoint output_height amount business_kd timestamp business_data =
     output_row outpoint output_height amount @ write_2_bytes_little_endian business_kd
     @ write_4_bytes_little_endian timestamp @ business_data"

definition asset_input_row :: "point \<Rightarrow> u32 \<Rightarrow> point \<Rightarrow> u32 \<Rightarrow> bytes" where
  "asset_input_row inpoint input_height previous timestamp =
     input_row inpoint input_height previous @ write_2_bytes_little_endian 0 @ write_4_bytes_little_endian timestamp"

text \<open>Every row that is added to this database is flushed at once.\<close>

definition address_store :: "short_hash \<Rightarrow> bytes \<Rightarrow> record_multimap \<Rightarrow> record_multimap outcome" where
  "address_store key row mm = map_option multimap_sync (add_row key row mm)"

section \<open>Flushing keeps the contents\<close>

lemma slab_table_sync_stores:
  assumes "stores t content"
  shows "stores (slab_table_sync t) content"
proof -
  let ?t = "slab_table_sync t"
  have flds: "table_file ?t = write_at (table_file t) 0 (to_little_endian (payload t))" "payload ?t = payload t"
    "table_key_size ?t = table_key_size t" "table_header ?t = table_header t" "table_hash ?t = table_hash t"
    by (simp_all add: slab_table_sync_def slab_sync_def write_size_def)
  then have same: "value_begin ?t = value_begin t" "bucket_index ?t = bucket_index t"
    by (simp add: value_begin_def) (rule ext, simp add: bucket_index_def flds)
  obtain rows where rows: "laid_out t rows"
    "buckets_hold \<lparr>next_row = row_next t, key_of = row_key t,
       value_of = (\<lambda>p. (value_position t p, row_value t rows p)), is_row = row_of rows\<rparr>
       header_empty (bucket_index t) (table_header t) content"
    using assms by (auto simp: stores_def)
  have "row_key ?t p = row_key t p \<and> row_next ?t p = row_next t p \<and> row_value ?t rows p = row_value t rows p"
    if p: "row_of rows p" for p
  proof -
    obtain n where n: "(unat p, n) \<in> set rows" "map_of rows (unat p) = Some n" using slab_layout_row [OF rows(1) p] .
    have "8 \<le> unat p" using slab_layout_bounds [OF rows(1)] n(1) by auto
    then show ?thesis
      using frame_row [of ?t t p n] n(2) by (simp add: flds same row_value_def write_at_other)
  qed
  then have "buckets_hold \<lparr>next_row = row_next ?t, key_of = row_key ?t,
       value_of = (\<lambda>p. (value_position ?t p, row_value ?t rows p)), is_row = row_of rows\<rparr>
       header_empty (bucket_index t) (table_header t) (\<lambda>key. map id (content key))"
    by (intro buckets_hold_map [OF rows(2)]) (simp add: same)
  then show ?thesis using rows(1) unfolding stores_def by (auto simp: same flds)
qed

lemma record_sync_fields [simp]:
  "record_count (record_sync m) = record_count m" "record_size (record_sync m) = record_size m"
  "record_to_position (record_sync m) i = record_to_position m i"
  by (simp_all add: record_sync_def write_count_def)

lemma record_sync_file: "4 \<le> p \<Longrightarrow> read_at (record_file (record_sync m)) p n = read_at (record_file m) p n"
  by (simp add: record_sync_def write_count_def read_write_other)

lemma record_to_position_ge: "4 \<le> record_to_position m i" "4 \<le> record_to_position m i + k"
  by (simp_all add: record_to_position_def)

lemma record_table_sync_stores: "record_stores (record_table_sync t) content = record_stores t content"
proof -
  let ?t = "record_table_sync t"
  have "record_value_begin ?t = record_value_begin t" "map_bucket_index ?t = map_bucket_index t" "map_header ?t = map_header t"
    by (simp_all add: record_table_sync_def record_value_begin_def map_bucket_index_def fun_eq_iff)
  moreover have "next_index ?t = next_index t" "record_key ?t = record_key t" "record_data ?t = record_data t"
    "record_value ?t = record_value t"
    by (simp_all add: fun_eq_iff record_table_sync_def next_index_def record_key_def record_data_def record_value_def
        record_value_begin_def record_sync_file record_to_position_ge add.assoc)
  moreover have "records_laid_out ?t = records_laid_out t"
    by (simp add: fun_eq_iff records_laid_out_def record_value_begin_def record_table_sync_def)
  ultimately show ?thesis by (simp add: record_stores_def)
qed

lemma list_holds_sync: "list_holds (record_sync m) start vs = list_holds m start vs"
proof -
  have "list_next (record_sync m) = list_next m" "list_reads (record_sync m) = list_reads m"
    by (simp_all add: fun_eq_iff list_next_def list_reads_def list_get_def record_sync_file record_to_position_ge)
  then show ?thesis by (simp add: list_holds_def)
qed

lemma multimap_sync_holds: "multimap_holds (multimap_sync mm) content = multimap_holds mm content"
proof -
  have "value_size_of (multimap_map (multimap_sync mm)) = value_size_of (multimap_map mm)"
    by (simp add: multimap_sync_def record_table_sync_def record_value_begin_def)
  then show ?thesis
    by (simp add: multimap_holds_def multimap_entry_def list_holds_sync record_table_sync_stores)
      (simp add: multimap_sync_def list_holds_sync record_table_sync_stores)
qed

interpretation address_rows: stack_map multimap_holds address_store delete_last_row
  "\<lambda>mm. (map_key_size (multimap_map mm), record_size (multimap_records mm))"
  "\<lambda>(s, n) key v. length key = s \<and> length v + 4 \<le> n" "\<lambda>_ _. 1"
  "\<lambda>mm. 2 ^ 32 - 2 - max (unat (record_count (multimap_records mm))) (unat (record_count (map_manager (multimap_map mm))))"
proof (unfold_locales, goal_cases)
  case (1 mm stacks key v)
  then show ?case
    using multimap.push [OF 1] by (auto simp: address_store_def multimap_sync_holds)
      (auto simp: multimap_sync_def record_table_sync_def)
next
  case 2
  then show ?case by (rule multimap.pop)
qed

end
