(* ===== verification/Data_Base.thy ===== *)
theory Data_Base
  imports Databases
begin

text \<open>
  The database of blocks: \<open>data_base.cpp\<close>. \<open>push\<close> stores a block with its transactions in the
  databases and \<open>pop\<close> takes the last block out again. The account databases, which blocks do not
  change, and the locks are left out.
\<close>

section \<open>The state\<close>

record data_base =
  db_blocks :: block_database
  db_history :: record_multimap
  db_spends :: record_hash_table
  db_stealth :: record_manager
  db_transactions :: slab_hash_table
  db_assets :: slab_hash_table
  db_address_assets :: record_multimap
  db_timestamp :: u32

text \<open>What is fixed when the database is opened, and the curve library the addresses need.\<close>

record db_settings =
  history_height :: u64
  stealth_height :: u64
  db_curve :: secp256k1_points

definition get_next_height :: "block_database \<Rightarrow> u64" where
  "get_next_height blocks = (case block_top blocks of None \<Rightarrow> 0 | Some current_height \<Rightarrow> current_height + 1)"

text \<open>The hashes of the two blocks, which the source writes with their bytes reversed.\<close>

definition exception1 :: "hash_digest \<times> u64" where
  "exception1 =
     (rev [0x00, 0x00, 0x00, 0x00, 0x00, 0x0a, 0x4d, 0x0a, 0x39, 0x81, 0x61, 0xff, 0xc1, 0x63, 0xc5, 0x03,
           0x76, 0x3b, 0x1f, 0x43, 0x60, 0x63, 0x93, 0x93, 0xe0, 0xe4, 0xc8, 0xe3, 0x00, 0xe0, 0xca, 0xec], 91842)"

definition exception2 :: "hash_digest \<times> u64" where
  "exception2 =
     (rev [0x00, 0x00, 0x00, 0x00, 0x00, 0x07, 0x43, 0xf1, 0x90, 0xa1, 0x8c, 0x55, 0x77, 0xa3, 0xc2, 0xd2,
           0xa1, 0xf6, 0x10, 0xae, 0x96, 0x01, 0xac, 0x04, 0x6a, 0x38, 0x08, 0x4c, 0xcb, 0x7c, 0xd7, 0x21], 91880)"

definition is_allowed_duplicate :: "header \<Rightarrow> u64 \<Rightarrow> bool" where
  "is_allowed_duplicate head height \<longleftrightarrow>
     (height = snd exception1 \<and> header_hash head = fst exception1) \<or>
     (height = snd exception2 \<and> header_hash head = fst exception2)"

definition synchronize :: "data_base \<Rightarrow> data_base" where
  "synchronize db =
     db\<lparr>db_spends := record_table_sync (db_spends db), db_history := multimap_sync (db_history db),
        db_stealth := record_sync (db_stealth db), db_transactions := slab_table_sync (db_transactions db),
        db_assets := slab_table_sync (db_assets db), db_address_assets := multimap_sync (db_address_assets db),
        db_blocks := block_sync (db_blocks db)\<rparr>"

section \<open>Pushing a block\<close>

abbreviation (input) script_address :: "db_settings \<Rightarrow> script \<Rightarrow> payment_address outcome" where
  "script_address settings ops \<equiv> extract_address (db_curve settings) ops mainnet_p2kh mainnet_p2sh"

definition address_key :: "payment_address \<Rightarrow> short_hash" where
  "address_key address = ripemd160_hash (encoded address)"

definition push_input :: "db_settings \<Rightarrow> hash_digest \<Rightarrow> u64 \<Rightarrow> nat \<times> tx_input \<Rightarrow> data_base \<Rightarrow> data_base outcome" where
  "push_input settings tx_hash height = (\<lambda>(index, i) db.
     let point = \<lparr>point_hash = tx_hash, point_index = of_nat index\<rparr>;
         previous = input_previous_output i;
         db = db\<lparr>db_spends := spend_store previous point (db_spends db)\<rparr>
     in if height < history_height settings then Returns db
        else do {
          address \<leftarrow> script_address settings (input_script i);
          (if \<not> address_valid address then Returns db
           else do {
             rows \<leftarrow> history_add_input (address_hash address) point (ucast height) previous (db_history db);
             assets \<leftarrow> address_store (address_key address)
               (asset_input_row point (ucast height) previous (db_timestamp db)) (db_address_assets db);
             Returns (db\<lparr>db_history := rows, db_address_assets := assets\<rparr>) }) })"

text \<open>A loop over a list in the order of the list, of a body that may not return.\<close>

primrec for_each :: "('a \<Rightarrow> 's \<Rightarrow> 's outcome) \<Rightarrow> 'a list \<Rightarrow> 's \<Rightarrow> 's outcome" where
  "for_each body [] s = Returns s"
| "for_each body (x # xs) s = do { s \<leftarrow> body x s; for_each body xs s }"

definition push_inputs :: "db_settings \<Rightarrow> hash_digest \<Rightarrow> u64 \<Rightarrow> tx_input list \<Rightarrow> data_base \<Rightarrow> data_base outcome" where
  "push_inputs settings tx_hash height inputs = for_each (push_input settings tx_hash height) (enumerate 0 inputs)"

text \<open>
  The visitors of the attachment and of the asset in it: an issue is stored in the asset database,
  and every output gives a row for its address.
\<close>

definition attachment_row :: "point \<Rightarrow> u32 \<Rightarrow> u64 \<Rightarrow> u32 \<Rightarrow> attachment \<Rightarrow> bytes" where
  "attachment_row outpoint height amount timestamp attach =
     (case attach_payload attach of
        Attach_etp e \<Rightarrow> asset_output_row outpoint height amount 0 timestamp (etp_to_data e)
      | Attach_etp_award a \<Rightarrow> asset_output_row outpoint height amount 4 timestamp (etp_award_to_data a)
      | Attach_asset a \<Rightarrow>
          (case asset_payload a of
             Asset_detail d \<Rightarrow> asset_output_row outpoint height amount 1 timestamp (asset_detail_to_data d)
           | Asset_transfer t \<Rightarrow> asset_output_row outpoint height amount 2 timestamp (asset_transfer_to_data t))
      | Attach_message m \<Rightarrow> asset_output_row outpoint height amount 3 timestamp (message_to_data m))"

definition attached_detail :: "attachment \<Rightarrow> asset_detail option" where
  "attached_detail attach =
     (case attach_payload attach of
        Attach_asset a \<Rightarrow> (case asset_payload a of Asset_detail d \<Rightarrow> Some d | _ \<Rightarrow> None)
      | _ \<Rightarrow> None)"

definition push_asset_detail :: "point \<Rightarrow> u32 \<Rightarrow> asset_detail \<Rightarrow> slab_hash_table \<Rightarrow> slab_hash_table" where
  "push_asset_detail outpoint height d table =
     asset_store (sha256_hash (detail_symbol d))
       \<lparr>ba_version = 0, ba_tx_point = outpoint, ba_height = ucast height, ba_asset = d\<rparr> table"

definition push_attachment ::
  "attachment \<Rightarrow> payment_address \<Rightarrow> point \<Rightarrow> u32 \<Rightarrow> u64 \<Rightarrow> data_base \<Rightarrow> data_base outcome" where
  "push_attachment attach address outpoint height amount db =
     (let db = (case attached_detail attach of
                  Some d \<Rightarrow> db\<lparr>db_assets := push_asset_detail outpoint height d (db_assets db)\<rparr>
                | None \<Rightarrow> db)
      in do {
        rows \<leftarrow> address_store (address_key address)
          (attachment_row outpoint height amount (db_timestamp db) attach) (db_address_assets db);
        Returns (db\<lparr>db_address_assets := rows\<rparr>) })"

definition push_output :: "db_settings \<Rightarrow> hash_digest \<Rightarrow> u64 \<Rightarrow> nat \<times> tx_output \<Rightarrow> data_base \<Rightarrow> data_base outcome" where
  "push_output settings tx_hash height = (\<lambda>(index, out) db. do {
     address \<leftarrow> script_address settings (output_script out);
     (if \<not> address_valid address then Returns db
      else
        (let point = \<lparr>point_hash = tx_hash, point_index = of_nat index\<rparr>
         in do {
           rows \<leftarrow> history_add_output (address_hash address) point (ucast height) (output_value out) (db_history db);
           push_attachment (output_attach_data out) address point (ucast height) (output_value out)
             (db\<lparr>db_history := rows\<rparr>) })) })"

definition push_outputs :: "db_settings \<Rightarrow> hash_digest \<Rightarrow> u64 \<Rightarrow> tx_output list \<Rightarrow> data_base \<Rightarrow> data_base outcome" where
  "push_outputs settings tx_hash height outputs db =
     (if height < history_height settings then Returns db
      else for_each (push_output settings tx_hash height) (enumerate 0 outputs) db)"

definition push_stealth_pair ::
  "db_settings \<Rightarrow> hash_digest \<Rightarrow> u64 \<Rightarrow> tx_output \<times> tx_output \<Rightarrow> record_manager \<Rightarrow> record_manager outcome" where
  "push_stealth_pair settings tx_hash height = (\<lambda>(ephemeral, payment) rows.
     case (extract_ephemeral_key (output_script ephemeral), to_stealth_prefix (output_script ephemeral)) of
       (Some unsigned_ephemeral_key, Some prefix) \<Rightarrow> do {
         address \<leftarrow> script_address settings (output_script payment);
         Returns (if \<not> address_valid address then rows
           else stealth_store prefix (ucast height) unsigned_ephemeral_key (address_hash address) tx_hash rows) }
     | _ \<Rightarrow> Returns rows)"

definition push_stealth :: "db_settings \<Rightarrow> hash_digest \<Rightarrow> u64 \<Rightarrow> tx_output list \<Rightarrow> data_base \<Rightarrow> data_base outcome" where
  "push_stealth settings tx_hash height outputs db =
     (if height < stealth_height settings \<or> outputs = [] then Returns db
      else do {
        rows \<leftarrow> for_each (push_stealth_pair settings tx_hash height) (zip (butlast outputs) (tl outputs)) (db_stealth db);
        Returns (db\<lparr>db_stealth := rows\<rparr>) })"

definition push_transaction :: "db_settings \<Rightarrow> header \<Rightarrow> u64 \<Rightarrow> nat \<times> transaction \<Rightarrow> data_base \<Rightarrow> data_base outcome" where
  "push_transaction settings head height = (\<lambda>(index, tx) db.
     if index = 0 \<and> is_allowed_duplicate head height then Returns db
     else
       (let tx_hash = transaction_hash tx;
            db = db\<lparr>db_timestamp := hdr_timestamp head\<rparr>
        in do {
          db \<leftarrow> (if is_coinbase tx then Returns db else push_inputs settings tx_hash height (tx_inputs tx) db);
          db \<leftarrow> push_outputs settings tx_hash height (tx_outputs tx) db;
          db \<leftarrow> push_stealth settings tx_hash height (tx_outputs tx) db;
          Returns (db\<lparr>db_transactions := transaction_store height index tx (db_transactions db)\<rparr>) }))"

definition push_at :: "db_settings \<Rightarrow> block \<Rightarrow> u64 \<Rightarrow> data_base \<Rightarrow> data_base outcome" where
  "push_at settings b height db = do {
     db \<leftarrow> for_each (push_transaction settings (block_header b) height) (enumerate 0 (block_transactions b)) db;
     Returns (synchronize (db\<lparr>db_blocks := block_store b height (db_blocks db)\<rparr>)) }"

definition db_push :: "db_settings \<Rightarrow> block \<Rightarrow> data_base \<Rightarrow> data_base outcome" where
  "db_push settings b db = push_at settings b (get_next_height (db_blocks db)) db"

section \<open>Popping a block\<close>

definition pop_input :: "db_settings \<Rightarrow> u64 \<Rightarrow> tx_input \<Rightarrow> data_base \<Rightarrow> data_base outcome" where
  "pop_input settings height i db = do {
     spends \<leftarrow> spend_remove (input_previous_output i) (db_spends db);
     let db = db\<lparr>db_spends := spends\<rparr>;
     (if height < history_height settings then Returns db
      else do {
        address \<leftarrow> script_address settings (input_script i);
        (if \<not> address_valid address then Returns db
         else do {
           rows \<leftarrow> delete_last_row (address_hash address) (db_history db);
           assets \<leftarrow> delete_last_row (address_key address) (db_address_assets db);
           Returns (db\<lparr>db_history := rows, db_address_assets := assets\<rparr>) }) }) }"

definition pop_inputs :: "db_settings \<Rightarrow> tx_input list \<Rightarrow> u64 \<Rightarrow> data_base \<Rightarrow> data_base outcome" where
  "pop_inputs settings inputs height = for_each (pop_input settings height) (rev inputs)"

definition pop_output :: "db_settings \<Rightarrow> tx_output \<Rightarrow> data_base \<Rightarrow> data_base outcome" where
  "pop_output settings out db = do {
     address \<leftarrow> script_address settings (output_script out);
     (if \<not> address_valid address then Returns db
      else do {
        rows \<leftarrow> delete_last_row (address_hash address) (db_history db);
        address_rows \<leftarrow> delete_last_row (address_key address) (db_address_assets db);
        let db = db\<lparr>db_history := rows, db_address_assets := address_rows\<rparr>;
        issue \<leftarrow> is_asset_issue out;
        (if issue then do {
           symbol \<leftarrow> get_asset_symbol out;
           assets \<leftarrow> slab_remove (sha256_hash symbol) (db_assets db);
           Returns (db\<lparr>db_assets := assets\<rparr>) }
         else Returns db) }) }"

definition pop_outputs :: "db_settings \<Rightarrow> tx_output list \<Rightarrow> u64 \<Rightarrow> data_base \<Rightarrow> data_base outcome" where
  "pop_outputs settings outputs height db =
     (if height < history_height settings then Returns db
      else for_each (pop_output settings) (rev outputs) db)"

definition pop_transaction :: "db_settings \<Rightarrow> u64 \<Rightarrow> transaction \<Rightarrow> data_base \<Rightarrow> data_base outcome" where
  "pop_transaction settings height tx db = do {
     txs \<leftarrow> slab_remove (transaction_hash tx) (db_transactions db);
     db \<leftarrow> pop_outputs settings (tx_outputs tx) height (db\<lparr>db_transactions := txs\<rparr>);
     (if is_coinbase tx then Returns db else pop_inputs settings (tx_inputs tx) height db) }"

text \<open>The transactions of the block, read back by their hashes.\<close>

definition read_transactions :: "data_base \<Rightarrow> u64 \<Rightarrow> transaction list outcome" where
  "read_transactions db block_result =
     (let table = block_map (db_blocks db)
      in for_each (\<lambda>index txs. do {
           tx_result \<leftarrow> transaction_get (db_transactions db) (block_result_transaction_hash table block_result index);
           (case tx_result of
              None \<Rightarrow> Abnormal
            | Some slab \<Rightarrow> Returns (txs @ [transaction_result_transaction (db_transactions db) slab])) })
         [0..<unat (block_result_transaction_count table block_result)] [])"

definition db_pop :: "db_settings \<Rightarrow> data_base \<Rightarrow> (block \<times> data_base) outcome" where
  "db_pop settings db = do {
     height \<leftarrow> block_top (db_blocks db);
     block_result \<leftarrow> block_get_height (db_blocks db) height;
     txs \<leftarrow> read_transactions db block_result;
     let b = \<lparr>block_header = block_result_header (block_map (db_blocks db)) block_result, block_transactions = txs\<rparr>;
     db \<leftarrow> for_each (pop_transaction settings height) (rev txs) db;
     blocks \<leftarrow> block_remove (header_hash (block_header b)) (block_unlink height (db_blocks db));
     Returns (b, synchronize (db\<lparr>db_blocks := blocks\<rparr>)) }"

end
