(* ===== verification/Chain_Store.thy ===== *)
theory Chain_Store
  imports Data_Base Chain_Wire
begin

text \<open>
  What the database of blocks means: a list of blocks, the oldest first. Every block stands for
  rows of the tables; \<open>push\<close> adds the rows of a block and \<open>pop\<close> takes them away in the reverse order,
  so that the tables, which are stacks of values for every key, hold what they held before.
\<close>

section \<open>Rows\<close>

definition stack_of :: "(bytes \<times> 'v) list \<Rightarrow> bytes \<Rightarrow> 'v list" where
  "stack_of rows key = map snd (filter (\<lambda>r. fst r = key) (rev rows))"

definition pushes :: "(bytes \<times> 'v) list \<Rightarrow> 'v store_op list" where
  "pushes rows = map (\<lambda>(key, v). Push key v) rows"

definition pops :: "(bytes \<times> 'v) list \<Rightarrow> 'v store_op list" where
  "pops rows = map (\<lambda>(key, v). Pop key) (rev rows)"

lemma row_ops_simps [simp]:
  "pushes [] = []" "pushes ((key, v) # rows) = Push key v # pushes rows" "pushes (rows @ rows') = pushes rows @ pushes rows'"
  "pops [] = []" "pops [(key, v)] = [Pop key]" "pops (rows @ rows') = pops rows' @ pops rows"
  by (simp_all add: pushes_def pops_def)

lemma pushed_rows [simp]: "pushed (pushes rows) = rows" "pushed (pops rows) = []"
proof -
  show "pushed (pushes rows) = rows" by (induction rows) auto
  have "pushed (map (\<lambda>(key, v :: 'v). Pop key) rows) = []" for rows by (induction rows) auto
  then show "pushed (pops rows) = []" by (simp add: pops_def)
qed

lemma store_run_append: "store_run push pop (xs @ ys) t = Option.bind (store_run push pop xs t) (store_run push pop ys)"
proof (induction xs arbitrary: t)
  case (Cons x xs)
  then show ?case by (cases "store_step push pop x t") simp_all
qed simp

lemma spec_run_pushes: "spec_run (pushes new) (stack_of rows) = Some (stack_of (rows @ new))"
proof (induction new arbitrary: rows)
  case (Cons r new)
  have "(stack_of rows)(fst r := snd r # stack_of rows (fst r)) = stack_of (rows @ [r])"
    by (auto simp: stack_of_def)
  then show ?case using Cons [of "rows @ [r]"] by (cases r) simp
qed simp

lemma spec_run_pops: "spec_run (pops new) (stack_of (rows @ new)) = Some (stack_of rows)"
proof (induction new rule: rev_induct)
  case (snoc r new)
  obtain key v where r: "r = (key, v)" by fastforce
  have "stack_of (rows @ new @ [r]) key = v # stack_of (rows @ new) key" by (simp add: stack_of_def r)
  moreover have "(stack_of (rows @ new @ [r]))(key := stack_of (rows @ new) key) = stack_of (rows @ new)"
    by (auto simp: stack_of_def r)
  ultimately show ?case using snoc by (simp add: r)
qed simp

section \<open>The rows of blocks\<close>

record db_rows =
  rows_spends :: "(bytes \<times> bytes) list"
  rows_history :: "(bytes \<times> bytes) list"
  rows_address :: "(bytes \<times> bytes) list"
  rows_assets :: "(bytes \<times> bytes) list"
  rows_transactions :: "(bytes \<times> bytes) list"

definition no_rows :: db_rows where
  "no_rows = \<lparr>rows_spends = [], rows_history = [], rows_address = [], rows_assets = [], rows_transactions = []\<rparr>"

definition append_rows :: "db_rows \<Rightarrow> db_rows \<Rightarrow> db_rows" where
  "append_rows a b =
     \<lparr>rows_spends = rows_spends a @ rows_spends b, rows_history = rows_history a @ rows_history b,
      rows_address = rows_address a @ rows_address b, rows_assets = rows_assets a @ rows_assets b,
      rows_transactions = rows_transactions a @ rows_transactions b\<rparr>"

definition concat_rows :: "db_rows list \<Rightarrow> db_rows" where
  "concat_rows rs = foldr append_rows rs no_rows"

lemma concat_rows_simps [simp]:
  "concat_rows [] = no_rows" "concat_rows (r # rs) = append_rows r (concat_rows rs)"
  "concat_rows (rs @ rs') = append_rows (concat_rows rs) (concat_rows rs')"
  by (induction rs) (simp_all add: concat_rows_def append_rows_def no_rows_def)

definition run_rows :: "((bytes \<times> bytes) list \<Rightarrow> bytes store_op list) \<Rightarrow> db_rows \<Rightarrow> data_base \<Rightarrow> data_base outcome" where
  "run_rows ops rows db = do {
     spends \<leftarrow> store_run (\<lambda>key v t. Returns (record_store key v t)) (\<lambda>key t. map_option snd (record_unlink key t))
       (ops (rows_spends rows)) (db_spends db);
     history \<leftarrow> store_run add_row delete_last_row (ops (rows_history rows)) (db_history db);
     address \<leftarrow> store_run address_store delete_last_row (ops (rows_address rows)) (db_address_assets db);
     assets \<leftarrow> store_run slab_push slab_pop (ops (rows_assets rows)) (db_assets db);
     txs \<leftarrow> store_run slab_push slab_pop (ops (rows_transactions rows)) (db_transactions db);
     Returns (db\<lparr>db_spends := spends, db_history := history, db_address_assets := address, db_assets := assets,
       db_transactions := txs\<rparr>) }"

lemma option_eqI: "(\<And>x. a = Some x \<longleftrightarrow> b = Some x) \<Longrightarrow> a = b"
  by (cases a; cases b) auto

lemma run_rows_pushes_append:
  "run_rows pushes (append_rows a b) db = Option.bind (run_rows pushes a db) (run_rows pushes b)"
  by (rule option_eqI) (auto simp: run_rows_def append_rows_def store_run_append bind_eq_Some_conv)

lemma run_rows_pops_append:
  "run_rows pops (append_rows a b) db = Option.bind (run_rows pops b db) (run_rows pops a)"
  by (rule option_eqI) (auto simp: run_rows_def append_rows_def store_run_append bind_eq_Some_conv)

lemma run_rows_none [simp]: "run_rows pushes no_rows db = Returns db" "run_rows pops no_rows db = Returns db"
  by (simp_all add: run_rows_def no_rows_def)

text \<open>The address a script pays to or spends from; the extraction always returns.\<close>

definition address_of :: "db_settings \<Rightarrow> script \<Rightarrow> payment_address" where
  "address_of settings ops = (case script_address settings ops of Some a \<Rightarrow> a | None \<Rightarrow> null_address)"

lemma script_address_of: "script_address settings ops = Returns (address_of settings ops)"
  using extract_returns [of "db_curve settings" ops mainnet_p2kh mainnet_p2sh] by (auto simp: address_of_def)

definition input_rows :: "db_settings \<Rightarrow> u32 \<Rightarrow> u64 \<Rightarrow> hash_digest \<Rightarrow> nat \<times> tx_input \<Rightarrow> db_rows" where
  "input_rows settings timestamp height tx_hash = (\<lambda>(index, i).
     let point = \<lparr>point_hash = tx_hash, point_index = of_nat index\<rparr>;
         previous = input_previous_output i;
         address = address_of settings (input_script i);
         indexed = history_height settings \<le> height \<and> address_valid address
     in \<lparr>rows_spends = [(point_key previous, point_to_data point)],
         rows_history = (if indexed then [(address_hash address, input_row point (ucast height) previous)] else []),
         rows_address =
           (if indexed then [(address_key address, asset_input_row point (ucast height) previous timestamp)] else []),
         rows_assets = [], rows_transactions = []\<rparr>)"

definition output_rows :: "db_settings \<Rightarrow> u32 \<Rightarrow> u64 \<Rightarrow> hash_digest \<Rightarrow> nat \<times> tx_output \<Rightarrow> db_rows" where
  "output_rows settings timestamp height tx_hash = (\<lambda>(index, out).
     let point = \<lparr>point_hash = tx_hash, point_index = of_nat index\<rparr>;
         address = address_of settings (output_script out);
         indexed = history_height settings \<le> height \<and> address_valid address
     in \<lparr>rows_spends = [],
         rows_history = (if indexed then [(address_hash address, output_row point (ucast height) (output_value out))] else []),
         rows_address =
           (if indexed then [(address_key address,
              attachment_row point (ucast height) (output_value out) timestamp (output_attach_data out))] else []),
         rows_assets =
           (if indexed then
              (case attached_detail (output_attach_data out) of
                 Some d \<Rightarrow> [(sha256_hash (detail_symbol d), blockchain_asset_to_data
                    \<lparr>ba_version = 0, ba_tx_point = point, ba_height = ucast (ucast height :: u32), ba_asset = d\<rparr>)]
               | None \<Rightarrow> []) else []),
         rows_transactions = []\<rparr>)"

definition transaction_rows :: "db_settings \<Rightarrow> u32 \<Rightarrow> u64 \<Rightarrow> nat \<times> transaction \<Rightarrow> db_rows" where
  "transaction_rows settings timestamp height = (\<lambda>(index, tx).
     let tx_hash = transaction_hash tx
     in append_rows
          (append_rows
             (concat_rows (map (input_rows settings timestamp height tx_hash)
                (if is_coinbase tx then [] else enumerate 0 (tx_inputs tx))))
             (concat_rows (map (output_rows settings timestamp height tx_hash) (enumerate 0 (tx_outputs tx)))))
          (no_rows\<lparr>rows_transactions := [(tx_hash, transaction_value height index tx)]\<rparr>))"

definition block_rows :: "db_settings \<Rightarrow> u64 \<Rightarrow> block \<Rightarrow> db_rows" where
  "block_rows settings height b =
     concat_rows (map (transaction_rows settings (hdr_timestamp (block_header b)) height) (enumerate 0 (block_transactions b)))"

section \<open>Pushing rows\<close>

lemma run_rows_timestamp: "run_rows ops rows db = Returns db' \<Longrightarrow> db_timestamp db' = db_timestamp db"
  by (auto simp: run_rows_def bind_eq_Some_conv)

lemma push_input_rows:
  "push_input settings tx_hash height x db = run_rows pushes (input_rows settings (db_timestamp db) height tx_hash x) db"
  by (rule option_eqI)
    (auto simp: push_input_def input_rows_def run_rows_def Let_def split_def script_address_of spend_store_def
      history_add_input_def bind_eq_Some_conv)

lemma for_each_rows:
  assumes "\<And>x db. x \<in> set xs \<Longrightarrow> body x db = run_rows pushes (rows (db_timestamp db) x) db"
  shows "for_each body xs db = run_rows pushes (concat_rows (map (rows (db_timestamp db)) xs)) db"
  using assms
proof (induction xs arbitrary: db)
  case (Cons x xs)
  have "for_each body (x # xs) db =
      Option.bind (run_rows pushes (rows (db_timestamp db) x) db) (\<lambda>db'. run_rows pushes (concat_rows (map (rows (db_timestamp db')) xs)) db')"
    using Cons by simp
  also have "\<dots> = Option.bind (run_rows pushes (rows (db_timestamp db) x) db) (run_rows pushes (concat_rows (map (rows (db_timestamp db)) xs)))"
    using run_rows_timestamp by (intro Option.bind_cong) auto
  finally show ?case by (simp add: run_rows_pushes_append)
qed simp

lemma asset_store_push:
  assumes "asset_detail_serialized_size d = length (asset_detail_to_data d)" "length (point_hash p) = 32"
  shows "asset_store hash \<lparr>ba_version = n, ba_tx_point = p, ba_height = h, ba_asset = d\<rparr> t =
    snd (slab_store hash (blockchain_asset_to_data \<lparr>ba_version = n, ba_tx_point = p, ba_height = h, ba_asset = d\<rparr>)
      (length (blockchain_asset_to_data \<lparr>ba_version = n, ba_tx_point = p, ba_height = h, ba_asset = d\<rparr>)) t)"
  using assms
  by (simp add: asset_store_def blockchain_asset_serialized_size_def blockchain_asset_to_data_def point_to_data_def
      point_satoshi_fixed_size_def size_simps)

definition asset_sized :: "tx_output \<Rightarrow> bool" where
  "asset_sized out \<longleftrightarrow>
     (case attached_detail (output_attach_data out) of
        Some d \<Rightarrow> asset_detail_serialized_size d = length (asset_detail_to_data d) | None \<Rightarrow> True)"

lemma push_output_rows:
  assumes "asset_sized (snd x)" "length tx_hash = 32" "history_height settings \<le> height"
  shows "push_output settings tx_hash height x db = run_rows pushes (output_rows settings (db_timestamp db) height tx_hash x) db"
proof (cases "attached_detail (output_attach_data (snd x))")
  case None
  then show ?thesis
    using assms
    by (intro option_eqI)
      (auto simp: push_output_def output_rows_def run_rows_def Let_def split_def script_address_of
        history_add_output_def push_attachment_def bind_eq_Some_conv)
next
  case (Some d)
  then show ?thesis
    using assms
    by (intro option_eqI)
      (auto simp: push_output_def output_rows_def run_rows_def Let_def split_def script_address_of asset_sized_def
        history_add_output_def push_attachment_def push_asset_detail_def asset_store_push bind_eq_Some_conv)
qed

definition set_rest :: "record_manager \<Rightarrow> u32 \<Rightarrow> data_base \<Rightarrow> data_base" where
  "set_rest stealth timestamp db = db\<lparr>db_stealth := stealth, db_timestamp := timestamp\<rparr>"

lemma set_rest_simps [simp]:
  "db_blocks (set_rest s t db) = db_blocks db" "db_spends (set_rest s t db) = db_spends db"
  "db_history (set_rest s t db) = db_history db" "db_address_assets (set_rest s t db) = db_address_assets db"
  "db_assets (set_rest s t db) = db_assets db" "db_transactions (set_rest s t db) = db_transactions db"
  "set_rest s' t' (set_rest s t db) = set_rest s' t' db" "db_timestamp (set_rest s t db) = t"
  "db_stealth (set_rest s t db) = s"
  by (simp_all add: set_rest_def)

lemma run_rows_rest: "run_rows ops rows (set_rest s t db) = map_option (set_rest s t) (run_rows ops rows db)"
  by (rule option_eqI) (auto simp: run_rows_def bind_eq_Some_conv set_rest_def)

lemma push_stealth_rest: "\<exists>s. push_stealth settings tx_hash height outputs db = Returns (set_rest s (db_timestamp db) db)"
proof -
  have "\<exists>rows'. for_each (push_stealth_pair settings tx_hash height) xs rows = Returns rows'" for xs rows
  proof (induction xs arbitrary: rows)
    case (Cons x xs)
    have "\<exists>rows'. push_stealth_pair settings tx_hash height x rows = Returns rows'"
      by (auto simp: push_stealth_pair_def split_def script_address_of split: option.split)
    with Cons show ?case by auto
  qed simp
  then obtain rows' where "for_each (push_stealth_pair settings tx_hash height) (zip (butlast outputs) (tl outputs))
      (db_stealth db) = Returns rows'" by blast
  then show ?thesis
    by (cases "height < stealth_height settings \<or> outputs = []")
      (simp_all add: push_stealth_def set_rest_def exI [of _ "db_stealth db"] exI [of _ rows'])
qed

text \<open>
  The sizes that the stores announce are the sizes of what they write, and no transaction is
  skipped.
\<close>

definition transaction_sized :: "transaction \<Rightarrow> bool" where
  "transaction_sized tx \<longleftrightarrow> transaction_serialized_size tx = length (transaction_to_data tx) \<and>
     list_all asset_sized (tx_outputs tx)"

lemma length_hash [simp]: "length (transaction_hash tx) = 32" "length (header_hash h) = 32"
  by (simp_all add: transaction_hash_def header_hash_def)

lemma push_outputs_rows:
  assumes "list_all asset_sized outputs" "length tx_hash = 32"
  shows "push_outputs settings tx_hash height outputs db =
    run_rows pushes (concat_rows (map (output_rows settings (db_timestamp db) height tx_hash) (enumerate 0 outputs))) db"
proof (cases "height < history_height settings")
  case True
  then have "output_rows settings (db_timestamp db) height tx_hash x = no_rows" for x
    by (auto simp: output_rows_def no_rows_def split_def Let_def)
  then have "concat_rows (map (output_rows settings (db_timestamp db) height tx_hash) xs) = no_rows" for xs
    by (induction xs) (simp_all add: append_rows_def no_rows_def)
  with True show ?thesis by (simp add: push_outputs_def)
next
  case False
  have "asset_sized (snd x)" if "x \<in> set (enumerate 0 outputs)" for x
    using assms(1) that by (auto simp: in_set_enumerate_eq list_all_length)
  then have "for_each (push_output settings tx_hash height) (enumerate 0 outputs) db =
      run_rows pushes (concat_rows (map (output_rows settings (db_timestamp db) height tx_hash) (enumerate 0 outputs))) db"
    using push_output_rows assms(2) False
    by (intro for_each_rows [where rows = "\<lambda>t. output_rows settings t height tx_hash"]) (simp add: linorder_not_less)
  with False show ?thesis by (simp add: push_outputs_def)
qed

lemma push_inputs_rows:
  "push_inputs settings tx_hash height inputs db =
    run_rows pushes (concat_rows (map (input_rows settings (db_timestamp db) height tx_hash) (enumerate 0 inputs))) db"
  unfolding push_inputs_def
  by (rule for_each_rows [where rows = "\<lambda>t. input_rows settings t height tx_hash"]) (rule push_input_rows)

lemma push_transaction_rows:
  assumes "\<not> is_allowed_duplicate head height" "transaction_sized tx"
  shows "\<exists>s. push_transaction settings head height (index, tx) db =
    map_option (set_rest s (hdr_timestamp head)) (run_rows pushes (transaction_rows settings (hdr_timestamp head) height (index, tx)) db)"
proof -
  let ?t = "hdr_timestamp head" and ?hash = "transaction_hash tx"
  let ?db = "set_rest (db_stealth db) ?t db"
  let ?inputs = "concat_rows (map (input_rows settings ?t height ?hash) (if is_coinbase tx then [] else enumerate 0 (tx_inputs tx)))"
    and ?outputs = "concat_rows (map (output_rows settings ?t height ?hash) (enumerate 0 (tx_outputs tx)))"
  have inputs: "(if is_coinbase tx then Returns ?db else push_inputs settings ?hash height (tx_inputs tx) ?db) =
      run_rows pushes ?inputs ?db"
    by (simp add: push_inputs_rows)
  have both: "Option.bind (run_rows pushes ?inputs ?db) (push_outputs settings ?hash height (tx_outputs tx)) =
      run_rows pushes (append_rows ?inputs ?outputs) ?db"
    unfolding run_rows_pushes_append using assms(2)
    by (intro Option.bind_cong) (auto simp: push_outputs_rows transaction_sized_def dest: run_rows_timestamp)
  have store: "Returns (d\<lparr>db_transactions := transaction_store height index tx (db_transactions d)\<rparr>) =
      run_rows pushes (no_rows\<lparr>rows_transactions := [(?hash, transaction_value height index tx)]\<rparr>) d" for d
    using assms(2)
    by (simp add: run_rows_def no_rows_def transaction_store_def transaction_value_def transaction_sized_def size_simps)
  have whole: "push_transaction settings head height (index, tx) db =
      Option.bind (run_rows pushes (append_rows ?inputs ?outputs) ?db) (\<lambda>d.
        Option.bind (push_stealth settings ?hash height (tx_outputs tx) d) (\<lambda>d.
          run_rows pushes (no_rows\<lparr>rows_transactions := [(?hash, transaction_value height index tx)]\<rparr>) d))"
    using assms(1) unfolding both [symmetric] store [symmetric] inputs [symmetric]
    by (simp add: push_transaction_def Let_def set_rest_def Option.bind_assoc)
  show ?thesis
  proof (cases "run_rows pushes (append_rows ?inputs ?outputs) db")
    case None
    then show ?thesis
      unfolding whole run_rows_rest by (simp add: transaction_rows_def Let_def run_rows_pushes_append [of "append_rows _ _"])
  next
    case (Some d)
    obtain s where "push_stealth settings ?hash height (tx_outputs tx) (set_rest (db_stealth db) ?t d) = Returns (set_rest s ?t d)"
      using push_stealth_rest [of settings ?hash height "tx_outputs tx" "set_rest (db_stealth db) ?t d"] by auto
    then have "push_transaction settings head height (index, tx) db =
        run_rows pushes (no_rows\<lparr>rows_transactions := [(?hash, transaction_value height index tx)]\<rparr>) (set_rest s ?t d)"
      unfolding whole by (simp add: run_rows_rest Some)
    then show ?thesis
      unfolding run_rows_rest transaction_rows_def using Some
      by (auto simp: Let_def run_rows_pushes_append [of "append_rows _ _"])
  qed
qed

lemma push_transactions_rows:
  assumes "\<not> is_allowed_duplicate head height" "\<forall>(index, tx) \<in> set xs. transaction_sized tx"
  shows "\<exists>s t. for_each (push_transaction settings head height) xs db =
    map_option (set_rest s t) (run_rows pushes (concat_rows (map (transaction_rows settings (hdr_timestamp head) height) xs)) db)"
  using assms(2)
proof (induction xs arbitrary: db)
  case Nil
  then show ?case by (auto simp: set_rest_def intro!: exI [of _ "db_stealth db"] exI [of _ "db_timestamp db"])
next
  case (Cons x xs)
  let ?rows = "transaction_rows settings (hdr_timestamp head) height"
  obtain index tx where x: "x = (index, tx)" "transaction_sized tx" using Cons.prems by (cases x) auto
  obtain s where first: "push_transaction settings head height x db =
      map_option (set_rest s (hdr_timestamp head)) (run_rows pushes (?rows x) db)"
    using push_transaction_rows [OF assms(1) x(2)] x(1) by blast
  show ?case
  proof (cases "run_rows pushes (?rows x) db")
    case None
    then show ?thesis using first by (simp add: run_rows_pushes_append)
  next
    case (Some d)
    obtain s' t' where "for_each (push_transaction settings head height) xs (set_rest s (hdr_timestamp head) d) =
        map_option (set_rest s' t') (run_rows pushes (concat_rows (map ?rows xs)) (set_rest s (hdr_timestamp head) d))"
      using Cons by force
    then have "for_each (push_transaction settings head height) (x # xs) db =
        map_option (set_rest s' t') (run_rows pushes (concat_rows (map ?rows (x # xs))) db)"
      using first Some by (simp add: run_rows_pushes_append run_rows_rest option.map_comp comp_def)
    then show ?thesis by blast
  qed
qed

section \<open>Popping rows\<close>

lemma for_each_append: "for_each body (xs @ ys) s = Option.bind (for_each body xs s) (for_each body ys)"
proof (induction xs arbitrary: s)
  case (Cons x xs)
  then show ?case by (cases "body x s") simp_all
qed simp

lemma for_each_pops:
  assumes "\<And>x db. x \<in> set xs \<Longrightarrow> body (snd x) db = run_rows pops (rows x) db"
  shows "for_each body (rev (map snd xs)) db = run_rows pops (concat_rows (map rows xs)) db"
  using assms
proof (induction xs arbitrary: db)
  case (Cons x xs)
  have "for_each body [snd x] = run_rows pops (rows x)" using Cons.prems by (intro ext) simp
  then show ?case using Cons by (simp add: for_each_append run_rows_pops_append del: for_each.simps)
qed simp

lemma pop_input_rows:
  "pop_input settings height (snd x) db = run_rows pops (input_rows settings timestamp height tx_hash x) db"
  by (rule option_eqI)
    (auto simp: pop_input_def input_rows_def run_rows_def Let_def split_def script_address_of spend_remove_def bind_eq_Some_conv)

lemma asset_issue_attached:
  assumes "wf_attachment (output_attach_data out)"
  shows "is_asset_issue out = Returns (attached_detail (output_attach_data out) \<noteq> None)"
    "attached_detail (output_attach_data out) = Some d \<Longrightarrow> get_asset_symbol out = Returns (detail_symbol d)"
  using assms
  by (auto simp: wf_attachment_def wf_asset_def is_asset_issue_def get_asset_symbol_def get_asset_def attached_detail_def
      split: attachment_data.split_asm asset_data.split_asm)

lemma pop_output_rows:
  assumes "wf_attachment (output_attach_data (snd x))" "history_height settings \<le> height"
  shows "pop_output settings (snd x) db = run_rows pops (output_rows settings timestamp height tx_hash x) db"
proof (cases "attached_detail (output_attach_data (snd x))")
  case None
  then show ?thesis
    using assms
    by (intro option_eqI)
      (auto simp: pop_output_def output_rows_def run_rows_def Let_def split_def script_address_of asset_issue_attached
        bind_eq_Some_conv)
next
  case (Some d)
  then show ?thesis
    using assms
    by (intro option_eqI)
      (auto simp: pop_output_def output_rows_def run_rows_def Let_def split_def script_address_of asset_issue_attached
        slab_remove_def bind_eq_Some_conv)
qed

lemma pop_outputs_rows:
  assumes "list_all wf_output outputs"
  shows "pop_outputs settings outputs height db =
    run_rows pops (concat_rows (map (output_rows settings timestamp height tx_hash) (enumerate 0 outputs))) db"
proof (cases "height < history_height settings")
  case True
  then have "output_rows settings timestamp height tx_hash x = no_rows" for x
    by (auto simp: output_rows_def no_rows_def split_def Let_def)
  then have "concat_rows (map (output_rows settings timestamp height tx_hash) xs) = no_rows" for xs
    by (induction xs) (simp_all add: append_rows_def no_rows_def)
  with True show ?thesis by (simp add: pop_outputs_def)
next
  case False
  have "wf_attachment (output_attach_data (snd x))" if "x \<in> set (enumerate 0 outputs)" for x
    using assms that by (auto simp: in_set_enumerate_eq list_all_length wf_output_def)
  then show ?thesis
    using False for_each_pops [of "enumerate 0 outputs" "pop_output settings" "output_rows settings timestamp height tx_hash" db]
    by (simp add: pop_outputs_def pop_output_rows [OF _ leI])
qed

lemma pop_transaction_rows:
  assumes "wf_transaction (snd x)"
  shows "pop_transaction settings height (snd x) db = run_rows pops (transaction_rows settings timestamp height x) db"
proof -
  obtain index tx where x: "x = (index, tx)" by fastforce
  let ?hash = "transaction_hash tx"
  have remove: "Option.bind (slab_remove ?hash (db_transactions db)) (\<lambda>txs. f (db\<lparr>db_transactions := txs\<rparr>)) =
      Option.bind (run_rows pops (no_rows\<lparr>rows_transactions := [(?hash, transaction_value height index tx)]\<rparr>) db) f" for f
    by (cases "slab_remove ?hash (db_transactions db)") (simp_all add: run_rows_def no_rows_def slab_remove_def)
  have inputs: "(if is_coinbase tx then Returns d else pop_inputs settings (tx_inputs tx) height d) =
      run_rows pops (concat_rows (map (input_rows settings timestamp height ?hash)
        (if is_coinbase tx then [] else enumerate 0 (tx_inputs tx)))) d" for d
    using for_each_pops [of "enumerate 0 (tx_inputs tx)" "pop_input settings height" "input_rows settings timestamp height ?hash" d]
    by (simp add: pop_inputs_def pop_input_rows)
  have outputs: "list_all wf_output (tx_outputs tx)" using assms x by (simp add: wf_transaction_def)
  show ?thesis
    unfolding x snd_conv pop_transaction_def inputs pop_outputs_rows [OF outputs, of _ _ _ timestamp ?hash]
      transaction_rows_def Let_def prod.case run_rows_pops_append
    by (rule remove)
qed

lemma pop_transactions_rows:
  assumes "list_all wf_transaction txs"
  shows "for_each (pop_transaction settings height) (rev txs) db =
    run_rows pops (concat_rows (map (transaction_rows settings timestamp height) (enumerate 0 txs))) db"
proof -
  have "wf_transaction (snd x)" if "x \<in> set (enumerate 0 txs)" for x
    using assms that by (auto simp: in_set_enumerate_eq list_all_length)
  then show ?thesis
    using for_each_pops [of "enumerate 0 txs" "pop_transaction settings height" "transaction_rows settings timestamp height" db]
    by (simp add: pop_transaction_rows)
qed

section \<open>What the tables hold\<close>

definition record_holds :: "record_hash_table \<Rightarrow> (bytes \<times> bytes) list \<Rightarrow> bool" where
  "record_holds t rows \<longleftrightarrow> (\<exists>content. record_stores t content \<and> (\<forall>key. map snd (content key) = stack_of rows key))"

definition slab_holds :: "slab_hash_table \<Rightarrow> (bytes \<times> bytes) list \<Rightarrow> bool" where
  "slab_holds t rows \<longleftrightarrow> (\<exists>content. stores t content \<and> (\<forall>key. map snd (content key) = stack_of rows key))"

definition tables_hold :: "db_rows \<Rightarrow> data_base \<Rightarrow> bool" where
  "tables_hold rows db \<longleftrightarrow>
     record_holds (db_spends db) (rows_spends rows) \<and>
     multimap_holds (db_history db) (stack_of (rows_history rows)) \<and>
     multimap_holds (db_address_assets db) (stack_of (rows_address rows)) \<and>
     slab_holds (db_assets db) (rows_assets rows) \<and>
     slab_holds (db_transactions db) (rows_transactions rows)"

text \<open>The sizes of keys and records, which the constructors of the databases set.\<close>

definition tables_shaped :: "data_base \<Rightarrow> bool" where
  "tables_shaped db \<longleftrightarrow>
     map_key_size (db_spends db) = 36 \<and> value_size_of (db_spends db) = 36 \<and>
     map_key_size (multimap_map (db_history db)) = 20 \<and> record_size (multimap_records (db_history db)) = 32 + 4 + 49 \<and>
     map_key_size (multimap_map (db_address_assets db)) = 20 \<and>
     record_size (multimap_records (db_address_assets db)) = 32 + 4 + (55 + asset_detail_fix_size) \<and>
     table_key_size (db_assets db) = 32 \<and> table_key_size (db_transactions db) = 32"

definition rows_sized :: "db_rows \<Rightarrow> bool" where
  "rows_sized rows \<longleftrightarrow>
     (\<forall>(key, v) \<in> set (rows_spends rows). length key = 36 \<and> length v = 36) \<and>
     (\<forall>(key, v) \<in> set (rows_history rows). length key = 20 \<and> length v = 49) \<and>
     (\<forall>(key, v) \<in> set (rows_address rows). length key = 20 \<and> length v \<le> 32 + 55 + asset_detail_fix_size) \<and>
     (\<forall>(key, v) \<in> set (rows_assets rows). length key = 32) \<and>
     (\<forall>(key, v) \<in> set (rows_transactions rows). length key = 32)"

definition multimap_room :: "record_multimap \<Rightarrow> nat" where
  "multimap_room mm =
     2 ^ 32 - 2 - max (unat (record_count (multimap_records mm))) (unat (record_count (map_manager (multimap_map mm))))"

definition tables_room :: "db_rows \<Rightarrow> data_base \<Rightarrow> bool" where
  "tables_room rows db \<longleftrightarrow>
     length (rows_spends rows) \<le> 2 ^ 32 - 2 - unat (record_count (map_manager (db_spends db))) \<and>
     length (rows_history rows) \<le> multimap_room (db_history db) \<and>
     length (rows_address rows) \<le> multimap_room (db_address_assets db) \<and>
     (\<Sum>(key, v) \<leftarrow> rows_assets rows. 40 + length v) \<le> 2 ^ 64 - 1 - unat (payload (db_assets db)) \<and>
     (\<Sum>(key, v) \<leftarrow> rows_transactions rows. 40 + length v) \<le> 2 ^ 64 - 1 - unat (payload (db_transactions db))"

lemma one_each: "(\<Sum>(key, v) \<leftarrow> rows. Suc 0) = length rows"
  by (induction rows) auto

lemma record_runs:
  "record_holds t rows \<Longrightarrow> \<forall>(key, v) \<in> set new. length key = map_key_size t \<and> length v = value_size_of t \<Longrightarrow>
     length new \<le> 2 ^ 32 - 2 - unat (record_count (map_manager t)) \<Longrightarrow>
     \<exists>t'. store_run (\<lambda>key v t. Returns (record_store key v t)) (\<lambda>key t. map_option snd (record_unlink key t)) (pushes new) t =
       Returns t' \<and> record_holds t' (rows @ new) \<and> map_key_size t' = map_key_size t \<and> value_size_of t' = value_size_of t"
  "record_holds t (rows @ new) \<Longrightarrow>
     \<exists>t'. store_run (\<lambda>key v t. Returns (record_store key v t)) (\<lambda>key t. map_option snd (record_unlink key t)) (pops new) t =
       Returns t' \<and> record_holds t' rows \<and> map_key_size t' = map_key_size t \<and> value_size_of t' = value_size_of t"
  unfolding record_holds_def
  using records.stacks.run_simulates [OF _ spec_run_pushes, of t rows new]
    records.stacks.run_simulates [OF _ spec_run_pops, of t rows new] by (simp_all add: one_each)

lemma slab_runs:
  "slab_holds t rows \<Longrightarrow> \<forall>(key, v) \<in> set new. length key = table_key_size t \<Longrightarrow>
     (\<Sum>(key, v) \<leftarrow> new. table_key_size t + 8 + length v) \<le> 2 ^ 64 - 1 - unat (payload t) \<Longrightarrow>
     \<exists>t'. store_run slab_push slab_pop (pushes new) t = Returns t' \<and> slab_holds t' (rows @ new) \<and>
       table_key_size t' = table_key_size t"
  "slab_holds t (rows @ new) \<Longrightarrow>
     \<exists>t'. store_run slab_push slab_pop (pops new) t = Returns t' \<and> slab_holds t' rows \<and> table_key_size t' = table_key_size t"
  unfolding slab_holds_def
  using slab.stacks.run_simulates [OF _ spec_run_pushes, of t rows new]
    slab.stacks.run_simulates [OF _ spec_run_pops, of t rows new] by simp_all

lemma multimap_runs:
  "multimap_holds mm (stack_of rows) \<Longrightarrow>
     \<forall>(key, v) \<in> set new. length key = map_key_size (multimap_map mm) \<and> length v + 4 \<le> record_size (multimap_records mm) \<Longrightarrow>
     length new \<le> multimap_room mm \<Longrightarrow>
     \<exists>mm'. store_run add_row delete_last_row (pushes new) mm = Returns mm' \<and> multimap_holds mm' (stack_of (rows @ new)) \<and>
       map_key_size (multimap_map mm') = map_key_size (multimap_map mm) \<and>
       record_size (multimap_records mm') = record_size (multimap_records mm)"
  "multimap_holds mm (stack_of (rows @ new)) \<Longrightarrow>
     \<exists>mm'. store_run add_row delete_last_row (pops new) mm = Returns mm' \<and> multimap_holds mm' (stack_of rows) \<and>
       map_key_size (multimap_map mm') = map_key_size (multimap_map mm) \<and>
       record_size (multimap_records mm') = record_size (multimap_records mm)"
  using multimap.run_simulates [OF _ spec_run_pushes, of mm rows new]
    multimap.run_simulates [OF _ spec_run_pops, of mm rows new] by (simp_all add: one_each multimap_room_def)

lemma address_runs:
  "multimap_holds mm (stack_of rows) \<Longrightarrow>
     \<forall>(key, v) \<in> set new. length key = map_key_size (multimap_map mm) \<and> length v + 4 \<le> record_size (multimap_records mm) \<Longrightarrow>
     length new \<le> multimap_room mm \<Longrightarrow>
     \<exists>mm'. store_run address_store delete_last_row (pushes new) mm = Returns mm' \<and> multimap_holds mm' (stack_of (rows @ new)) \<and>
       map_key_size (multimap_map mm') = map_key_size (multimap_map mm) \<and>
       record_size (multimap_records mm') = record_size (multimap_records mm)"
  "multimap_holds mm (stack_of (rows @ new)) \<Longrightarrow>
     \<exists>mm'. store_run address_store delete_last_row (pops new) mm = Returns mm' \<and> multimap_holds mm' (stack_of rows) \<and>
       map_key_size (multimap_map mm') = map_key_size (multimap_map mm) \<and>
       record_size (multimap_records mm') = record_size (multimap_records mm)"
  using address_rows.run_simulates [OF _ spec_run_pushes, of mm rows new]
    address_rows.run_simulates [OF _ spec_run_pops, of mm rows new] by (simp_all add: one_each multimap_room_def)

lemma push_rows_hold:
  assumes hold: "tables_hold rows db" and shape: "tables_shaped db" and sized: "rows_sized new" and room: "tables_room new db"
  obtains db' where "run_rows pushes new db = Returns db'" "tables_hold (append_rows rows new) db'" "tables_shaped db'"
    "db_blocks db' = db_blocks db"
proof -
  note s = shape [unfolded tables_shaped_def] and z = sized [unfolded rows_sized_def] and r = room [unfolded tables_room_def]
    and h = hold [unfolded tables_hold_def]
  obtain spends where sp: "store_run (\<lambda>key v t. Returns (record_store key v t)) (\<lambda>key t. map_option snd (record_unlink key t))
      (pushes (rows_spends new)) (db_spends db) = Returns spends"
    "record_holds spends (rows_spends rows @ rows_spends new)" "map_key_size spends = 36" "value_size_of spends = 36"
    using record_runs(1) [of "db_spends db" "rows_spends rows" "rows_spends new"] s z r h by auto
  obtain history where hi: "store_run add_row delete_last_row (pushes (rows_history new)) (db_history db) = Returns history"
    "multimap_holds history (stack_of (rows_history rows @ rows_history new))"
    "map_key_size (multimap_map history) = 20" "record_size (multimap_records history) = 32 + 4 + 49"
    using multimap_runs(1) [of "db_history db" "rows_history rows" "rows_history new"] s z r h by fastforce
  obtain address where ad: "store_run address_store delete_last_row (pushes (rows_address new)) (db_address_assets db) = Returns address"
    "multimap_holds address (stack_of (rows_address rows @ rows_address new))"
    "map_key_size (multimap_map address) = 20"
    "record_size (multimap_records address) = 32 + 4 + (55 + asset_detail_fix_size)"
    using address_runs(1) [of "db_address_assets db" "rows_address rows" "rows_address new"] s z r h by fastforce
  obtain assets where as: "store_run slab_push slab_pop (pushes (rows_assets new)) (db_assets db) = Returns assets"
    "slab_holds assets (rows_assets rows @ rows_assets new)" "table_key_size assets = 32"
    using slab_runs(1) [of "db_assets db" "rows_assets rows" "rows_assets new"] s z r h by auto
  obtain txs where tx: "store_run slab_push slab_pop (pushes (rows_transactions new)) (db_transactions db) = Returns txs"
    "slab_holds txs (rows_transactions rows @ rows_transactions new)" "table_key_size txs = 32"
    using slab_runs(1) [of "db_transactions db" "rows_transactions rows" "rows_transactions new"] s z r h by auto
  show ?thesis
    by (rule that [of "db\<lparr>db_spends := spends, db_history := history, db_address_assets := address,
        db_assets := assets, db_transactions := txs\<rparr>"])
      (use sp hi ad as tx in \<open>simp_all add: run_rows_def tables_hold_def append_rows_def tables_shaped_def\<close>)
qed

lemma pop_rows_hold:
  assumes hold: "tables_hold (append_rows rows new) db" and shape: "tables_shaped db"
  obtains db' where "run_rows pops new db = Returns db'" "tables_hold rows db'" "tables_shaped db'"
    "db_blocks db' = db_blocks db"
proof -
  note s = shape [unfolded tables_shaped_def] and h = hold [unfolded tables_hold_def append_rows_def db_rows.simps]
  obtain spends where sp: "store_run (\<lambda>key v t. Returns (record_store key v t)) (\<lambda>key t. map_option snd (record_unlink key t))
      (pops (rows_spends new)) (db_spends db) = Returns spends"
    "record_holds spends (rows_spends rows)" "map_key_size spends = 36" "value_size_of spends = 36"
    using record_runs(2) [of "db_spends db" "rows_spends rows" "rows_spends new"] s h by auto
  obtain history where hi: "store_run add_row delete_last_row (pops (rows_history new)) (db_history db) = Returns history"
    "multimap_holds history (stack_of (rows_history rows))"
    "map_key_size (multimap_map history) = 20" "record_size (multimap_records history) = 32 + 4 + 49"
    using multimap_runs(2) [of "db_history db" "rows_history rows" "rows_history new"] s h by auto
  obtain address where ad: "store_run address_store delete_last_row (pops (rows_address new)) (db_address_assets db) = Returns address"
    "multimap_holds address (stack_of (rows_address rows))" "map_key_size (multimap_map address) = 20"
    "record_size (multimap_records address) = 32 + 4 + (55 + asset_detail_fix_size)"
    using address_runs(2) [of "db_address_assets db" "rows_address rows" "rows_address new"] s h by auto
  obtain assets where as: "store_run slab_push slab_pop (pops (rows_assets new)) (db_assets db) = Returns assets"
    "slab_holds assets (rows_assets rows)" "table_key_size assets = 32"
    using slab_runs(2) [of "db_assets db" "rows_assets rows" "rows_assets new"] s h by auto
  obtain txs where tx: "store_run slab_push slab_pop (pops (rows_transactions new)) (db_transactions db) = Returns txs"
    "slab_holds txs (rows_transactions rows)" "table_key_size txs = 32"
    using slab_runs(2) [of "db_transactions db" "rows_transactions rows" "rows_transactions new"] s h by auto
  show ?thesis
    by (rule that [of "db\<lparr>db_spends := spends, db_history := history, db_address_assets := address,
        db_assets := assets, db_transactions := txs\<rparr>"])
      (use sp hi ad as tx in \<open>simp_all add: run_rows_def tables_hold_def tables_shaped_def\<close>)
qed

end
