(* ===== verification/Chain_Database.thy ===== *)
theory Chain_Database
  imports Chain_Store
begin

text \<open>
  The database as a chain of blocks: the relation between the files and a list of blocks, the
  oldest first, and that \<open>push\<close>, \<open>pop\<close> and the queries of \<open>block_chain_impl.cpp\<close> are the operations on the list.
\<close>

section \<open>The block database\<close>

lemma unat_of_nat_u32: "n < 2 ^ 32 \<Longrightarrow> unat (of_nat n :: u32) = n"
  by (simp add: unat_of_nat)

lemma height_casts [simp]:
  "ucast (of_nat n :: u64) = (of_nat n :: u32)"
  "n < 2 ^ 32 \<Longrightarrow> ucast (of_nat n :: u32) = (of_nat n :: u64)"
proof -
  show "ucast (of_nat n :: u64) = (of_nat n :: u32)"
    by (rule word_unat_eq_iff [THEN iffD2]) (simp add: unsigned_ucast_eq unat_of_nat take_bit_eq_mod mod_mod_cancel)
  assume n: "n < 2 ^ 32"
  show "ucast (of_nat n :: u32) = (of_nat n :: u64)"
    by (rule word_unat_eq_iff [THEN iffD2]) (use n in \<open>simp add: unsigned_ucast_eq unat_of_nat take_bit_nat_eq_self_iff\<close>)
qed

definition index_holds :: "record_manager \<Rightarrow> u64 list \<Rightarrow> bool" where
  "index_holds m ps \<longleftrightarrow> record_size m = 8 \<and> length ps < 2 ^ 32 \<and> record_count m = of_nat (length ps) \<and>
     (\<forall>i < length ps. read_position m (of_nat i) = ps ! i)"

lemma write_position_next:
  assumes "index_holds m ps" "length ps + 1 < 2 ^ 32"
  shows "index_holds (write_position p (of_nat (length ps)) m) (ps @ [p])"
proof -
  let ?n = "of_nat (length ps) :: u32"
  have m: "record_size m = 8" "record_count m = ?n" using assms(1) by (simp_all add: index_holds_def)
  have n: "unat ?n = length ps" "unat (?n + 1) = length ps + 1"
    using assms(2) unat_of_nat_u32 [of "length ps"] unat_of_nat_u32 [of "length ps + 1"] by (simp_all add: add.commute)
  then have less: "?n < ?n + 1" unfolding word_less_nat_alt by simp
  have w: "write_position p ?n m = write_index ?n p (m\<lparr>record_count := ?n + 1\<rparr>)"
    using less by (simp add: write_position_def Let_def m zeroize_def new_records_def)
  have "read_position (write_position p ?n m) (of_nat i) = (ps @ [p]) ! i" if i: "i < length ps + 1" for i
  proof (cases "i = length ps")
    case True
    then show ?thesis
      by (simp add: w write_index_def write_record_def read_position_def record_to_position_def read_write_same)
  next
    case False
    then have "unat (of_nat i :: u32) = i" "i < length ps" using i assms(2) by (simp_all add: unat_of_nat)
    moreover from this have "read_position m (of_nat i) = ps ! i" using assms(1) by (simp add: index_holds_def)
    ultimately show ?thesis
      using n(1) False
      by (simp add: w write_index_def write_record_def read_position_def record_to_position_def read_write_other m(1)
          nth_append)
  qed
  then show ?thesis
    using assms(2) by (simp add: index_holds_def w write_index_def write_record_def m add.commute)
qed

lemma index_holds_count: 
  assumes "index_holds m (ps @ [p])"
  shows "index_holds (set_count (of_nat (length ps)) m) ps"
  using assms by (auto simp: index_holds_def set_count_def read_position_def record_to_position_def nth_append)

lemma index_holds_sync: "index_holds (record_sync m) ps = index_holds m ps"
  by (simp add: index_holds_def read_position_def record_sync_file record_to_position_ge)

definition block_entries :: "u64 list \<Rightarrow> block list \<Rightarrow> (bytes \<times> u64 \<times> bytes) list" where
  "block_entries ps bs = map (\<lambda>(h, p, b). (header_hash (block_header b), p, block_value (of_nat h) b)) (enumerate 0 (zip ps bs))"

lemma block_entries_append:
  "length ps = length bs \<Longrightarrow> block_entries (ps @ [p]) (bs @ [b]) =
     block_entries ps bs @ [(header_hash (block_header b), p, block_value (of_nat (length bs)) b)]"
  by (simp add: block_entries_def enumerate_append_eq)

definition blocks_hold :: "block_database \<Rightarrow> block list \<Rightarrow> bool" where
  "blocks_hold blocks bs \<longleftrightarrow> table_key_size (block_map blocks) = 32 \<and>
     (\<exists>ps. length ps = length bs \<and> index_holds (block_index blocks) ps \<and>
       stores (block_map blocks) (stack_of (block_entries ps bs)))"

lemma stack_of_snoc: "stack_of (rows @ [(key, v)]) = (stack_of rows)(key := v # stack_of rows key)"
  by (auto simp: stack_of_def)

lemma length_header_to_data: "wf_header h \<Longrightarrow> length (header_to_data False h) = 148"
  by (simp add: header_to_data_def wf_header_def size_simps)

lemma length_block_value:
  assumes "wf_header (block_header b)"
  shows "length (block_value h b) = 148 + 4 + 4 + length (block_transactions b) * 32"
proof -
  have "length (concat (map transaction_hash txs)) = length txs * 32" for txs by (induction txs) simp_all
  then show ?thesis using assms by (simp add: block_value_def length_header_to_data size_simps)
qed

definition block_room :: "block \<Rightarrow> block_database \<Rightarrow> bool" where
  "block_room b blocks \<longleftrightarrow>
     unat (payload (block_map blocks)) + (40 + 156 + length (block_transactions b) * 32) < 2 ^ 64 \<and>
     unat (record_count (block_index blocks)) + 1 < 2 ^ 32"

lemma block_store_holds:
  assumes "blocks_hold blocks bs" "wf_header (block_header b)" "block_room b blocks"
  shows "blocks_hold (block_store b (of_nat (length bs)) blocks) (bs @ [b])"
proof -
  obtain ps where ps: "length ps = length bs" "index_holds (block_index blocks) ps"
    "stores (block_map blocks) (stack_of (block_entries ps bs))" and key: "table_key_size (block_map blocks) = 32"
    using assms(1) by (auto simp: blocks_hold_def)
  let ?v = "block_value (of_nat (length bs)) b" and ?hash = "header_hash (block_header b)"
  obtain p t where run: "slab_store ?hash ?v (length ?v) (block_map blocks) = (p, t)" by fastforce
  have size: "length ?v = 148 + 4 + 4 + length (block_transactions b) * 32" by (rule length_block_value [OF assms(2)])
  have space: "unat (payload (block_map blocks)) + value_begin (block_map blocks) + length ?v < 2 ^ 64"
    using assms(3) unfolding block_room_def value_begin_def key size by simp
  have "length bs + 1 < 2 ^ 32" "length bs < 2 ^ 32"
    using assms(3) ps(1,2) by (simp_all add: block_room_def index_holds_def unat_of_nat_u32)
  then have "index_holds (write_position p (of_nat (length bs)) (block_index blocks)) (ps @ [p])"
    using write_position_next [OF ps(2)] ps(1) by simp
  moreover have "stores t (stack_of (block_entries (ps @ [p]) (bs @ [b])))"
    using slab_store_stores [OF ps(3) _ refl space run] key ps(1) by (simp add: block_entries_append stack_of_snoc)
  moreover have "table_key_size t = 32" using slab_store_result(2) [OF _ run] key by simp
  moreover have "block_store b (of_nat (length bs)) blocks =
      \<lparr>block_map = t, block_index = write_position p (of_nat (length bs)) (block_index blocks)\<rparr>"
    using run by (simp add: block_store_def Let_def size)
  ultimately show ?thesis using ps(1) by (auto simp: blocks_hold_def intro!: exI [of _ "ps @ [p]"])
qed

lemma read_at_append: "read_at m p (n + k) = read_at m p n @ read_at m (p + n) k"
proof -
  have "[p..<p + (n + k)] = [p..<p + n] @ [p + n..<p + n + k]"
    using upt_add_eq_append [of p "p + n" k] by (simp add: add.assoc)
  then show ?thesis by (simp add: read_at_def)
qed

lemma stores_bytes:
  assumes "stores t content" "(d, v) \<in> set (content key)"
  shows "\<exists>rest. bytes_at t d = v @ rest"
proof -
  obtain rows where rows: "laid_out t rows"
    "buckets_hold \<lparr>next_row = row_next t, key_of = row_key t,
       value_of = (\<lambda>p. (value_position t p, row_value t rows p)), is_row = row_of rows\<rparr>
       header_empty (bucket_index t) (table_header t) content"
    using assms(1) by (auto simp: stores_def)
  obtain p where p: "row_of rows p" "d = value_position t p" "v = row_value t rows p"
    by (rule content_rows [OF rows(2) assms(2)]) simp
  obtain n where n: "map_of rows (unat p) = Some n" "unat p + value_begin t + n \<le> unat (payload t)"
    "unat (value_position t p) = unat p + value_begin t"
    by (rule slab_layout_row [OF rows(1) p(1)])
  then obtain k where "unat (payload t) - unat d = n + k" using p(2) le_Suc_ex by fastforce
  then have "bytes_at t d = read_at (table_file t) (unat d) n @ read_at (table_file t) (unat d + n) k"
    by (simp add: bytes_at_def read_at_append)
  moreover have "read_at (table_file t) (unat d) n = v" using n p by (simp add: row_value_def)
  ultimately show ?thesis by simp
qed

lemma block_entries_stored:
  assumes "length ps = length bs" "i < length bs"
  shows "(ps ! i, block_value (of_nat i) (bs ! i)) \<in> set (stack_of (block_entries ps bs) (header_hash (block_header (bs ! i))))"
proof -
  have "(i, ps ! i, bs ! i) \<in> set (enumerate 0 (zip ps bs))"
    using assms by (simp add: in_set_enumerate_eq)
  then show ?thesis by (force simp: stack_of_def block_entries_def)
qed

lemma block_at_height:
  assumes "blocks_hold blocks bs" "i < length bs"
  obtains p rest where "block_get_height blocks (of_nat i) = Some p"
    "bytes_at (block_map blocks) p = block_value (of_nat i) (bs ! i) @ rest"
proof -
  obtain ps where ps: "length ps = length bs" "index_holds (block_index blocks) ps"
    "stores (block_map blocks) (stack_of (block_entries ps bs))"
    using assms(1) by (auto simp: blocks_hold_def)
  have lt: "length bs < 2 ^ 32" using ps by (simp add: index_holds_def)
  have "\<not> (of_nat (length bs) :: u64) \<le> of_nat i"
    using assms(2) lt unfolding word_le_nat_alt by (simp add: unat_of_nat_u64)
  then have "block_get_height blocks (of_nat i) = Some (ps ! i)"
    using ps(1,2) assms(2) lt by (simp add: block_get_height_def index_holds_def)
  moreover obtain rest where "bytes_at (block_map blocks) (ps ! i) = block_value (of_nat i) (bs ! i) @ rest"
    using stores_bytes [OF ps(3) block_entries_stored [OF ps(1) assms(2)]] by blast
  ultimately show ?thesis by (rule that)
qed

lemma block_top_holds:
  assumes "blocks_hold blocks bs"
  shows "block_top blocks = (if bs = [] then None else Some (of_nat (length bs - 1)))"
proof -
  have "length bs < 2 ^ 32" "record_count (block_index blocks) = of_nat (length bs)"
    using assms by (auto simp: blocks_hold_def index_holds_def)
  moreover have "(of_nat (length bs) :: u32) - 1 = of_nat (length bs - 1)" if "bs \<noteq> []"
    using that by (simp add: of_nat_diff Suc_leI)
  moreover have "(of_nat (length bs) :: u32) \<noteq> 0" if "bs \<noteq> []"
    using that \<open>length bs < 2 ^ 32\<close> unat_of_nat_u32 [of "length bs"] by auto
  ultimately show ?thesis by (simp add: block_top_def)
qed

lemma block_remove_holds:
  assumes "blocks_hold blocks (bs @ [b])"
  obtains blocks' where "block_remove (header_hash (block_header b)) (block_unlink (of_nat (length bs)) blocks) = Returns blocks'"
    "blocks_hold blocks' bs"
proof -
  let ?hash = "header_hash (block_header b)"
  obtain ps' where ps': "length ps' = length bs + 1" "index_holds (block_index blocks) ps'"
    "stores (block_map blocks) (stack_of (block_entries ps' (bs @ [b])))" "table_key_size (block_map blocks) = 32"
    using assms by (auto simp: blocks_hold_def)
  obtain ps p where ps: "ps' = ps @ [p]" "length ps = length bs" using ps'(1) by (cases ps' rule: rev_cases) auto
  let ?old = "stack_of (block_entries ps bs)" and ?new = "stack_of (block_entries ps' (bs @ [b]))"
  have new: "?new = ?old(?hash := (p, block_value (of_nat (length bs)) b) # ?old ?hash)"
    by (simp add: ps block_entries_append stack_of_snoc)
  obtain t' where t': "slab_unlink ?hash (block_map blocks) = Returns (True, t')" "stores t' (?new(?hash := tl (?new ?hash)))"
    "table_key_size t' = 32"
    using slab.unlink [OF ps'(3), of ?hash] new ps'(4) by auto
  have old: "?new(?hash := tl (?new ?hash)) = ?old" by (simp add: new)
  have "length bs + 1 < 2 ^ 32" "record_count (block_index blocks) = of_nat (length bs + 1)"
    using ps'(1,2) by (simp_all add: index_holds_def)
  then have "(of_nat (length bs) :: u64) < ucast (record_count (block_index blocks))"
    by (simp del: of_nat_Suc of_nat_add add: word_less_nat_alt unat_of_nat)
  then have "block_unlink (of_nat (length bs)) blocks = blocks\<lparr>block_index := set_count (of_nat (length bs)) (block_index blocks)\<rparr>"
    by (simp add: block_unlink_def)
  then have "block_remove ?hash (block_unlink (of_nat (length bs)) blocks) =
      Returns (blocks\<lparr>block_index := set_count (of_nat (length bs)) (block_index blocks), block_map := t'\<rparr>)"
    using t'(1) by (simp add: block_remove_def slab_remove_def)
  then show ?thesis
    using index_holds_count [of "block_index blocks" ps p] ps'(2) ps t'(2,3) unfolding old
    by (intro that) (auto simp: blocks_hold_def)
qed

lemma block_sync_holds: "blocks_hold blocks bs \<Longrightarrow> blocks_hold (block_sync blocks) bs"
  by (auto simp: blocks_hold_def block_sync_def index_holds_sync slab_table_sync_stores)
    (simp add: slab_table_sync_def)

section \<open>The rows of a block have the sizes of the tables\<close>

lemma from_public_length: "length (address_hash (from_public lib point version)) = 20"
  by (simp add: from_public_def null_address_def hash_address_def bitcoin_short_hash_def split: option.split)

lemma extract_length:
  assumes "extract_address lib ops p2kh p2sh = Returns a"
  shows "length (address_hash a) = 20"
  using assms
  by (cases "pattern ops")
    (auto simp: extract_address_def to_array_def key_address_def from_public_length null_address_def hash_address_def
      from_script_def bitcoin_short_hash_def Let_def bind_eq_Some_conv split: if_split_asm prod.split_asm)

lemma address_of_length [simp]: "length (address_hash (address_of settings ops)) = 20"
  using extract_length [OF script_address_of] .

lemma length_address_key [simp]: "length (address_key a) = 20"
  by (simp add: address_key_def)

text \<open>What the row of an output holds of its attachment fits the record.\<close>

definition attachment_fits :: "attachment \<Rightarrow> bool" where
  "attachment_fits attach \<longleftrightarrow>
     length (case attach_payload attach of
        Attach_etp e \<Rightarrow> etp_to_data e
      | Attach_etp_award a \<Rightarrow> etp_award_to_data a
      | Attach_asset a \<Rightarrow>
          (case asset_payload a of Asset_detail d \<Rightarrow> asset_detail_to_data d | Asset_transfer t \<Rightarrow> asset_transfer_to_data t)
      | Attach_message m \<Rightarrow> message_to_data m) \<le> 32 + asset_detail_fix_size"

lemma length_rows:
  assumes "length (point_hash p) = 32"
  shows "length (point_to_data p) = 36" "length (output_row p h v) = 49" "length (input_row p h q) = 49"
    "length (asset_input_row p h q t) = 55"
    "attachment_fits a \<Longrightarrow> length (attachment_row p h v t a) \<le> 32 + 55 + asset_detail_fix_size"
  using assms
  by (auto simp: point_to_data_def output_row_def input_row_def asset_input_row_def asset_output_row_def
      attachment_row_def attachment_fits_def size_simps split: attachment_data.split asset_data.split)

lemma rows_sized_append: "rows_sized (append_rows a b) \<longleftrightarrow> rows_sized a \<and> rows_sized b"
  by (auto simp: rows_sized_def append_rows_def)

lemma rows_sized_concat: "(\<And>x. x \<in> set xs \<Longrightarrow> rows_sized (f x)) \<Longrightarrow> rows_sized (concat_rows (map f xs))"
  by (induction xs) (simp_all add: rows_sized_append, simp_all add: rows_sized_def no_rows_def)

lemma input_rows_sized:
  "length (point_hash (input_previous_output (snd x))) = 32 \<Longrightarrow> length tx_hash = 32 \<Longrightarrow>
    rows_sized (input_rows settings t height tx_hash x)"
  unfolding rows_sized_def input_rows_def split_def Let_def db_rows.simps by (auto simp: length_rows point_key_def)

lemma issue_key:
  "\<forall>(key, v) \<in> set (if c then (case a of Some d \<Rightarrow> [(sha256_hash (detail_symbol d), f d)] | None \<Rightarrow> []) else []).
     length key = 32"
  by (cases c; cases a) simp_all

lemma output_rows_sized:
  assumes "attachment_fits (output_attach_data (snd x))" "length tx_hash = 32"
  shows "rows_sized (output_rows settings t height tx_hash x)"
proof -
  let ?rows = "output_rows settings t height tx_hash x"
  let ?row = "attachment_row \<lparr>point_hash = tx_hash, point_index = of_nat (fst x)\<rparr> (ucast height) (output_value (snd x)) t
    (output_attach_data (snd x))"
  have "length ?row \<le> 32 + 55 + asset_detail_fix_size" using assms by (intro length_rows(5)) simp_all
  then have "\<forall>(key, v) \<in> set (rows_address ?rows). length key = 20 \<and> length v \<le> 32 + 55 + asset_detail_fix_size"
    by (simp add: output_rows_def split_def Let_def)
  moreover have "\<forall>(key, v) \<in> set (rows_history ?rows). length key = 20 \<and> length v = 49"
    using assms(2) by (auto simp: output_rows_def split_def Let_def length_rows)
  moreover have "\<forall>(key, v) \<in> set (rows_assets ?rows). length key = 32"
    unfolding output_rows_def case_prod_beta Let_def db_rows.simps by (rule issue_key [unfolded case_prod_beta])
  moreover have "rows_spends ?rows = []" "rows_transactions ?rows = []" by (simp_all add: output_rows_def split_def Let_def)
  ultimately show ?thesis by (simp add: rows_sized_def)
qed

lemma transaction_rows_sized:
  assumes "wf_transaction tx" "list_all (\<lambda>out. attachment_fits (output_attach_data out)) (tx_outputs tx)"
  shows "rows_sized (transaction_rows settings t height (index, tx))"
proof -
  let ?hash = "transaction_hash tx"
  have "length (point_hash (input_previous_output (snd x))) = 32" if "x \<in> set (enumerate 0 (tx_inputs tx))" for x
    using assms(1) that by (auto simp: in_set_enumerate_eq wf_transaction_def list_all_length wf_input_def wf_point_def)
  moreover have "attachment_fits (output_attach_data (snd x))" if "x \<in> set (enumerate 0 (tx_outputs tx))" for x
    using assms(2) that by (auto simp: in_set_enumerate_eq list_all_length)
  moreover have "rows_sized (no_rows\<lparr>rows_transactions := [(?hash, v)]\<rparr>)" "rows_sized no_rows" for v
    by (simp_all add: rows_sized_def no_rows_def)
  ultimately show ?thesis
    by (simp add: transaction_rows_def Let_def rows_sized_append rows_sized_concat input_rows_sized output_rows_sized)
qed

section \<open>The chain that a database represents\<close>

definition chain_rows :: "db_settings \<Rightarrow> block list \<Rightarrow> db_rows" where
  "chain_rows settings bs = concat_rows (map (\<lambda>(h, b). block_rows settings (of_nat h) b) (enumerate 0 bs))"

lemma chain_rows_snoc:
  "chain_rows settings (bs @ [b]) = append_rows (chain_rows settings bs) (block_rows settings (of_nat (length bs)) b)"
  by (simp add: chain_rows_def enumerate_append_eq append_rows_def no_rows_def)

text \<open>
  The blocks that the database can give back: well-formed, with the sizes they report, without two
  transactions of the same hash, and not one of the two whose first transaction is skipped.
\<close>

definition storable :: "nat \<Rightarrow> block \<Rightarrow> bool" where
  "storable height b \<longleftrightarrow>
     wf_header (block_header b) \<and> list_all wf_transaction (block_transactions b) \<and>
     list_all transaction_sized (block_transactions b) \<and>
     list_all (\<lambda>tx. list_all (\<lambda>out. attachment_fits (output_attach_data out)) (tx_outputs tx)) (block_transactions b) \<and>
     distinct (map transaction_hash (block_transactions b)) \<and> length (block_transactions b) < 2 ^ 32 \<and>
     \<not> is_allowed_duplicate (block_header b) (of_nat height)"

definition represents :: "db_settings \<Rightarrow> data_base \<Rightarrow> block list \<Rightarrow> bool" where
  "represents settings db bs \<longleftrightarrow>
     tables_hold (chain_rows settings bs) db \<and> tables_shaped db \<and> blocks_hold (db_blocks db) bs \<and>
     (\<forall>h < length bs. storable h (bs ! h))"

text \<open>The files can grow by a block: positions stay below \<open>2 ^ 64\<close> and record numbers below \<open>2 ^ 32\<close>.\<close>

definition block_fits :: "db_settings \<Rightarrow> block \<Rightarrow> data_base \<Rightarrow> bool" where
  "block_fits settings b db \<longleftrightarrow>
     tables_room (block_rows settings (get_next_height (db_blocks db)) b) db \<and> block_room b (db_blocks db)"

lemma block_rows_sized: "storable height b \<Longrightarrow> rows_sized (block_rows settings h b)"
  unfolding block_rows_def
  by (rule rows_sized_concat)
    (auto simp: storable_def list_all_length in_set_enumerate_eq intro!: transaction_rows_sized)

lemma get_next_height_holds: "blocks_hold blocks bs \<Longrightarrow> get_next_height blocks = of_nat (length bs)"
  by (simp add: get_next_height_def block_top_holds of_nat_diff Suc_leI)

lemma sync_holds:
  "slab_holds t rows \<Longrightarrow> slab_holds (slab_table_sync t) rows" "record_holds r rows \<Longrightarrow> record_holds (record_table_sync r) rows"
  unfolding slab_holds_def record_holds_def using slab_table_sync_stores by (blast, simp add: record_table_sync_stores)

lemma sync_shapes [simp]:
  "table_key_size (slab_table_sync t) = table_key_size t" "map_key_size (record_table_sync r) = map_key_size r"
  "value_size_of (record_table_sync r) = value_size_of r" "multimap_map (multimap_sync m) = record_table_sync (multimap_map m)"
  "multimap_records (multimap_sync m) = record_sync (multimap_records m)"
  by (simp_all add: slab_table_sync_def record_table_sync_def multimap_sync_def record_value_begin_def)

lemma synchronize_holds:
  assumes "tables_hold rows db" "tables_shaped db"
  shows "tables_hold rows (synchronize db)" "tables_shaped (synchronize db)"
  using assms by (simp_all add: tables_hold_def tables_shaped_def synchronize_def sync_holds multimap_sync_holds)

lemma push_represents:
  assumes rep: "represents settings db bs" and b: "storable (length bs) b" and room: "block_fits settings b db"
  obtains db' where "db_push settings b db = Returns db'" "represents settings db' (bs @ [b])"
proof -
  let ?h = "of_nat (length bs) :: u64"
  have hold: "tables_hold (chain_rows settings bs) db" "tables_shaped db" "blocks_hold (db_blocks db) bs"
    "\<forall>h < length bs. storable h (bs ! h)"
    using rep by (simp_all add: represents_def)
  have h: "get_next_height (db_blocks db) = ?h" using get_next_height_holds [OF hold(3)] .
  have r: "tables_room (block_rows settings ?h b) db" "block_room b (db_blocks db)"
    using room by (simp_all add: block_fits_def h)
  have sized: "rows_sized (block_rows settings ?h b)" by (rule block_rows_sized [OF b])
  obtain db1 where db1: "run_rows pushes (block_rows settings ?h b) db = Returns db1"
    "tables_hold (chain_rows settings (bs @ [b])) db1" "tables_shaped db1" "db_blocks db1 = db_blocks db"
    unfolding chain_rows_snoc by (rule push_rows_hold [OF hold(1,2) sized r(1)])
  have "\<not> is_allowed_duplicate (block_header b) ?h" "\<forall>(index, tx) \<in> set (enumerate 0 (block_transactions b)). transaction_sized tx"
    using b by (auto simp: storable_def in_set_enumerate_eq list_all_length)
  from push_transactions_rows [OF this, of settings db] db1(1)
  obtain s t where run: "for_each (push_transaction settings (block_header b) ?h) (enumerate 0 (block_transactions b)) db =
      Returns (set_rest s t db1)"
    by (auto simp: block_rows_def)
  let ?db = "set_rest s t db1\<lparr>db_blocks := block_store b ?h (db_blocks db)\<rparr>"
  have "db_push settings b db = Returns (synchronize ?db)"
    using run db1(4) by (simp add: db_push_def push_at_def h)
  moreover have "tables_hold (chain_rows settings (bs @ [b])) ?db" "tables_shaped ?db"
    using db1(2,3) by (simp_all add: tables_hold_def tables_shaped_def)
  moreover have "blocks_hold (block_store b ?h (db_blocks db)) (bs @ [b])"
    using block_store_holds [OF hold(3) _ r(2)] b by (simp add: storable_def)
  moreover have "\<forall>h < length (bs @ [b]). storable h ((bs @ [b]) ! h)"
    using hold(4) b by (auto simp: nth_append less_Suc_eq)
  ultimately show ?thesis
    using synchronize_holds [of _ ?db] by (intro that) (auto simp: represents_def synchronize_def intro: block_sync_holds)
qed

section \<open>Reading rows\<close>

lemma slab_holds_find:
  assumes "slab_holds t rows"
  shows "case stack_of rows key of [] \<Rightarrow> slab_find t key = Returns None
    | v # _ \<Rightarrow> \<exists>d rest. slab_find t key = Returns (Some d) \<and> bytes_at t d = v @ rest"
proof -
  obtain content where content: "stores t content" "\<forall>key. map snd (content key) = stack_of rows key"
    using assms by (auto simp: slab_holds_def)
  show ?thesis
  proof (cases "content key")
    case Nil
    then have "stack_of rows key = []" using content(2) by (metis list.simps(8))
    then show ?thesis using slab.find [OF content(1), of key] Nil by simp
  next
    case (Cons e es)
    then have "stack_of rows key = snd e # map snd es" using content(2) by (metis list.simps(9))
    moreover obtain rest where "bytes_at t (fst e) = snd e @ rest"
      using stores_bytes [OF content(1), of "fst e" "snd e" key] Cons by auto
    ultimately show ?thesis using slab.find [OF content(1), of key] Cons by (auto simp: split_def)
  qed
qed

lemma from_write_4_bytes [simp]: "from_little_endian (write_4_bytes_little_endian n) = n"
  using from_to_little_endian(2) [of n]
  by (simp add: write_4_bytes_little_endian_def write_little_endian_def to_little_endian_def)

lemma stored_transaction_read_back:
  assumes "bytes_at t d = transaction_value height i tx @ rest" "wf_transaction tx"
  shows "transaction_result_transaction t d = tx" "transaction_result_height t d = ucast height"
    "transaction_result_index t d = of_nat i"
proof -
  have 8: "drop 8 (transaction_value height i tx @ rest) = transaction_to_data tx @ rest"
    by (simp add: transaction_value_def size_simps)
  show "transaction_result_transaction t d = tx"
    using transaction_wire.get_put [OF assms(2), of rest 0] by (simp add: transaction_result_transaction_def assms(1) 8 del: drop_append)
  show "transaction_result_height t d = ucast height" "transaction_result_index t d = of_nat i"
    by (simp_all add: transaction_result_height_def transaction_result_index_def assms(1) transaction_value_def
        size_simps)
qed

lemma header_get_put_bare:
  "wf_header h \<Longrightarrow> run_state (header_from_data False) (ready (header_to_data False h @ rest) j) =
     ((True, h\<lparr>hdr_transaction_count := 0\<rparr>), ready rest j)"
  by (simp add: header_from_data_def header_to_data_def wf_header_def codec_simps size_simps)

lemma take_concat_nth:
  "\<forall>x \<in> set xs. length x = n \<Longrightarrow> i < length xs \<Longrightarrow> take n (drop (i * n) (concat xs @ rest)) = xs ! i"
proof (induction xs arbitrary: i)
  case (Cons x xs)
  then show ?case by (cases i) auto
qed simp

lemma stored_block_read_back:
  assumes "bytes_at t d = block_value height b @ rest" "wf_header (block_header b)"
  shows "block_result_header t d = (block_header b)\<lparr>hdr_transaction_count := 0\<rparr>"
    "block_result_height t d = height" "block_result_transaction_count t d = of_nat (length (block_transactions b))"
    "i < length (block_transactions b) \<Longrightarrow> block_result_transaction_hash t d i = transaction_hash (block_transactions b ! i)"
proof -
  let ?txs = "block_transactions b"
  have size: "length (header_to_data False (block_header b)) = 148" by (rule length_header_to_data [OF assms(2)])
  show "block_result_header t d = (block_header b)\<lparr>hdr_transaction_count := 0\<rparr>"
    by (simp add: block_result_header_def assms(1) block_value_def header_get_put_bare [OF assms(2)])
  show "block_result_height t d = height" "block_result_transaction_count t d = of_nat (length ?txs)"
    using size by (simp_all add: block_result_height_def block_result_transaction_count_def assms(1) block_value_def size_simps)
  assume i: "i < length ?txs"
  have "drop (148 + 4 + 4) (block_value height b @ rest) = concat (map transaction_hash ?txs) @ rest"
    using size by (simp add: block_value_def size_simps)
  then have "drop (148 + 4 + 4 + i * 32) (block_value height b @ rest) = drop (i * 32) (concat (map transaction_hash ?txs) @ rest)"
    by (metis add.commute drop_drop)
  moreover have "take 32 (drop (i * 32) (concat (map transaction_hash ?txs) @ rest)) = map transaction_hash ?txs ! i"
    using i by (intro take_concat_nth) auto
  ultimately show "block_result_transaction_hash t d i = transaction_hash (?txs ! i)"
    using i by (simp add: block_result_transaction_hash_def assms(1) del: drop_append)
qed

lemma rows_transactions_concat: "rows_transactions (concat_rows rs) = concat (map rows_transactions rs)"
  by (induction rs) (simp_all add: no_rows_def append_rows_def)

lemma block_rows_transactions:
  "rows_transactions (block_rows settings height b) =
     map (\<lambda>(i, tx). (transaction_hash tx, transaction_value height i tx)) (enumerate 0 (block_transactions b))"
proof -
  have none: "rows_transactions (input_rows settings t height hash x) = []"
    "rows_transactions (output_rows settings t height hash y) = []" for t hash x y
    by (simp_all add: input_rows_def output_rows_def split_def Let_def)
  have "rows_transactions (transaction_rows settings t height x) = [(\<lambda>(i, tx). (transaction_hash tx, transaction_value height i tx)) x]"
    for t x
    by (simp add: transaction_rows_def Let_def split_def append_rows_def rows_transactions_concat comp_def none)
  then show ?thesis by (simp add: block_rows_def rows_transactions_concat comp_def concat_map_singleton)
qed

lemma stack_of_append: "stack_of (rows @ new) key = stack_of new key @ stack_of rows key"
  by (simp add: stack_of_def)

lemma stack_of_distinct:
  assumes "distinct (map fst new)" "(key, v) \<in> set new"
  shows "stack_of new key = [v]"
  using assms
proof (induction new)
  case (Cons r new)
  have "stack_of (r # new) key = stack_of new key @ (if fst r = key then [snd r] else [])" by (simp add: stack_of_def)
  moreover have "stack_of new key = []" if "key \<notin> fst ` set new"
    using that by (auto simp: stack_of_def filter_empty_conv)
  ultimately show ?case using Cons by (force simp: image_iff)
qed simp

lemma for_each_collect:
  assumes "\<And>i acc. i < length xs \<Longrightarrow> body i acc = Returns (acc @ [xs ! i])" "n \<le> length xs"
  shows "for_each body [0..<n] [] = Returns (take n xs)"
  using assms(2)
proof (induction n)
  case (Suc n)
  then show ?case using assms(1) [of n] by (simp add: for_each_append take_Suc_conv_app_nth)
qed simp

lemma read_transactions_holds:
  assumes "represents settings db (bs @ [b])"
    "bytes_at (block_map (db_blocks db)) d = block_value h b @ rest"
  shows "read_transactions db d = Returns (block_transactions b)"
proof -
  let ?txs = "block_transactions b" and ?new = "rows_transactions (block_rows settings (of_nat (length bs)) b)"
  have b: "storable (length bs) b" using assms(1) by (force simp: represents_def)
  then have wf: "wf_header (block_header b)" "list_all wf_transaction ?txs" "length ?txs < 2 ^ 32" by (simp_all add: storable_def)
  have holds: "slab_holds (db_transactions db) (rows_transactions (chain_rows settings bs) @ ?new)"
    using assms(1) by (simp add: represents_def tables_hold_def chain_rows_snoc append_rows_def)
  have "map fst ?new = map transaction_hash (map snd (enumerate 0 ?txs))"
    by (simp add: block_rows_transactions comp_def split_def del: map_snd_enumerate)
  then have dist: "distinct (map fst ?new)" using b by (simp add: storable_def)
  have body: "(do { tx_result \<leftarrow> transaction_get (db_transactions db) (block_result_transaction_hash (block_map (db_blocks db)) d i);
      (case tx_result of None \<Rightarrow> Abnormal
       | Some slab \<Rightarrow> Returns (acc @ [transaction_result_transaction (db_transactions db) slab])) }) =
      Returns (acc @ [?txs ! i])" if i: "i < length ?txs" for i acc
  proof -
    have "(transaction_hash (?txs ! i), transaction_value (of_nat (length bs)) i (?txs ! i)) \<in> set ?new"
      using i by (force simp: block_rows_transactions in_set_enumerate_eq)
    then have "stack_of (rows_transactions (chain_rows settings bs) @ ?new) (transaction_hash (?txs ! i)) =
        transaction_value (of_nat (length bs)) i (?txs ! i) # stack_of (rows_transactions (chain_rows settings bs)) (transaction_hash (?txs ! i))"
      using stack_of_distinct [OF dist] by (simp add: stack_of_append)
    then obtain slab more where "slab_find (db_transactions db) (transaction_hash (?txs ! i)) = Returns (Some slab)"
      "bytes_at (db_transactions db) slab = transaction_value (of_nat (length bs)) i (?txs ! i) @ more"
      using slab_holds_find [OF holds, of "transaction_hash (?txs ! i)"] by auto
    then show ?thesis
      using stored_transaction_read_back(1) wf(2) i
      by (simp add: transaction_get_def stored_block_read_back(4) [OF assms(2) wf(1)] list_all_length)
  qed
  have "unat (block_result_transaction_count (block_map (db_blocks db)) d) = length ?txs"
    using stored_block_read_back(3) [OF assms(2) wf(1)] wf(3) by (simp add: unat_of_nat_u32)
  then show ?thesis
    using for_each_collect [OF body order_refl] by (simp add: read_transactions_def Let_def)
qed

section \<open>Popping a block\<close>

text \<open>What \<open>pop\<close> gives back of a block: the header is read without its transaction count.\<close>

definition popped :: "block \<Rightarrow> block" where
  "popped b = b\<lparr>block_header := (block_header b)\<lparr>hdr_transaction_count := 0\<rparr>\<rparr>"

lemma header_hash_count [simp]: "header_hash (h\<lparr>hdr_transaction_count := n\<rparr>) = header_hash h"
  by (simp add: header_hash_def header_to_data_def)

lemma pop_represents:
  assumes "represents settings db (bs @ [b])"
  obtains db' where "db_pop settings db = Returns (popped b, db')" "represents settings db' bs"
proof -
  let ?h = "of_nat (length bs) :: u64"
  have hold: "tables_hold (append_rows (chain_rows settings bs) (block_rows settings ?h b)) db" "tables_shaped db"
    "blocks_hold (db_blocks db) (bs @ [b])" "\<forall>h < length (bs @ [b]). storable h ((bs @ [b]) ! h)"
    using assms by (simp_all add: represents_def chain_rows_snoc)
  have b: "wf_header (block_header b)" "list_all wf_transaction (block_transactions b)"
    using hold(4) by (force simp: storable_def)+
  obtain d rest where d: "block_get_height (db_blocks db) ?h = Some d"
    "bytes_at (block_map (db_blocks db)) d = block_value (of_nat (length bs)) b @ rest"
    by (rule block_at_height [OF hold(3), of "length bs"]) simp_all
  obtain db1 where db1: "run_rows pops (block_rows settings ?h b) db = Returns db1" "tables_hold (chain_rows settings bs) db1"
    "tables_shaped db1" "db_blocks db1 = db_blocks db"
    by (rule pop_rows_hold [OF hold(1,2)])
  obtain blocks where blocks: "block_remove (header_hash (block_header b)) (block_unlink ?h (db_blocks db)) = Returns blocks"
    "blocks_hold blocks bs"
    by (rule block_remove_holds [OF hold(3)])
  have "db_pop settings db = Returns (popped b, synchronize (db1\<lparr>db_blocks := blocks\<rparr>))"
    using block_top_holds [OF hold(3)] read_transactions_holds [OF assms d(2)] stored_block_read_back(1) [OF d(2) b(1)] d(1)
      pop_transactions_rows [OF b(2), of settings ?h db "hdr_timestamp (block_header b)"] db1(1,4) blocks(1)
    by (simp add: db_pop_def Let_def block_rows_def popped_def)
  moreover have "tables_hold (chain_rows settings bs) (db1\<lparr>db_blocks := blocks\<rparr>)" "tables_shaped (db1\<lparr>db_blocks := blocks\<rparr>)"
    using db1(2,3) by (simp_all add: tables_hold_def tables_shaped_def)
  moreover have "\<forall>h < length bs. storable h (bs ! h)" using hold(4) by (auto simp: nth_append split: if_split_asm)
  ultimately show ?thesis
    using synchronize_holds [of "chain_rows settings bs" "db1\<lparr>db_blocks := blocks\<rparr>"] blocks(2)
    by (intro that) (auto simp: represents_def synchronize_def intro: block_sync_holds)
qed

end
