(* ===== verification/Block_Chain.thy ===== *)
theory Block_Chain
  imports Chain_Database Chain_Interface
begin

text \<open>
  The database as the program opens it, and the part of \<open>block_chain_impl.cpp\<close> that the organizer
  and the validation use: the queries, \<open>push\<close> and \<open>pop_from\<close>. Every query is shown to answer from
  the chain of blocks that the database represents.
\<close>

section \<open>Creating and clearing the database\<close>

text \<open>
  The hash table of records of \<open>spend_database\<close>, the index of \<open>block_database\<close> and the rows of
  \<open>stealth_database\<close>. The files have any content before; \<open>None\<close> when a step refuses.
\<close>

definition record_table_create :: "nat \<Rightarrow> (bytes \<Rightarrow> nat) \<Rightarrow> nat \<Rightarrow> nat \<Rightarrow> memory \<Rightarrow> record_hash_table option" where
  "record_table_create key_size hash buckets row_size m =
     (case (header_create record_empty buckets, record_create (record_manager_init m row_size)) of
        (Some header, True, manager) \<Rightarrow>
          Some \<lparr>map_key_size = key_size, map_hash = hash, map_header = header, map_manager = read_count manager\<rparr>
      | _ \<Rightarrow> None)"

definition records_create :: "nat \<Rightarrow> memory \<Rightarrow> record_manager option" where
  "records_create row_size m =
     (case record_create (record_manager_init m row_size) of (ok, manager) \<Rightarrow> if ok then Some (read_count manager) else None)"

definition blockchain_create :: "(bytes \<Rightarrow> nat) \<Rightarrow> (string \<Rightarrow> memory) \<Rightarrow> data_base option" where
  "blockchain_create hash files = do {
     lookup \<leftarrow> slab_table_create 32 hash 600000 (files ''block_table'');
     index \<leftarrow> records_create 8 (files ''block_index'');
     history \<leftarrow> multimap_create 20 hash 97210744 (32 + 4 + 49) (files ''history_table'') (files ''history_rows'');
     spends \<leftarrow> record_table_create 36 hash 228110589 (36 + 4 + 36) (files ''spend_table'');
     stealth \<leftarrow> records_create (4 + 4 + 32 + 20 + 32) (files ''stealth_rows'');
     transactions \<leftarrow> slab_table_create 32 hash 100000000 (files ''transaction_table'');
     assets \<leftarrow> slab_table_create 32 hash 9997 (files ''asset_table'');
     address_assets \<leftarrow> multimap_create 20 hash 97210744 (32 + 4 + (55 + asset_detail_fix_size))
       (files ''address_asset_table'') (files ''address_asset_row'');
     Some \<lparr>db_blocks = \<lparr>block_map = lookup, block_index = index\<rparr>, db_history = history, db_spends = spends,
       db_stealth = stealth, db_transactions = transactions, db_assets = assets, db_address_assets = address_assets,
       db_timestamp = 0\<rparr> }"

text \<open>\<open>clear_block_db\<close> pops blocks until there is none.\<close>

partial_function (option) clear_block_db :: "db_settings \<Rightarrow> data_base \<Rightarrow> data_base outcome" where
  "clear_block_db settings db =
     (case block_top (db_blocks db) of
        None \<Rightarrow> Returns db
      | Some current_height \<Rightarrow> do { (b, db) \<leftarrow> db_pop settings db; clear_block_db settings db })"

section \<open>The queries\<close>

text \<open>A reference that an operation fills and that it returns \<open>true\<close> is \<open>Some\<close>, \<open>false\<close> is \<open>None\<close>.\<close>

definition get_header :: "data_base \<Rightarrow> u64 \<Rightarrow> header option" where
  "get_header db height =
     map_option (block_result_header (block_map (db_blocks db))) (block_get_height (db_blocks db) height)"

definition get_height :: "data_base \<Rightarrow> hash_digest \<Rightarrow> u64 option outcome" where
  "get_height db block_hash = do {
     result \<leftarrow> block_get_hash (db_blocks db) block_hash;
     Returns (map_option (\<lambda>r. ucast (block_result_height (block_map (db_blocks db)) r)) result) }"

definition get_last_height :: "data_base \<Rightarrow> u64 option" where
  "get_last_height db = block_top (db_blocks db)"

definition get_outpoint_transaction :: "data_base \<Rightarrow> point \<Rightarrow> hash_digest option outcome" where
  "get_outpoint_transaction db outpoint = do {
     spend \<leftarrow> spend_get (db_spends db) outpoint;
     Returns (map_option point_hash spend) }"

definition get_transaction :: "data_base \<Rightarrow> hash_digest \<Rightarrow> (transaction \<times> u64) option outcome" where
  "get_transaction db tx_hash = do {
     result \<leftarrow> transaction_get (db_transactions db) tx_hash;
     Returns (map_option (\<lambda>r. (transaction_result_transaction (db_transactions db) r,
       ucast (transaction_result_height (db_transactions db) r))) result) }"

definition get_asset_height :: "data_base \<Rightarrow> bytes \<Rightarrow> u64 option outcome" where
  "get_asset_height db asset_name = do {
     asset \<leftarrow> asset_get (db_assets db) (sha256_hash asset_name);
     Returns (map_option ba_height asset) }"

text \<open>Without the assets of the local accounts.\<close>

definition is_asset_exist :: "data_base \<Rightarrow> bytes \<Rightarrow> bool outcome" where
  "is_asset_exist db asset_name = do {
     asset \<leftarrow> asset_get (db_assets db) (sha256_hash asset_name);
     Returns (asset \<noteq> None) }"

section \<open>Pushing and popping\<close>

text \<open>
  The loop of \<open>pop_from\<close> runs while the index is not below the height: for the height 0 it does not
  stop before \<open>pop\<close> fails on the empty chain.
\<close>

partial_function (option) pop_loop :: "db_settings \<Rightarrow> u64 \<Rightarrow> u64 \<Rightarrow> block list \<Rightarrow> data_base \<Rightarrow> (block list \<times> data_base) outcome" where
  "pop_loop settings height index out_blocks db =
     (if height \<le> index then do {
        (b, db) \<leftarrow> db_pop settings db;
        pop_loop settings height (index - 1) (out_blocks @ [b]) db }
      else Returns (out_blocks, db))"

definition pop_from :: "db_settings \<Rightarrow> u64 \<Rightarrow> data_base \<Rightarrow> (block list option \<times> data_base) outcome" where
  "pop_from settings height db =
     (case block_top (db_blocks db) of
        None \<Rightarrow> Returns (None, db)
      | Some current \<Rightarrow>
          if height = current + 1 then Returns (Some [], db)
          else if current < height then Returns (None, db)
          else do {
            (out_blocks, db) \<leftarrow> pop_loop settings height current [] db;
            Returns (Some out_blocks, db) })"

section \<open>A new database represents the empty chain\<close>

lemma record_table_created:
  assumes "0 < buckets" "row_size = key_size + 4 + n"
  obtains t where "record_table_create key_size hash buckets row_size m = Some t" "map_key_size t = key_size"
    "value_size_of t = n" "record_count (map_manager t) = 0" "record_stores t (\<lambda>_. [])"
proof -
  let ?t = "\<lparr>map_key_size = key_size, map_hash = hash, map_header = replicate buckets record_empty,
    map_manager = \<lparr>record_file = write_at m 0 (to_little_endian (0 :: u32)), record_count = 0, record_size = row_size\<rparr>\<rparr>"
  have "record_table_create key_size hash buckets row_size m = Some ?t"
    using assms(1) by (simp add: record_table_create_def header_create_def record_create_def record_manager_init_def
        write_count_def read_count_def read_write_same)
  moreover have "records_laid_out ?t 0" using assms(2) by (simp add: records_laid_out_def record_value_begin_def)
  moreover have "buckets_hold \<lparr>next_row = next_index ?t, key_of = record_key ?t,
       value_of = (\<lambda>i. (record_data ?t i, record_value ?t i)), is_row = record_below 0\<rparr>
       record_empty (map_bucket_index ?t) (map_header ?t) (\<lambda>_. [])"
  proof -
    have "map_header ?t = replicate buckets record_empty" "\<And>key. map_bucket_index ?t key < buckets"
      using assms(1) by (simp_all add: map_bucket_index_def remainder_def)
    then show ?thesis by (simp only:) (rule buckets_hold_empty [OF assms(1)])
  qed
  moreover from calculation(2,3) have "record_stores ?t (\<lambda>_. [])" unfolding record_stores_def by blast
  ultimately show ?thesis using assms(2) by (intro that [of ?t]) (simp_all add: record_value_begin_def)
qed

lemma stack_of_none: "stack_of [] = (\<lambda>_. [])"
  by (simp add: stack_of_def fun_eq_iff)

lemma created_represents:
  obtains db where "blockchain_create hash files = Some db" "represents settings db []"
    "record_count (map_manager (db_spends db)) = 0"
    "multimap_room (db_history db) = 2 ^ 32 - 2" "multimap_room (db_address_assets db) = 2 ^ 32 - 2"
    "payload (db_assets db) = 8" "payload (db_transactions db) = 8"
    "payload (block_map (db_blocks db)) = 8" "record_count (block_index (db_blocks db)) = 0"
proof -
  obtain blocks where blocks: "slab_table_create 32 hash 600000 (files ''block_table'') = Some blocks"
    "table_key_size blocks = 32" "payload blocks = 8" "stores blocks (\<lambda>_. [])"
    by (rule slab_table_created [of 600000]) simp
  obtain txs where txs: "slab_table_create 32 hash 100000000 (files ''transaction_table'') = Some txs"
    "table_key_size txs = 32" "payload txs = 8" "stores txs (\<lambda>_. [])"
    by (rule slab_table_created [of 100000000]) simp
  obtain assets where assets: "slab_table_create 32 hash 9997 (files ''asset_table'') = Some assets"
    "table_key_size assets = 32" "payload assets = 8" "stores assets (\<lambda>_. [])"
    by (rule slab_table_created [of 9997]) simp
  obtain spends where spends: "record_table_create 36 hash 228110589 (36 + 4 + 36) (files ''spend_table'') = Some spends"
    "map_key_size spends = 36" "value_size_of spends = 36" "record_count (map_manager spends) = 0" "record_stores spends (\<lambda>_. [])"
    by (rule record_table_created [of 228110589 "36 + 4 + 36" 36 36]) simp_all
  let ?history = "new_multimap 20 hash 97210744 (32 + 4 + 49) (files ''history_table'') (files ''history_rows'')"
    and ?address = "new_multimap 20 hash 97210744 (32 + 4 + (55 + asset_detail_fix_size)) (files ''address_asset_table'') (files ''address_asset_row'')"
  have records: "records_create n m = Some \<lparr>record_file = write_at m 0 (to_little_endian (0 :: u32)), record_count = 0, record_size = n\<rparr>" for n m
    by (simp add: records_create_def record_create_def record_manager_init_def write_count_def read_count_def read_write_same)
  define db where "db = \<lparr>db_blocks = \<lparr>block_map = blocks,
      block_index = \<lparr>record_file = write_at (files ''block_index'') 0 (to_little_endian (0 :: u32)), record_count = 0, record_size = 8\<rparr>\<rparr>,
    db_history = ?history, db_spends = spends,
    db_stealth = \<lparr>record_file = write_at (files ''stealth_rows'') 0 (to_little_endian (0 :: u32)), record_count = 0,
      record_size = 4 + 4 + 32 + 20 + 32\<rparr>,
    db_transactions = txs, db_assets = assets, db_address_assets = ?address, db_timestamp = 0\<rparr>"
  have "blockchain_create hash files = Some db"
    unfolding blockchain_create_def db_def
    by (simp only: blocks(1) txs(1) assets(1) spends(1) records multimap_created [of 97210744] Option.bind.bind_lunit zero_less_numeral)
  moreover have "multimap_holds ?history (\<lambda>_. [])" "multimap_holds ?address (\<lambda>_. [])"
    by (rule new_multimap_holds; simp)+
  moreover have "\<exists>content. stores t content \<and> (\<forall>key. content key = [])" if "stores t (\<lambda>_. [])" for t
    using that by (intro exI [of _ "\<lambda>_. []"]) simp
  moreover have "\<exists>content. record_stores spends content \<and> (\<forall>key. content key = [])"
    using spends(5) by (intro exI [of _ "\<lambda>_. []"]) simp
  ultimately show ?thesis
    using blocks txs assets spends
    by (intro that [of db])
      (simp_all add: represents_def tables_hold_def tables_shaped_def blocks_hold_def chain_rows_def no_rows_def db_def
        stack_of_none record_holds_def slab_holds_def index_holds_def block_entries_def new_multimap_def
        multimap_record_size_def multimap_room_def)
qed

section \<open>What the chain answers\<close>

definition newest :: "('a \<Rightarrow> bool) \<Rightarrow> 'a list \<Rightarrow> 'a option" where
  "newest P xs = (case filter P (rev xs) of [] \<Rightarrow> None | x # _ \<Rightarrow> Some x)"

text \<open>The transactions with the height of their block and their position in it, and the spent points with the spenders.\<close>

definition chain_transactions :: "block list \<Rightarrow> (nat \<times> nat \<times> transaction) list" where
  "chain_transactions bs =
     concat (map (\<lambda>(h, b). map (\<lambda>(i, tx). (h, i, tx)) (enumerate 0 (block_transactions b))) (enumerate 0 bs))"

definition transaction_spends :: "transaction \<Rightarrow> (point \<times> point) list" where
  "transaction_spends tx =
     (if is_coinbase tx then []
      else map (\<lambda>(j, i). (input_previous_output i, \<lparr>point_hash = transaction_hash tx, point_index = of_nat j\<rparr>))
        (enumerate 0 (tx_inputs tx)))"

definition chain_spends :: "block list \<Rightarrow> (point \<times> point) list" where
  "chain_spends bs = concat (map (\<lambda>(h, i, tx). transaction_spends tx) (chain_transactions bs))"

text \<open>The answers of a chain to the queries of the validation.\<close>

definition chain_answers :: "db_settings \<Rightarrow> block list \<Rightarrow> chain_queries" where
  "chain_answers settings bs =
     \<lparr>query_last_height = (if bs = [] then None else Some (of_nat (length bs - 1))),
      query_header = (\<lambda>h. if unat h < length bs then Some ((block_header (bs ! unat h))\<lparr>hdr_transaction_count := 0\<rparr>) else None),
      query_height = (\<lambda>hash. map_option (\<lambda>(h, b). of_nat h)
        (newest (\<lambda>(h, b). header_hash (block_header b) = hash) (enumerate 0 bs))),
      query_transaction = (\<lambda>hash. map_option (\<lambda>(h, i, tx). (tx, of_nat h))
        (newest (\<lambda>(h, i, tx). transaction_hash tx = hash) (chain_transactions bs))),
      query_spend = (\<lambda>p. map_option snd (newest (\<lambda>(previous, spender). previous = p) (chain_spends bs))),
      query_asset = (\<lambda>symbol. sha256_hash symbol \<in> fst ` set (rows_assets (chain_rows settings bs)))\<rparr>"

text \<open>The queries on the database; one that does not return is like one that finds nothing.\<close>

definition found :: "'a option outcome \<Rightarrow> 'a option" where
  "found r = (case r of Returns x \<Rightarrow> x | Abnormal \<Rightarrow> None)"

definition database_queries :: "data_base \<Rightarrow> chain_queries" where
  "database_queries db =
     \<lparr>query_last_height = get_last_height db, query_header = get_header db,
      query_height = (\<lambda>hash. found (get_height db hash)),
      query_transaction = (\<lambda>hash. found (get_transaction db hash)),
      query_spend = (\<lambda>p. found (spend_get (db_spends db) p)),
      query_asset = (\<lambda>symbol. is_asset_exist db symbol = Returns True)\<rparr>"

lemma newest_map: "newest P (map f xs) = map_option f (newest (P \<circ> f) xs)"
  by (simp add: newest_def rev_map filter_map split: list.split)

lemma stack_of_newest: "stack_of rows key = [] \<longleftrightarrow> newest (\<lambda>r. fst r = key) rows = None"
  "stack_of rows key = v # vs \<Longrightarrow> newest (\<lambda>r. fst r = key) rows = Some (key, v)"
proof -
  show "stack_of rows key = [] \<longleftrightarrow> newest (\<lambda>r. fst r = key) rows = None"
    unfolding stack_of_def newest_def by (cases "filter (\<lambda>r. fst r = key) (rev rows)") simp_all
  assume "stack_of rows key = v # vs"
  then obtain r rs where r: "filter (\<lambda>r. fst r = key) (rev rows) = r # rs" "snd r = v" by (auto simp: stack_of_def)
  moreover have "fst r = key" using r(1) by (simp add: filter_eq_Cons_iff) auto
  ultimately show "newest (\<lambda>r. fst r = key) rows = Some (key, v)" by (cases r) (simp add: newest_def)
qed

lemma newest_in:
  assumes "newest P xs = Some x"
  shows "x \<in> set xs \<and> P x"
proof -
  obtain rs where rs: "filter P (rev xs) = x # rs" using assms by (auto simp: newest_def split: list.split_asm)
  have "x \<in> set (filter P (rev xs))" unfolding rs by simp
  then show ?thesis by simp
qed

lemma newest_cong:
  assumes "\<And>x. x \<in> set xs \<Longrightarrow> P x = Q x"
  shows "newest P xs = newest Q xs"
proof -
  have "filter P (rev xs) = filter Q (rev xs)" using assms by (intro filter_cong) simp_all
  then show ?thesis by (simp add: newest_def)
qed

lemma get_last_height_answer: "represents settings db bs \<Longrightarrow>
    get_last_height db = (if bs = [] then None else Some (of_nat (length bs - 1)))"
  by (simp add: get_last_height_def represents_def block_top_holds)

lemma get_header_answer:
  assumes "represents settings db bs"
  shows "get_header db h = (if unat h < length bs then Some ((block_header (bs ! unat h))\<lparr>hdr_transaction_count := 0\<rparr>) else None)"
proof -
  have hold: "blocks_hold (db_blocks db) bs" "\<forall>h < length bs. storable h (bs ! h)"
    using assms by (simp_all add: represents_def)
  show ?thesis
  proof (cases "unat h < length bs")
    case True
    obtain p rest where p: "block_get_height (db_blocks db) (of_nat (unat h)) = Some p"
      "bytes_at (block_map (db_blocks db)) p = block_value (of_nat (unat h)) (bs ! unat h) @ rest"
      by (rule block_at_height [OF hold(1) True])
    have "wf_header (block_header (bs ! unat h))" using hold(2) True by (simp add: storable_def)
    then show ?thesis using True p(1) stored_block_read_back(1) [OF p(2)] by (simp add: get_header_def)
  next
    case False
    have "length bs < 2 ^ 32" "record_count (block_index (db_blocks db)) = of_nat (length bs)"
      using hold(1) by (auto simp: blocks_hold_def index_holds_def)
    then have "ucast (record_count (block_index (db_blocks db))) \<le> h"
      using False by (simp add: word_le_nat_alt unat_of_nat)
    with False show ?thesis by (simp add: get_header_def block_get_height_def)
  qed
qed

lemma get_height_answer:
  assumes "represents settings db bs"
  shows "get_height db hash =
    Returns (map_option (\<lambda>(h, b). of_nat h) (newest (\<lambda>(h, b). header_hash (block_header b) = hash) (enumerate 0 bs)))"
proof -
  let ?t = "block_map (db_blocks db)"
  obtain ps where ps: "length ps = length bs" "stores ?t (stack_of (block_entries ps bs))" "length bs < 2 ^ 32"
    using assms by (auto simp: represents_def blocks_hold_def index_holds_def)
  have same: "newest (\<lambda>(h, b). header_hash (block_header b) = hash) (enumerate 0 bs) =
      map_option (\<lambda>(h, p, b). (h, b)) (newest (\<lambda>(h, p, b). header_hash (block_header b) = hash) (enumerate 0 (zip ps bs)))"
  proof -
    have "enumerate 0 bs = map (\<lambda>(h, p, b). (h, b)) (enumerate 0 (zip ps bs))"
      using ps(1) by (intro nth_equalityI) (simp_all add: nth_enumerate_eq split_def)
    then show ?thesis by (simp add: newest_map comp_def split_def)
  qed
  have entries: "newest (\<lambda>r. fst r = hash) (block_entries ps bs) =
      map_option (\<lambda>(h, p, b). (header_hash (block_header b), p, block_value (of_nat h) b))
        (newest (\<lambda>(h, p, b). header_hash (block_header b) = hash) (enumerate 0 (zip ps bs)))"
    by (simp add: block_entries_def newest_map comp_def split_def)
  show ?thesis
  proof (cases "newest (\<lambda>(h, p, b). header_hash (block_header b) = hash) (enumerate 0 (zip ps bs))")
    case None
    then have "stack_of (block_entries ps bs) hash = []" by (simp add: stack_of_newest entries)
    then show ?thesis using slab.find [OF ps(2), of hash] None
      by (simp add: get_height_def block_get_hash_def same)
  next
    case (Some x)
    obtain h p b where x: "x = (h, p, b)" by (cases x) auto
    from newest_in [OF Some] x have h: "h < length bs" "b = bs ! h" by (auto simp: in_set_enumerate_eq ps(1))
    have "stack_of (block_entries ps bs) hash \<noteq> []" using Some by (simp add: stack_of_newest entries)
    then obtain v vs where v: "stack_of (block_entries ps bs) hash = v # vs" by (cases "stack_of (block_entries ps bs) hash") auto
    with stack_of_newest(2) [OF v] Some x have "v = (p, block_value (of_nat h) b)" by (simp add: entries)
    with v obtain rest where rest: "bytes_at ?t p = block_value (of_nat h) b @ rest"
      using stores_bytes [OF ps(2), of p "block_value (of_nat h) b" hash] by auto
    have "wf_header (block_header b)" using assms h by (simp add: represents_def storable_def)
    then have "block_result_height ?t p = of_nat h" using stored_block_read_back(2) [OF rest] by simp
    then show ?thesis using slab.find [OF ps(2), of hash] v \<open>v = _\<close> Some x h(1) ps(3)
      by (simp add: get_height_def block_get_hash_def same)
  qed
qed

lemma concat_map_concat: "concat (map f (concat xss)) = concat (map (\<lambda>xs. concat (map f xs)) xss)"
  by (induction xss) simp_all

lemma chain_rows_concat:
  "rows_transactions (chain_rows settings bs) =
     map (\<lambda>(h, i, tx). (transaction_hash tx, transaction_value (of_nat h) i tx)) (chain_transactions bs)"
  "rows_spends (chain_rows settings bs) = map (\<lambda>(p, s). (point_key p, point_to_data s)) (chain_spends bs)"
proof -
  show "rows_transactions (chain_rows settings bs) =
      map (\<lambda>(h, i, tx). (transaction_hash tx, transaction_value (of_nat h) i tx)) (chain_transactions bs)"
    by (simp add: chain_rows_def rows_transactions_concat chain_transactions_def map_concat block_rows_transactions
        comp_def split_def)
  have cat: "rows_spends (concat_rows rs) = concat (map rows_spends rs)" for rs
    by (induction rs) (simp_all add: no_rows_def append_rows_def)
  have none: "rows_spends (output_rows settings t h hash y) = []" for t h hash y
    by (simp add: output_rows_def split_def Let_def)
  have one: "rows_spends (input_rows settings t h hash x) =
      [(point_key (input_previous_output (snd x)), point_to_data \<lparr>point_hash = hash, point_index = of_nat (fst x)\<rparr>)]" for t h hash x
    by (simp add: input_rows_def split_def Let_def)
  have "rows_spends (transaction_rows settings t h x) = map (\<lambda>(p, s). (point_key p, point_to_data s)) (transaction_spends (snd x))" for t h x
    by (simp add: transaction_rows_def Let_def split_def append_rows_def cat comp_def none one transaction_spends_def
        no_rows_def concat_map_singleton)
  then have "rows_spends (block_rows settings h b) =
      map (\<lambda>(p, s). (point_key p, point_to_data s)) (concat (map (\<lambda>(i, tx). transaction_spends tx) (enumerate 0 (block_transactions b))))" for h b
    by (simp add: block_rows_def cat comp_def map_concat split_def)
  then show "rows_spends (chain_rows settings bs) = map (\<lambda>(p, s). (point_key p, point_to_data s)) (chain_spends bs)"
    by (simp add: chain_rows_def cat chain_spends_def chain_transactions_def concat_map_concat map_concat comp_def split_def
        del: map_concat) (simp add: map_concat comp_def split_def)
qed

lemma chain_transaction_wf:
  assumes "represents settings db bs" "(h, i, tx) \<in> set (chain_transactions bs)"
  shows "wf_transaction tx" "h < length bs" "i < length (block_transactions (bs ! h))" "tx = block_transactions (bs ! h) ! i"
    "h < 2 ^ 32"
proof -
  have "h < length bs \<and> i < length (block_transactions (bs ! h)) \<and> tx = block_transactions (bs ! h) ! i"
    using assms(2) by (auto simp: chain_transactions_def in_set_enumerate_eq)
  moreover have "length bs < 2 ^ 32" using assms(1) by (auto simp: represents_def blocks_hold_def index_holds_def)
  ultimately show "h < length bs" "i < length (block_transactions (bs ! h))" "tx = block_transactions (bs ! h) ! i" "h < 2 ^ 32"
    by simp_all
  then show "wf_transaction tx" using assms(1) by (simp add: represents_def storable_def list_all_length)
qed

lemma get_transaction_answer:
  assumes "represents settings db bs"
  shows "get_transaction db hash = Returns (map_option (\<lambda>(h, i, tx). (tx, of_nat h))
    (newest (\<lambda>(h, i, tx). transaction_hash tx = hash) (chain_transactions bs)))"
proof -
  let ?rows = "rows_transactions (chain_rows settings bs)"
  have holds: "slab_holds (db_transactions db) ?rows" using assms by (simp add: represents_def tables_hold_def)
  have rows: "newest (\<lambda>r. fst r = hash) ?rows = map_option (\<lambda>(h, i, tx). (transaction_hash tx, transaction_value (of_nat h) i tx))
      (newest (\<lambda>(h, i, tx). transaction_hash tx = hash) (chain_transactions bs))"
    by (simp add: chain_rows_concat newest_map comp_def split_def)
  show ?thesis
  proof (cases "newest (\<lambda>(h, i, tx). transaction_hash tx = hash) (chain_transactions bs)")
    case None
    then have "stack_of ?rows hash = []" by (simp add: stack_of_newest rows)
    then show ?thesis
      using slab_holds_find [OF holds, of hash] None by (simp add: get_transaction_def transaction_get_def)
  next
    case (Some x)
    obtain h i tx where x: "x = (h, i, tx)" by (cases x) auto
    have wf: "wf_transaction tx" "h < 2 ^ 32" using chain_transaction_wf [OF assms] newest_in [OF Some] x by blast+
    obtain v vs where v: "stack_of ?rows hash = v # vs"
      using Some stack_of_newest(1) [of ?rows hash] by (cases "stack_of ?rows hash") (auto simp: rows)
    have "v = transaction_value (of_nat h) i tx" using stack_of_newest(2) [OF v] Some x by (simp add: rows)
    then obtain d rest where "slab_find (db_transactions db) hash = Returns (Some d)"
      "bytes_at (db_transactions db) d = transaction_value (of_nat h) i tx @ rest"
      using slab_holds_find [OF holds, of hash] v by auto
    then show ?thesis
      using Some x wf stored_transaction_read_back by (simp add: get_transaction_def transaction_get_def)
  qed
qed

lemma point_key_inject: "length (point_hash p) = 32 \<Longrightarrow> point_key q = point_key p \<longleftrightarrow> q = p"
proof
  assume p: "length (point_hash p) = 32" and eq: "point_key q = point_key p"
  then have "length (point_hash q) = 32" using arg_cong [OF eq, of length] by (simp add: point_key_def)
  with p eq have "point_hash q = point_hash p" "to_little_endian (point_index q) = to_little_endian (point_index p)"
    by (simp_all add: point_key_def)
  moreover from this have "point_index q = point_index p" by (metis from_to_little_endian(2))
  ultimately show "q = p" by simp
qed simp

lemma point_at:
  assumes "read_at m d 36 = point_to_data s" "length (point_hash s) = 32"
  shows "read_at m d 32 = point_hash s" "from_little_endian (read_at m (d + 32) 4) = point_index s"
proof -
  have "read_at m d 32 @ read_at m (d + 32) 4 = point_hash s @ write_4_bytes_little_endian (point_index s)"
    using assms(1) read_at_append [of m d 32 4] by (simp add: point_to_data_def)
  with assms(2) have "read_at m d 32 = point_hash s" "read_at m (d + 32) 4 = write_4_bytes_little_endian (point_index s)"
    by simp_all
  then show "read_at m d 32 = point_hash s" "from_little_endian (read_at m (d + 32) 4) = point_index s" by simp_all
qed

lemma chain_spend_wf:
  assumes "represents settings db bs" "(p, s) \<in> set (chain_spends bs)"
  shows "length (point_hash p) = 32" "length (point_hash s) = 32"
proof -
  obtain h i tx where tx: "(h, i, tx) \<in> set (chain_transactions bs)" "(p, s) \<in> set (transaction_spends tx)"
    using assms(2) by (auto simp: chain_spends_def)
  have "wf_transaction tx" by (rule chain_transaction_wf(1) [OF assms(1) tx(1)])
  then show "length (point_hash p) = 32" "length (point_hash s) = 32"
    using tx(2) by (auto simp: transaction_spends_def in_set_enumerate_eq wf_transaction_def list_all_length wf_input_def
        wf_point_def split: if_split_asm)
qed

lemma spend_get_answer:
  assumes "represents settings db bs"
  shows "spend_get (db_spends db) p = Returns (map_option snd (newest (\<lambda>(previous, spender). previous = p) (chain_spends bs)))"
proof -
  let ?rows = "rows_spends (chain_rows settings bs)" and ?t = "db_spends db"
  obtain content where content: "record_stores ?t content" "\<forall>key. map snd (content key) = stack_of ?rows key"
    using assms by (auto simp: represents_def tables_hold_def record_holds_def)
  have key: "(point_key (fst x) = point_key p) = (fst x = p)" if "x \<in> set (chain_spends bs)" for x
    using chain_spend_wf(1) [OF assms, of "fst x" "snd x"] that point_key_inject [of "fst x" p] by auto
  have rows: "newest (\<lambda>r. fst r = point_key p) ?rows = map_option (\<lambda>(p, s). (point_key p, point_to_data s))
      (newest (\<lambda>(previous, spender). previous = p) (chain_spends bs))"
    using key newest_cong [of "chain_spends bs" "\<lambda>x. point_key (fst x) = point_key p" "\<lambda>x. fst x = p"]
    by (simp add: chain_rows_concat newest_map comp_def split_def)
  show ?thesis
  proof (cases "newest (\<lambda>(previous, spender). previous = p) (chain_spends bs)")
    case None
    then have "stack_of ?rows (point_key p) = []" by (simp add: stack_of_newest rows)
    then show ?thesis using records.find_newest [OF content, of "point_key p"] None by (simp add: spend_get_def)
  next
    case (Some x)
    have wf: "length (point_hash (snd x)) = 32" using chain_spend_wf(2) [OF assms, of "fst x" "snd x"] newest_in [OF Some] by simp
    obtain v vs where v: "stack_of ?rows (point_key p) = v # vs"
      using Some stack_of_newest(1) [of ?rows "point_key p"] by (cases "stack_of ?rows (point_key p)") (auto simp: rows)
    have "v = point_to_data (snd x)" using stack_of_newest(2) [OF v] Some by (auto simp: rows split_def)
    then obtain d where d: "record_find ?t (point_key p) = Returns (Some d)" "read_at (map_file ?t) d 36 = point_to_data (snd x)"
      using records.find_newest [OF content, of "point_key p"] v length_rows(1) [OF wf] by auto
    then show ?thesis using Some point_at [OF d(2) wf] by (simp add: spend_get_def)
  qed
qed

lemma is_asset_exist_answer:
  assumes "represents settings db bs"
  shows "is_asset_exist db symbol = Returns (sha256_hash symbol \<in> fst ` set (rows_assets (chain_rows settings bs)))"
proof -
  let ?rows = "rows_assets (chain_rows settings bs)" and ?key = "sha256_hash symbol"
  have holds: "slab_holds (db_assets db) ?rows" using assms by (simp add: represents_def tables_hold_def)
  have "stack_of ?rows ?key = [] \<longleftrightarrow> ?key \<notin> fst ` set ?rows"
    by (force simp: stack_of_def filter_empty_conv)
  then show ?thesis
    using slab_holds_find [OF holds, of ?key]
    by (cases "stack_of ?rows ?key") (auto simp: is_asset_exist_def asset_get_def)
qed

lemma database_answers:
  assumes "represents settings db bs"
  shows "database_queries db = chain_answers settings bs"
  using get_last_height_answer [OF assms] get_header_answer [OF assms] get_height_answer [OF assms]
    get_transaction_answer [OF assms] spend_get_answer [OF assms] is_asset_exist_answer [OF assms]
  by (simp add: database_queries_def chain_answers_def found_def fun_eq_iff)

section \<open>Popping from a height\<close>

lemma represents_length: "represents settings db bs \<Longrightarrow> length bs < 2 ^ 32"
  by (auto simp: represents_def blocks_hold_def index_holds_def)

lemma pop_represents_last:
  assumes "represents settings db bs" "bs \<noteq> []"
  obtains db' where "db_pop settings db = Returns (popped (last bs), db')" "represents settings db' (butlast bs)"
  by (rule pop_represents [of settings db "butlast bs" "last bs"]) (use assms in simp_all)

lemma unat_top: "0 < n \<Longrightarrow> n < 2 ^ 32 \<Longrightarrow> unat (of_nat n - 1 :: u64) = n - 1"
  using unat_of_nat_u64 [of "n - 1"] by (simp add: of_nat_diff Suc_leI)

lemma represents_top:
  assumes "represents settings db bs" "bs \<noteq> []"
  shows "block_top (db_blocks db) = Some (of_nat (length bs) - 1)"
  using assms block_top_holds [of "db_blocks db" bs] by (simp add: represents_def of_nat_diff Suc_leI)

lemma pop_loop_represents:
  assumes "represents settings db bs" "0 < height" "height \<le> length bs"
  shows "\<exists>db'. pop_loop settings (of_nat height) (of_nat (length bs) - 1) out db =
    Returns (out @ map popped (rev (drop height bs)), db') \<and> represents settings db' (take height bs)"
  using assms
proof (induction "length bs - height" arbitrary: bs db out)
  case 0
  have "unat (of_nat height :: u64) = height"
    by (rule unat_of_nat_u64; use 0 represents_length [OF 0(2)] in simp)
  then have "\<not> (of_nat height :: u64) \<le> of_nat (length bs) - 1"
    unfolding word_le_nat_alt using 0 represents_length [OF 0(2)] unat_top [of "length bs"] by simp
  then show ?case using 0 by (subst pop_loop.simps) simp
next
  case (Suc n)
  have bs: "bs \<noteq> []" "height < length bs" using Suc by auto
  obtain db1 where db1: "db_pop settings db = Returns (popped (last bs), db1)" "represents settings db1 (butlast bs)"
    by (rule pop_represents_last [OF Suc.prems(1) bs(1)])
  have "unat (of_nat height :: u64) = height"
    by (rule unat_of_nat_u64; use bs(2) represents_length [OF Suc.prems(1)] in simp)
  then have le: "(of_nat height :: u64) \<le> of_nat (length bs) - 1"
    unfolding word_le_nat_alt using bs represents_length [OF Suc.prems(1)] unat_top [of "length bs"] by simp
  have less: "n = length (butlast bs) - height" "height \<le> length (butlast bs)" using Suc.hyps(2) bs(2) by simp_all
  obtain db2 where db2: "pop_loop settings (of_nat height) (of_nat (length (butlast bs)) - 1) (out @ [popped (last bs)]) db1 =
      Returns ((out @ [popped (last bs)]) @ map popped (rev (drop height (butlast bs))), db2)"
    "represents settings db2 (take height (butlast bs))"
    using Suc.hyps(1) [OF less(1) db1(2) Suc.prems(2) less(2)] by blast
  have "drop height (butlast bs @ [last bs]) = drop height (butlast bs) @ [last bs]"
    "take height (butlast bs @ [last bs]) = take height (butlast bs)" using less(2) by simp_all
  then have parts: "drop height bs = drop height (butlast bs) @ [last bs]" "take height (butlast bs) = take height bs"
    unfolding append_butlast_last_id [OF bs(1)] by simp_all
  have index: "(of_nat (length (butlast bs)) :: u64) - 1 = of_nat (length bs) - 1 - 1" using bs(1) by (simp add: of_nat_diff Suc_leI)
  have "pop_loop settings (of_nat height) (of_nat (length bs) - 1) out db =
      Returns (out @ map popped (rev (drop height bs)), db2)"
    unfolding pop_loop.simps [of settings "of_nat height" "of_nat (length bs) - 1"]
    using db1(1) db2(1) [unfolded index] le by (simp add: parts(1))
  then show ?case using db2(2) unfolding parts(2) by blast
qed

lemma pop_loop_empty: "represents settings db [] \<Longrightarrow> pop_loop settings 0 index out db = Abnormal"
  using block_top_holds [of "db_blocks db" "[]"] by (subst pop_loop.simps) (simp add: represents_def db_pop_def)

text \<open>From the height 0, \<open>pop_from\<close> does not return on a chain that is not empty: it pops once more than there are blocks.\<close>

lemma pop_from_zero:
  assumes "represents settings db bs" "bs \<noteq> []"
  shows "pop_from settings 0 db = Abnormal"
proof -
  have "pop_loop settings 0 index out db = Abnormal" for index out
    using assms(1)
  proof (induction bs arbitrary: db index out rule: rev_induct)
    case (snoc b bs)
    obtain db' where "db_pop settings db = Returns (popped b, db')" "represents settings db' bs"
      by (rule pop_represents [OF snoc.prems])
    then show ?case using snoc.IH by (subst pop_loop.simps) simp
  qed (rule pop_loop_empty)
  moreover have "block_top (db_blocks db) = Some (of_nat (length bs) - 1)" by (rule represents_top [OF assms])
  moreover have "(of_nat (length bs) :: u64) \<noteq> 0"
    using assms represents_length [OF assms(1)] unat_of_nat_u64 [of "length bs"] by auto
  ultimately show ?thesis by (simp add: pop_from_def)
qed

lemma pop_from_represents:
  assumes "represents settings db bs" "0 < height" "height \<le> length bs"
  obtains db' where "pop_from settings (of_nat height) db = Returns (Some (map popped (rev (drop height bs))), db')"
    "represents settings db' (take height bs)"
proof -
  have n: "length bs < 2 ^ 32" "bs \<noteq> []" using represents_length [OF assms(1)] assms(2,3) by auto
  note top = represents_top [OF assms(1) n(2)]
  show ?thesis
  proof (cases "height = length bs")
    case True
    then show ?thesis using assms(1) top by (intro that [of db]) (simp_all add: pop_from_def)
  next
    case False
    obtain db' where db': "pop_loop settings (of_nat height) (of_nat (length bs) - 1) [] db =
        Returns (map popped (rev (drop height bs)), db')" "represents settings db' (take height bs)"
      using pop_loop_represents [OF assms, of "[]"] by auto
    have unat: "unat (of_nat height :: u64) = height" "unat (of_nat (length bs) :: u64) = length bs"
      by (rule unat_of_nat_u64; use assms n in simp)+
    have "(of_nat height :: u64) \<noteq> of_nat (length bs)" using unat False by metis
    moreover have "\<not> of_nat (length bs) - 1 < (of_nat height :: u64)"
      unfolding word_less_nat_alt using unat unat_top [of "length bs"] False assms(3) n by simp
    ultimately show ?thesis using db' top by (intro that [of db']) (simp_all add: pop_from_def)
  qed
qed

lemma clear_represents:
  assumes "represents settings db bs"
  shows "\<exists>db'. clear_block_db settings db = Returns db' \<and> represents settings db' []"
  using assms
proof (induction bs arbitrary: db rule: rev_induct)
  case Nil
  then show ?case using block_top_holds [of "db_blocks db" "[]"] by (subst clear_block_db.simps) (simp add: represents_def)
next
  case (snoc b bs)
  obtain db1 where db1: "db_pop settings db = Returns (popped b, db1)" "represents settings db1 bs"
    by (rule pop_represents [OF snoc.prems])
  obtain db' where "clear_block_db settings db1 = Returns db'" "represents settings db' []" using snoc.IH [OF db1(2)] by blast
  moreover have "block_top (db_blocks db) = Some (of_nat (length (bs @ [b])) - 1)"
    by (rule represents_top [OF snoc.prems]) simp
  ultimately show ?case using db1(1) by (subst clear_block_db.simps) simp
qed

section \<open>Properties\<close>


definition sample_block :: block where
  "sample_block = \<lparr>block_header = sample_header, block_transactions = [sample_transaction]\<rparr>"

definition sample_settings :: db_settings where
  "sample_settings = \<lparr>history_height = 0, stealth_height = 0,
     db_curve = \<lparr>ecdsa_signature_parse_der = Some, ecdsa_signature_parse_compact = Some, ecdsa_signature_normalize = id,
       ec_pubkey_parse = Some, ecdsa_verify = (\<lambda>_ _ _. False), ecdsa_sign = (\<lambda>_ _. None),
       ecdsa_signature_serialize_der = (\<lambda>_. None), ec_pubkey_serialize = (\<lambda>_ bs. bs)\<rparr>\<rparr>"

lemma sample_attachment: "attached_detail (output_attach_data (hd (tx_outputs sample_transaction))) = None"
  by (simp add: sample_transaction_def attached_detail_def)

lemma sample_size: "transaction_serialized_size sample_transaction = length (transaction_to_data sample_transaction)"
  "length (transaction_to_data sample_transaction) \<le> 200"
  by (simp_all add: sample_transaction_def transaction_serialized_size_def transaction_to_data_def size_simps
      input_serialized_size_def input_to_data_def output_serialized_size_def output_to_data_def point_to_data_def
      point_satoshi_fixed_size_def attachment_serialized_size_def attachment_to_data_def etp_serialized_size_def
      etp_to_data_def script_serialized_size_def satoshi_content_size_def to_pay_key_hash_pattern_def
      operation_serialized_size_def variable_uint_size_def)

lemma sample_storable: "storable 0 sample_block"
  using wf_sample_transaction sample_size
  by (simp add: storable_def sample_block_def wf_header_def sample_header_def transaction_sized_def 
      is_allowed_duplicate_def exception1_def exception2_def) (simp add: sample_transaction_def asset_sized_def attached_detail_def
      attachment_fits_def etp_reset_def etp_to_data_def size_simps)

lemma sample_fits:
  assumes "blockchain_create hash files = Some db" "represents sample_settings db []"
    "record_count (map_manager (db_spends db)) = 0"
    "multimap_room (db_history db) = 2 ^ 32 - 2" "multimap_room (db_address_assets db) = 2 ^ 32 - 2"
    "payload (db_assets db) = 8" "payload (db_transactions db) = 8"
    "payload (block_map (db_blocks db)) = 8" "record_count (block_index (db_blocks db)) = 0"
  shows "block_fits sample_settings sample_block db"
proof -
  obtain i where i: "tx_inputs sample_transaction = [i]" by (simp add: sample_transaction_def)
  obtain out where out: "tx_outputs sample_transaction = [out]" by (simp add: sample_transaction_def)
  have "attached_detail (output_attach_data out) = None" using sample_attachment out by simp
  then have "tables_room (block_rows sample_settings h sample_block) db" for h
    using sample_size(2)
    by (simp add: tables_room_def assms block_rows_def sample_block_def transaction_rows_def Let_def i out append_rows_def
        no_rows_def input_rows_def output_rows_def transaction_value_def size_simps)
  moreover have "block_room sample_block (db_blocks db)" by (simp add: block_room_def assms sample_block_def)
  ultimately show ?thesis by (simp add: block_fits_def)
qed

lemma sample_database:
  obtains db db' where "blockchain_create hash files = Some db" "represents sample_settings db []"
    "block_fits sample_settings sample_block db" "db_push sample_settings sample_block db = Returns db'"
    "represents sample_settings db' [sample_block]"
proof -
  obtain db where db: "blockchain_create hash files = Some db" "represents sample_settings db []"
    "block_fits sample_settings sample_block db"
    using created_represents [of hash files sample_settings] sample_fits by metis
  obtain db' where "db_push sample_settings sample_block db = Returns db'" "represents sample_settings db' ([] @ [sample_block])"
    by (rule push_represents [OF db(2) _ db(3)]) (use sample_storable in simp_all)
  with db show ?thesis by (intro that) simp_all
qed


text \<open>
  C9: The queries answer from the chain. On a database that represents a chain of blocks, the last
  height, the header at a height, the height of a block, the transaction of a hash with the height of its block,
  the input that spends a point and the issue of an asset symbol are what the list of blocks says: always
  the newest of several matches, and nothing exactly when nothing matches.
\<close>

theorem database_answers_chain:
  assumes "represents settings db bs"
  shows "database_queries db = chain_answers settings bs"
  by (rule database_answers [OF assms])

theorem database_answers_chain_witness:
  "\<exists>db db'. blockchain_create (\<lambda>_. 0) (\<lambda>_ _. 0) = Some db \<and> db_push sample_settings sample_block db = Returns db' \<and>
     query_transaction (database_queries db') (transaction_hash sample_transaction) = Some (sample_transaction, 0) \<and>
     query_height (database_queries db') (header_hash sample_header) = Some 0 \<and>
     query_last_height (database_queries db) = None"
proof -
  obtain db db' where db: "blockchain_create (\<lambda>_. 0) (\<lambda>_ _. 0) = Some db" "represents sample_settings db []"
    "db_push sample_settings sample_block db = Returns db'" "represents sample_settings db' [sample_block]"
    by (rule sample_database)
  show ?thesis
    using db(1,3) database_answers_chain [OF db(2)] database_answers_chain [OF db(4)]
    by (auto simp: chain_answers_def newest_def chain_transactions_def sample_block_def)
qed

text \<open>
  C23: \<open>pop_from\<close> cuts the chain at a height: for a height above 0 and up to the number of blocks it always
  returns, gives the blocks from that height on, the newest first, and leaves the database of
  the blocks below; for the height 0 it never returns normally, since its loop counter cannot fall below 0.
\<close>

theorem pop_from_cuts:
  assumes "represents settings db bs" "bs \<noteq> []" "height \<le> length bs"
  shows "if height = 0 then pop_from settings (of_nat height) db = Abnormal
    else \<exists>db'. pop_from settings (of_nat height) db = Returns (Some (map popped (rev (drop height bs))), db') \<and>
      represents settings db' (take height bs)"
  using pop_from_zero [OF assms(1,2)] pop_from_represents [OF assms(1) _ assms(3)] by (cases "height = 0") (simp, metis neq0_conv)

theorem pop_from_cuts_witness:
  "\<exists>db'. represents sample_settings db' [sample_block] \<and> pop_from sample_settings 0 db' = Abnormal \<and>
     (\<exists>db''. pop_from sample_settings 1 db' = Returns (Some [], db''))"
proof -
  obtain db' where db': "represents sample_settings db' [sample_block]"
    by (rule sample_database [of "\<lambda>_. 0" "\<lambda>_ _. 0"])
  then show ?thesis using pop_from_cuts [OF db', of 0] pop_from_cuts [OF db', of 1] by auto
qed

text \<open>
  C24: \<open>clear_block_db\<close> terminates: on every database that represents a chain of blocks it returns after as
  many rounds as there are blocks, with a database that represents the empty chain.
\<close>

theorem clear_block_db_terminates:
  assumes "represents settings db bs"
  shows "\<exists>db'. clear_block_db settings db = Returns db' \<and> represents settings db' [] \<and> get_last_height db' = None"
  using clear_represents [OF assms] get_last_height_answer by fastforce

theorem clear_block_db_terminates_witness:
  "\<exists>db db' db''. blockchain_create (\<lambda>_. 0) (\<lambda>_ _. 0) = Some db \<and> db_push sample_settings sample_block db = Returns db' \<and>
     clear_block_db sample_settings db' = Returns db'' \<and> get_last_height db'' = None"
proof -
  obtain db db' where db: "blockchain_create (\<lambda>_. 0) (\<lambda>_ _. 0) = Some db"
    "db_push sample_settings sample_block db = Returns db'" "represents sample_settings db' [sample_block]"
    by (rule sample_database)
  then show ?thesis using clear_block_db_terminates [OF db(3)] by blast
qed

end
