(* ===== verification/Validate_Block.thy ===== *)
theory Validate_Block
  imports Validate_Transaction Block_Chain
begin

text \<open>
  The validation of a block at the end of a chain of orphans: \<open>validate_block.cpp\<close> and
  \<open>validate_block_impl.cpp\<close>, with \<open>HeaderAux::calculateDifficulty\<close> and the checkpoints. The stored
  chain is seen through its queries. What the rules take from outside is in a record: the clock,
  the evaluation of the seal by the bundled hash library, and the two rewards, which the program computes with
  floating-point numbers. The request to stop is a flag that does not change during one call.
\<close>

section \<open>Rules and context\<close>

record block_rules =
  rules_testnet :: bool
  rules_checkpoints :: "(hash_digest \<times> u64) list"
  rules_maturity :: u32
  rules_stopped :: bool
  rules_now :: nat
  rules_seal :: "header \<Rightarrow> bool"
  rules_subsidy :: "u64 \<Rightarrow> u64"
  rules_lock_reward :: "nat \<Rightarrow> u64 \<Rightarrow> u64"
  rules_consensus :: script_check
  rules_curve :: secp256k1_points

text \<open>The fork point, the chain of orphans above it and the index of the block in it.\<close>

record block_context =
  vb_chain :: chain_queries
  vb_fork_index :: u64
  vb_orphan_chain :: "block list"
  vb_orphan_index :: nat

definition vb_height :: "block_context \<Rightarrow> u64" where
  "vb_height vb = vb_fork_index vb + of_nat (vb_orphan_index vb) + 1"

definition vb_block :: "block_context \<Rightarrow> block" where
  "vb_block vb = vb_orphan_chain vb ! vb_orphan_index vb"

abbreviation (input) max_block_size :: nat where "max_block_size \<equiv> 1000000"
abbreviation (input) max_block_script_sigops :: nat where "max_block_script_sigops \<equiv> max_block_size div 50"

section \<open>Looking things up\<close>

text \<open>A header that is not there has indeterminate fields; reading past the orphans is undefined.\<close>

definition fetch_block :: "block_context \<Rightarrow> u64 \<Rightarrow> header outcome" where
  "fetch_block vb fetch_height =
     (if fetch_height > vb_fork_index vb then
        (let fetch_index = unat (fetch_height - vb_fork_index vb - 1)
         in if fetch_index < length (vb_orphan_chain vb) then Returns (block_header (vb_orphan_chain vb ! fetch_index))
            else Abnormal)
      else query_header (vb_chain vb) fetch_height)"

definition transaction_exists :: "block_context \<Rightarrow> hash_digest \<Rightarrow> bool" where
  "transaction_exists vb tx_hash =
     (case query_transaction (vb_chain vb) tx_hash of
        None \<Rightarrow> False
      | Some (_, tx_height) \<Rightarrow> tx_height \<le> vb_fork_index vb)"

definition is_output_spent_in_chain :: "block_context \<Rightarrow> point \<Rightarrow> bool" where
  "is_output_spent_in_chain vb outpoint =
     (case query_spend (vb_chain vb) outpoint of
        None \<Rightarrow> False
      | Some spend \<Rightarrow> transaction_exists vb (point_hash spend))"

text \<open>The blocks of the orphan chain up to the current one.\<close>

definition orphans_to_here :: "block_context \<Rightarrow> block list" where
  "orphans_to_here vb = take (vb_orphan_index vb + 1) (vb_orphan_chain vb)"

definition fetch_orphan_transaction :: "block_context \<Rightarrow> hash_digest \<Rightarrow> (transaction \<times> u64) option" where
  "fetch_orphan_transaction vb tx_hash =
     map_option (\<lambda>(orphan, tx). (tx, vb_fork_index vb + of_nat orphan + 1))
       (find (\<lambda>(orphan, tx). transaction_hash tx = tx_hash)
         (concat (map (\<lambda>(orphan, b). map (\<lambda>tx. (orphan, tx)) (block_transactions b)) (enumerate 0 (orphans_to_here vb)))))"

definition fetch_transaction :: "block_context \<Rightarrow> hash_digest \<Rightarrow> (transaction \<times> u64) option" where
  "fetch_transaction vb tx_hash =
     (case query_transaction (vb_chain vb) tx_hash of
        None \<Rightarrow> fetch_orphan_transaction vb tx_hash
      | Some (tx, tx_height) \<Rightarrow>
          if tx_height > vb_fork_index vb then fetch_orphan_transaction vb tx_hash else Some (tx, tx_height))"

text \<open>Every input of the orphans up to the current block, with its place.\<close>

definition orphan_inputs :: "block_context \<Rightarrow> (nat \<times> nat \<times> nat \<times> tx_input) list" where
  "orphan_inputs vb =
     concat (map (\<lambda>(orphan, b).
       concat (map (\<lambda>(tx_index, tx).
         map (\<lambda>(input_index, i). (orphan, tx_index, input_index, i)) (enumerate 0 (tx_inputs tx)))
         (enumerate 0 (block_transactions b))))
       (enumerate 0 (orphans_to_here vb)))"

definition orphan_is_spent :: "block_context \<Rightarrow> point \<Rightarrow> nat \<Rightarrow> nat \<Rightarrow> bool" where
  "orphan_is_spent vb previous_output skip_tx skip_input =
     list_ex (\<lambda>(orphan, tx_index, input_index, i).
       \<not> (orphan = vb_orphan_index vb \<and> tx_index = skip_tx \<and> input_index = skip_input) \<and>
       input_previous_output i = previous_output) (orphan_inputs vb)"

definition is_output_spent :: "block_context \<Rightarrow> point \<Rightarrow> nat \<Rightarrow> nat \<Rightarrow> bool" where
  "is_output_spent vb previous_output index_in_parent input_index =
     (is_output_spent_in_chain vb previous_output \<or> orphan_is_spent vb previous_output index_in_parent input_index)"

section \<open>Proof of work\<close>

text \<open>The difficulty of a block from its parent; the genesis block makes it throw.\<close>

definition calculateDifficulty :: "bool \<Rightarrow> header \<Rightarrow> header \<Rightarrow> u256 outcome" where
  "calculateDifficulty testnet bi parent =
     (if hdr_number bi = 0 then Abnormal
      else
        (let minimumDifficulty = (if testnet then 300000 else 914572800);
             target = (if hdr_timestamp bi \<ge> hdr_timestamp parent + 24
                       then hdr_bits parent - hdr_bits parent div 1024
                       else hdr_bits parent + hdr_bits parent div 1024)
         in Returns (max minimumDifficulty target)))"

definition verifySeal :: "block_rules \<Rightarrow> header \<Rightarrow> header \<Rightarrow> bool outcome" where
  "verifySeal rules head parent = do {
     difficulty \<leftarrow> calculateDifficulty (rules_testnet rules) head parent;
     Returns (hdr_bits head = difficulty \<and> rules_seal rules head) }"

definition is_valid_proof_of_work :: "block_rules \<Rightarrow> block_context \<Rightarrow> header \<Rightarrow> bool outcome" where
  "is_valid_proof_of_work rules vb head = do {
     parent_header \<leftarrow>
       (if vb_orphan_index vb \<noteq> 0 then Returns (block_header (vb_orphan_chain vb ! (vb_orphan_index vb - 1)))
        else query_header (vb_chain vb) (ucast (hdr_number head - 1)));
     verifySeal rules head parent_header }"

definition work_required :: "block_rules \<Rightarrow> block_context \<Rightarrow> u256 outcome" where
  "work_required rules vb = do {
     prev_header \<leftarrow> fetch_block vb (vb_height vb - 1);
     calculateDifficulty (rules_testnet rules) (block_header (vb_block vb)) prev_header }"

definition is_valid_time_stamp :: "block_rules \<Rightarrow> u32 \<Rightarrow> bool" where
  "is_valid_time_stamp rules timestamp \<longleftrightarrow> unat timestamp \<le> rules_now rules + 2 * 60 * 60"

section \<open>Signature operations\<close>

definition within_op_n :: "opcode \<Rightarrow> bool" where
  "within_op_n code \<longleftrightarrow> opcode_1 \<le> code \<and> code \<le> opcode_16"

definition decode_op_n :: "opcode \<Rightarrow> nat" where
  "decode_op_n code = unat (code - (opcode_1 - 1))"

primrec count_script_sigops :: "bool \<Rightarrow> opcode \<Rightarrow> operation list \<Rightarrow> nat" where
  "count_script_sigops accurate last_opcode [] = 0"
| "count_script_sigops accurate last_opcode (op # ops) =
     (if op_code op = opcode_checksig \<or> op_code op = opcode_checksigverify then 1
      else if op_code op = opcode_checkmultisig \<or> op_code op = opcode_checkmultisigverify then
        (if accurate \<and> within_op_n last_opcode then decode_op_n last_opcode else 20)
      else 0)
     + count_script_sigops accurate (op_code op) ops"

definition legacy_sigops_count :: "transaction \<Rightarrow> nat" where
  "legacy_sigops_count tx =
     (\<Sum>i\<leftarrow>tx_inputs tx. count_script_sigops False opcode_bad_operation (input_script i)) +
     (\<Sum>out\<leftarrow>tx_outputs tx. count_script_sigops False opcode_bad_operation (output_script out))"

definition block_sigops_count :: "transaction list \<Rightarrow> nat" where
  "block_sigops_count txs = (\<Sum>tx\<leftarrow>txs. legacy_sigops_count tx)"

definition script_hash_signature_operations_count :: "script \<Rightarrow> script \<Rightarrow> nat option" where
  "script_hash_signature_operations_count out_script in_script =
     (if in_script = [] \<or> pattern out_script \<noteq> Pay_script_hash then Some 0
      else
        (case script_from_chunk (op_data (last in_script)) False Strict of
           (ok, eval_script) \<Rightarrow>
             if ok then Some (count_script_sigops True opcode_bad_operation eval_script) else None))"

section \<open>Checks that are independent of the chain\<close>

text \<open>
  The coinbase transactions of a block: the first one and the rewards of locked outputs, each with one
  output of coins. \<open>Inl\<close> is an error.
\<close>

primrec count_coinbases :: "transaction list \<Rightarrow> (error_code + nat) outcome" where
  "count_coinbases [] = Returns (Inr 0)"
| "count_coinbases (tx # txs) =
     (if is_coinbase tx then
        (case tx_outputs tx of
           [] \<Rightarrow> Abnormal
         | [out] \<Rightarrow> if is_etp out then map_option (map_sum id Suc) (count_coinbases txs) else Returns (Inl First_not_coinbase)
         | _ \<Rightarrow> Returns (Inl First_not_coinbase))
      else count_coinbases txs)"

text \<open>The set of asset symbols a block issues, where a symbol that comes twice is an error.\<close>

primrec insert_issues :: "tx_output list \<Rightarrow> bytes list \<Rightarrow> (error_code + bytes list) outcome" where
  "insert_issues [] assets = Returns (Inr assets)"
| "insert_issues (out # outs) assets = do {
     issue \<leftarrow> is_asset_issue out;
     (if issue then do {
        symbol \<leftarrow> get_asset_symbol out;
        (if symbol \<in> set assets then Returns (Inl Asset_exist) else insert_issues outs (symbol # assets)) }
      else insert_issues outs assets) }"

primrec check_transactions :: "chain_queries \<Rightarrow> transaction list \<Rightarrow> bytes list \<Rightarrow> error_code outcome" where
  "check_transactions queries [] assets = Returns Success"
| "check_transactions queries (tx # txs) assets = do {
     ec \<leftarrow> check_transaction_basic queries tx;
     (if ec \<noteq> Success then Returns ec
      else do {
        inserted \<leftarrow> insert_issues (tx_outputs tx) assets;
        (case inserted of Inl ec \<Rightarrow> Returns ec | Inr assets \<Rightarrow> check_transactions queries txs assets) }) }"

definition is_distinct_tx_set :: "transaction list \<Rightarrow> bool" where
  "is_distinct_tx_set txs = distinct (map transaction_hash txs)"

definition check_block :: "block_rules \<Rightarrow> block_context \<Rightarrow> error_code outcome" where
  "check_block rules vb =
     (let b = vb_block vb; txs = block_transactions b; head = block_header b in
      if txs = [] \<or> block_serialized_size True b > max_block_size then Returns Size_limits
      else do {
        work \<leftarrow> is_valid_proof_of_work rules vb head;
        (if \<not> work then Returns Proof_of_work
         else if rules_stopped rules then Returns Service_stopped
         else if \<not> is_valid_time_stamp rules (hdr_timestamp head) then Returns Futuristic_timestamp
         else do {
           coinbases \<leftarrow> count_coinbases txs;
           (case coinbases of
              Inl ec \<Rightarrow> Returns ec
            | Inr coinbase_count \<Rightarrow>
                if coinbase_count = 0 then Returns First_not_coinbase
                else if list_ex is_coinbase (drop coinbase_count txs) then Returns Extra_coinbases
                else do {
                  ec \<leftarrow> check_transactions (vb_chain vb) txs [];
                  Returns
                    (if ec \<noteq> Success then ec
                     else if \<not> is_distinct_tx_set txs then Duplicate
                     else if block_sigops_count txs > max_block_script_sigops then Too_many_sigs
                     else if hdr_merkle head \<noteq> generate_merkle_root txs then Merkle_mismatch
                     else Success) }) }) })"

section \<open>Checks that depend on the height\<close>

primrec preceding_versions :: "block_context \<Rightarrow> nat list \<Rightarrow> nat list outcome" where
  "preceding_versions vb [] = Returns []"
| "preceding_versions vb (i # is) = do {
     head \<leftarrow> fetch_block vb (vb_height vb - of_nat i - 1);
     rest \<leftarrow> preceding_versions vb is;
     Returns (min (unat (hdr_version head)) 255 # rest) }"

definition preceding_block_versions :: "block_context \<Rightarrow> nat \<Rightarrow> nat list outcome" where
  "preceding_block_versions vb maximum = preceding_versions vb [0..<min maximum (unat (vb_height vb))]"

text \<open>The activated rules and the lowest version of a block.\<close>

definition initialize_context :: "block_rules \<Rightarrow> block_context \<Rightarrow> (u32 \<times> u32) outcome" where
  "initialize_context rules vb = do {
     let testnet = rules_testnet rules;
     let height = vb_height vb;
     let active = (if testnet then 750 else 51);
     let enforce = (if testnet then 950 else 75);
     versions \<leftarrow> preceding_block_versions vb (if testnet then 1000 else 100);
     let count = (\<lambda>n. length (filter (\<lambda>version. version \<ge> n) versions));
     let minimum_version = (if count 4 \<ge> enforce then 4 else if count 3 \<ge> enforce then 3 else if count 2 \<ge> enforce then 2 else 1);
     let activations =
       (if count 4 \<ge> active then bip65_enabled else 0) OR (if count 3 \<ge> active then bip66_enabled else 0)
       OR (if count 2 \<ge> active then bip34_enabled else 0)
       OR (if height \<noteq> (if testnet then 0 else 91842) \<and> height \<noteq> (if testnet then 0 else 91880) then bip30_enabled else 0)
       OR (if height \<ge> (if testnet then 514 else 173805) then bip16_enabled else 0);
     Returns (activations, minimum_version) }"

definition block_is_active :: "block_context \<Rightarrow> u32 \<Rightarrow> u32 \<Rightarrow> bool" where
  "block_is_active vb activations flag =
     (is_active activations flag \<and>
      (let version = hdr_version (block_header (vb_block vb))
       in (flag = bip65_enabled \<and> version \<ge> 4) \<or> (flag = bip66_enabled \<and> version \<ge> 3)
          \<or> (flag = bip34_enabled \<and> version \<ge> 2)))"

primrec preceding_times :: "block_context \<Rightarrow> nat list \<Rightarrow> u64 list outcome" where
  "preceding_times vb [] = Returns []"
| "preceding_times vb (i # is) = do {
     head \<leftarrow> fetch_block vb (vb_height vb - of_nat i - 1);
     rest \<leftarrow> preceding_times vb is;
     Returns (ucast (hdr_timestamp head) # rest) }"

definition median_time_past :: "block_context \<Rightarrow> u64 outcome" where
  "median_time_past vb = do {
     times \<leftarrow> preceding_times vb [0..<min (unat (vb_height vb)) 11];
     Returns (if times = [] then 0 else sort times ! (length times div 2)) }"

definition checkpoint_validate :: "hash_digest \<Rightarrow> u64 \<Rightarrow> (hash_digest \<times> u64) list \<Rightarrow> bool" where
  "checkpoint_validate hash height checks = (\<not> list_ex (\<lambda>(h, n). height = n \<and> hash \<noteq> h) checks)"

text \<open>\<open>std::equal\<close> from the beginning of the second range, which must not be shorter.\<close>

fun std_equal :: "bytes \<Rightarrow> bytes \<Rightarrow> bool outcome" where
  "std_equal [] actual = Returns True"
| "std_equal (e # es) [] = Abnormal"
| "std_equal (e # es) (a # as) = (if e = a then std_equal es as else Returns False)"

definition is_valid_coinbase_height :: "u64 \<Rightarrow> block \<Rightarrow> bool outcome" where
  "is_valid_coinbase_height height b =
     (case block_transactions b of
        [] \<Rightarrow> Returns False
      | tx # _ \<Rightarrow>
          (case tx_inputs tx of
             [] \<Rightarrow> Returns False
           | i # _ \<Rightarrow> std_equal (script_to_data False [Op opcode_special (script_number_serialize (sint height))])
                       (script_to_data False (input_script i))))"

definition accept_block :: "block_rules \<Rightarrow> block_context \<Rightarrow> u32 \<Rightarrow> u32 \<Rightarrow> error_code outcome" where
  "accept_block rules vb activations minimum_version =
     (let b = vb_block vb; head = block_header b; height = vb_height vb in do {
      work \<leftarrow> work_required rules vb;
      (if hdr_bits head \<noteq> work then Returns Incorrect_proof_of_work
       else if rules_stopped rules then Returns Service_stopped
       else do {
         median \<leftarrow> median_time_past vb;
         (if ucast (hdr_timestamp head) \<le> median then Returns Timestamp_too_early
          else if \<not> list_all (\<lambda>tx. is_final tx height (hdr_timestamp head)) (block_transactions b)
          then Returns Non_final_transaction
          else if \<not> checkpoint_validate (header_hash head) height (rules_checkpoints rules) then Returns Checkpoints_failed
          else if \<not> hdr_version head \<ge> minimum_version then Returns Old_version_block
          else do {
            coinbase \<leftarrow> (if block_is_active vb activations bip34_enabled then is_valid_coinbase_height height b else Returns True);
            Returns (if coinbase then Success else Coinbase_height_mismatch) }) }) })"

section \<open>Checks of inputs against outputs\<close>

definition is_spent_duplicate :: "block_context \<Rightarrow> transaction \<Rightarrow> bool" where
  "is_spent_duplicate vb tx =
     (let tx_hash = transaction_hash tx
      in transaction_exists vb tx_hash \<and>
         list_all (\<lambda>output_index. is_output_spent_in_chain vb \<lparr>point_hash = tx_hash, point_index = of_nat output_index\<rparr>)
           [0..<length (tx_outputs tx)])"

text \<open>One input: whether it is valid, the value of the inputs so far and the signature operations so far.\<close>

definition block_connect_input ::
  "block_rules \<Rightarrow> block_context \<Rightarrow> u32 \<Rightarrow> nat \<Rightarrow> transaction \<Rightarrow> nat \<Rightarrow> u64 \<Rightarrow> nat \<Rightarrow> (bool \<times> u64 \<times> nat) outcome" where
  "block_connect_input rules vb activations index_in_parent current_tx input_index amount_in total_sigops =
     (let input = tx_inputs current_tx ! input_index;
          previous_output = input_previous_output input
      in case fetch_transaction vb (point_hash previous_output) of
           None \<Rightarrow> Returns (False, amount_in, total_sigops)
         | Some (previous_tx, previous_height) \<Rightarrow>
             if length (tx_outputs previous_tx) \<le> unat (point_index previous_output) then Abnormal
             else
               (let previous_tx_out = tx_outputs previous_tx ! unat (point_index previous_output)
                in case script_hash_signature_operations_count (output_script previous_tx_out) (input_script input) of
                     None \<Rightarrow> Returns (False, amount_in, total_sigops)
                   | Some count \<Rightarrow>
                       (let total_sigops = total_sigops + count;
                            paid = output_value previous_tx_out
                        in if total_sigops > max_block_script_sigops \<or> paid > max_money then Returns (False, amount_in, total_sigops)
                           else if is_coinbase previous_tx \<and> vb_height vb - previous_height < ucast (rules_maturity rules)
                           then Returns (False, amount_in, total_sigops)
                           else do {
                             valid \<leftarrow> rules_consensus rules (output_script previous_tx_out) current_tx input_index activations;
                             (if \<not> valid \<or> is_output_spent vb previous_output index_in_parent input_index
                              then Returns (False, amount_in, total_sigops)
                              else Returns (amount_in + paid \<le> max_money, amount_in + paid, total_sigops)) })))"

primrec validate_inputs ::
  "block_rules \<Rightarrow> block_context \<Rightarrow> u32 \<Rightarrow> nat \<Rightarrow> transaction \<Rightarrow> nat list \<Rightarrow> u64 \<Rightarrow> nat \<Rightarrow> (bool \<times> u64 \<times> nat) outcome" where
  "validate_inputs rules vb activations index_in_parent tx [] amount_in total_sigops = Returns (True, amount_in, total_sigops)"
| "validate_inputs rules vb activations index_in_parent tx (input_index # rest) amount_in total_sigops = do {
     (ok, amount_in, total_sigops) \<leftarrow>
       block_connect_input rules vb activations index_in_parent tx input_index amount_in total_sigops;
     (if \<not> ok then Returns (False, amount_in, total_sigops)
      else validate_inputs rules vb activations index_in_parent tx rest amount_in total_sigops) }"

definition calculate_lockblock_reward :: "block_rules \<Rightarrow> u64 \<Rightarrow> u64 \<Rightarrow> u64" where
  "calculate_lockblock_reward rules lock_height num =
     (case get_lock_heights_index lock_height of
        None \<Rightarrow> 0
      | Some index \<Rightarrow> rules_lock_reward rules index num)"

definition check_get_coinage_reward_transaction :: "block_rules \<Rightarrow> transaction \<Rightarrow> tx_output \<Rightarrow> bool outcome" where
  "check_get_coinage_reward_transaction rules coinage_reward_coinbase out = do {
     lock_height \<leftarrow> get_lock_height_from_pay_key_hash_with_lock_height (output_script out);
     (case tx_outputs coinage_reward_coinbase of
        [] \<Rightarrow> Abnormal
      | reward # _ \<Rightarrow> do {
          coinbase_lock_height \<leftarrow> get_lock_height_from_pay_key_hash_with_lock_height (output_script reward);
          addr1 \<leftarrow> extract_address (rules_curve rules) (output_script reward) mainnet_p2kh mainnet_p2sh;
          addr2 \<leftarrow> extract_address (rules_curve rules) (output_script out) mainnet_p2kh mainnet_p2sh;
          Returns (addr1 = addr2 \<and> lock_height = coinbase_lock_height \<and>
            calculate_lockblock_reward rules lock_height (output_value out) = output_value reward) }) }"

record connect_state =
  connect_fees :: u64
  connect_sigops :: nat
  coinage_reward_coinbase_index :: nat
  get_coinage_reward_tx_count :: nat

text \<open>The outputs of a transaction that lock coins, each with the next coinbase of the block.\<close>

primrec check_coinage_rewards ::
  "block_rules \<Rightarrow> transaction list \<Rightarrow> tx_output list \<Rightarrow> connect_state \<Rightarrow> (bool \<times> connect_state) outcome" where
  "check_coinage_rewards rules txs [] st = Returns (True, st)"
| "check_coinage_rewards rules txs (out # outs) st =
     (if is_pay_key_hash_with_lock_height_pattern (output_script out) then
        (let index = coinage_reward_coinbase_index st in
         if length txs \<le> index then Abnormal
         else do {
           ok \<leftarrow> check_get_coinage_reward_transaction rules (txs ! index) out;
           (let st = st\<lparr>coinage_reward_coinbase_index := index + 1\<rparr>
            in if \<not> ok then Returns (False, st)
               else check_coinage_rewards rules txs outs
                      (st\<lparr>get_coinage_reward_tx_count := get_coinage_reward_tx_count st + 1\<rparr>)) })
      else check_coinage_rewards rules txs outs st)"

text \<open>The error and the hash of the transaction it is about, or the totals.\<close>

primrec connect_transactions ::
  "block_rules \<Rightarrow> block_context \<Rightarrow> u32 \<Rightarrow> transaction list \<Rightarrow> (nat \<times> transaction) list \<Rightarrow> connect_state \<Rightarrow>
     ((error_code \<times> hash_digest) + connect_state) outcome" where
  "connect_transactions rules vb activations txs [] st = Returns (Inr st)"
| "connect_transactions rules vb activations txs (x # rest) st =
     (let (tx_index, tx) = x;
          st = st\<lparr>connect_sigops := connect_sigops st + legacy_sigops_count tx\<rparr>
      in if connect_sigops st > max_block_script_sigops then Returns (Inl (Too_many_sigs, null_hash))
         else if rules_stopped rules then Returns (Inl (Service_stopped, null_hash))
         else if is_coinbase tx then connect_transactions rules vb activations txs rest st
         else do {
           (rewarded, st) \<leftarrow> check_coinage_rewards rules txs (tx_outputs tx) st;
           (if \<not> rewarded then Returns (Inl (Invalid_coinage_reward_coinbase, null_hash))
            else do {
              (valid, amount_in, total_sigops) \<leftarrow>
                validate_inputs rules vb activations tx_index tx [0..<length (tx_inputs tx)] 0 (connect_sigops st);
              (if \<not> valid then Returns (Inl (Validate_inputs_failed, transaction_hash tx))
               else
                 (let (ok, fees) = tally_fees tx amount_in (connect_fees st)
                  in if \<not> ok then Returns (Inl (Fees_out_of_range, transaction_hash tx))
                     else connect_transactions rules vb activations txs rest
                            (st\<lparr>connect_fees := fees, connect_sigops := total_sigops\<rparr>))) }) })"

text \<open>The loop over the transactions for the two blocks of the duplicate transactions.\<close>

primrec find_spent_duplicate :: "block_rules \<Rightarrow> block_context \<Rightarrow> transaction list \<Rightarrow> (error_code \<times> hash_digest) option" where
  "find_spent_duplicate rules vb [] = None"
| "find_spent_duplicate rules vb (tx # txs) =
     (if is_spent_duplicate vb tx then Some (Duplicate_or_spent, transaction_hash tx)
      else if rules_stopped rules then Some (Service_stopped, null_hash)
      else find_spent_duplicate rules vb txs)"

definition connect_block :: "block_rules \<Rightarrow> block_context \<Rightarrow> u32 \<Rightarrow> (error_code \<times> hash_digest) outcome" where
  "connect_block rules vb activations =
     (let txs = block_transactions (vb_block vb) in
      case (if block_is_active vb activations bip30_enabled then find_spent_duplicate rules vb txs else None) of
        Some error \<Rightarrow> Returns error
      | None \<Rightarrow> do {
          connected \<leftarrow> connect_transactions rules vb activations txs (enumerate 0 txs)
            \<lparr>connect_fees = 0, connect_sigops = 0, coinage_reward_coinbase_index = 1, get_coinage_reward_tx_count = 0\<rparr>;
          (case connected of
             Inl error \<Rightarrow> Returns error
           | Inr st \<Rightarrow>
               if get_coinage_reward_tx_count st \<noteq> coinage_reward_coinbase_index st - 1
               then Returns (Invalid_coinage_reward_coinbase, null_hash)
               else if rules_stopped rules then Returns (Service_stopped, null_hash)
               else
                 (case txs of
                    [] \<Rightarrow> Abnormal
                  | coinbase # _ \<Rightarrow>
                      Returns (if total_output_value coinbase > rules_subsidy rules (vb_height vb) + connect_fees st
                        then Coinbase_too_large else Success, null_hash))) })"

section \<open>What the checks establish\<close>

definition block_spent_output :: "block_context \<Rightarrow> tx_input \<Rightarrow> tx_output option" where
  "block_spent_output vb i =
     (case fetch_transaction vb (point_hash (input_previous_output i)) of
        Some (previous_tx, _) \<Rightarrow>
          if unat (point_index (input_previous_output i)) < length (tx_outputs previous_tx)
          then Some (tx_outputs previous_tx ! unat (point_index (input_previous_output i))) else None
      | None \<Rightarrow> None)"

definition block_spent_value :: "block_context \<Rightarrow> tx_input \<Rightarrow> nat" where
  "block_spent_value vb i = (case block_spent_output vb i of Some out \<Rightarrow> unat (output_value out) | None \<Rightarrow> 0)"

text \<open>
  The input may spend the output of its point, which no transaction of the chain up to the fork has
  spent and no other input of the orphans up to this block spends.
\<close>

definition block_input_connected :: "block_rules \<Rightarrow> block_context \<Rightarrow> u32 \<Rightarrow> nat \<Rightarrow> transaction \<Rightarrow> nat \<Rightarrow> bool" where
  "block_input_connected rules vb activations tx_index tx k \<longleftrightarrow>
     (\<exists>out. block_spent_output vb (tx_inputs tx ! k) = Some out \<and>
        rules_consensus rules (output_script out) tx k activations = Returns True \<and>
        \<not> is_output_spent_in_chain vb (input_previous_output (tx_inputs tx ! k)) \<and>
        (\<forall>(orphan, t, j, i) \<in> set (orphan_inputs vb). (orphan, t, j) \<noteq> (vb_orphan_index vb, tx_index, k) \<longrightarrow>
           input_previous_output i \<noteq> input_previous_output (tx_inputs tx ! k)))"

lemma block_connect_input_success:
  assumes "block_connect_input rules vb activations tx_index tx k amount_in sigops = Returns (True, amount_in', sigops')"
  shows "block_input_connected rules vb activations tx_index tx k"
    "\<exists>paid. unat paid = block_spent_value vb (tx_inputs tx ! k) \<and> paid \<le> max_money \<and> amount_in' = amount_in + paid"
    "amount_in' \<le> max_money" "sigops' \<le> max_block_script_sigops"
  using assms
  by (auto simp: block_connect_input_def Let_def block_input_connected_def block_spent_output_def block_spent_value_def
      is_output_spent_def orphan_is_spent_def list_ex_iff bind_eq_Some_conv linorder_not_less linorder_not_le
      split: option.split_asm prod.split_asm if_split_asm)

lemma validate_inputs_success:
  assumes "validate_inputs rules vb activations tx_index tx ks amount_in sigops = Returns (True, amount_in', sigops')"
    "amount_in \<le> max_money" "sigops \<le> max_block_script_sigops"
  shows "list_all (block_input_connected rules vb activations tx_index tx) ks \<and> amount_in' \<le> max_money \<and>
    sigops' \<le> max_block_script_sigops \<and>
    unat amount_in' = unat amount_in + (\<Sum>k \<leftarrow> ks. block_spent_value vb (tx_inputs tx ! k))"
  using assms
proof (induction ks arbitrary: amount_in sigops)
  case (Cons k ks)
  obtain a s where first: "block_connect_input rules vb activations tx_index tx k amount_in sigops = Returns (True, a, s)"
    and rest: "validate_inputs rules vb activations tx_index tx ks a s = Returns (True, amount_in', sigops')"
    using Cons.prems(1) by (auto simp: bind_eq_Some_conv split: if_split_asm)
  note facts = block_connect_input_success [OF first]
  obtain paid where paid: "unat paid = block_spent_value vb (tx_inputs tx ! k)" "paid \<le> max_money" "a = amount_in + paid"
    using facts(2) by blast
  show ?case using Cons.IH [OF rest facts(3,4)] facts(1) paid unat_add_max_money [OF paid(2) Cons.prems(2)]
    by (simp add: add.assoc)
qed simp

lemma tally_fees_success:
  assumes "tally_fees tx amount_in fees = (True, fees')" "amount_in \<le> max_money" "fees \<le> max_money"
  shows "unat fees' + unat (total_output_value tx) = unat fees + unat amount_in \<and> fees' \<le> max_money"
proof -
  have le: "total_output_value tx \<le> amount_in" and fees': "fees' = fees + (amount_in - total_output_value tx)"
    and bound: "fees' \<le> max_money"
    using assms(1) by (auto simp: tally_fees_def Let_def linorder_not_less split: if_split_asm)
  have "amount_in - total_output_value tx \<le> max_money"
    using le assms(2) by (metis order.trans word_sub_le)
  from unat_add_max_money [OF this assms(3)] show ?thesis
    using le bound fees' by (simp add: unat_sub word_le_nat_alt)
qed

lemma coinage_rewards_keep:
  "check_coinage_rewards rules txs outs st = Returns (ok, st') \<Longrightarrow>
     connect_fees st' = connect_fees st \<and> connect_sigops st' = connect_sigops st"
proof (induction outs arbitrary: st)
  case (Cons out outs)
  show ?case
  proof (cases "is_pay_key_hash_with_lock_height_pattern (output_script out)")
    case True
    then obtain valid where
      "check_get_coinage_reward_transaction rules (txs ! coinage_reward_coinbase_index st) out = Returns valid"
      using Cons.prems by (auto simp: Let_def bind_eq_Some_conv split: if_split_asm)
    then show ?thesis using Cons.prems True Cons.IH
      by (cases valid) (auto simp: Let_def split: if_split_asm dest!: Cons.IH)
  qed (use Cons in simp)
qed simp

abbreviation spent_values :: "block_context \<Rightarrow> transaction \<Rightarrow> nat" where
  "spent_values vb tx \<equiv> (\<Sum>i \<leftarrow> tx_inputs tx. block_spent_value vb i)"

lemma spent_values_nth:
  "(\<Sum>k \<leftarrow> [0..<length (tx_inputs tx)]. block_spent_value vb (tx_inputs tx ! k)) = spent_values vb tx"
proof -
  have "map (\<lambda>k. block_spent_value vb (tx_inputs tx ! k)) [0..<length (tx_inputs tx)] = map (block_spent_value vb) (tx_inputs tx)"
    by (rule nth_equalityI) simp_all
  then show ?thesis by simp
qed

lemma connect_transactions_success:
  assumes "connect_transactions rules vb activations txs xs st = Returns (Inr st')"
    "connect_fees st \<le> max_money"
  shows "list_all (\<lambda>(t, tx). is_coinbase tx \<or>
      list_all (block_input_connected rules vb activations t tx) [0..<length (tx_inputs tx)]) xs \<and>
    connect_fees st' \<le> max_money \<and> (xs \<noteq> [] \<longrightarrow> connect_sigops st' \<le> max_block_script_sigops) \<and>
    unat (connect_fees st') + (\<Sum>(t, tx) \<leftarrow> xs. if is_coinbase tx then 0 else unat (total_output_value tx)) =
      unat (connect_fees st) + (\<Sum>(t, tx) \<leftarrow> xs. if is_coinbase tx then 0 else spent_values vb tx)"
  using assms
proof (induction xs arbitrary: st)
  case (Cons x xs)
  obtain t tx where x: "x = (t, tx)" by (cases x)
  define s where "s = st\<lparr>connect_sigops := connect_sigops st + legacy_sigops_count tx\<rparr>"
  have sigops: "connect_sigops s \<le> max_block_script_sigops" and s: "connect_fees s \<le> max_money" "connect_fees s = connect_fees st"
    using Cons.prems by (auto simp: x s_def Let_def split: if_split_asm)
  show ?case
  proof (cases "is_coinbase tx")
    case True
    then have rest: "connect_transactions rules vb activations txs xs s = Returns (Inr st')"
      using Cons.prems(1) by (auto simp: x s_def Let_def split: if_split_asm)
    show ?thesis using Cons.IH [OF rest s(1)] True s(2) rest sigops by (cases xs) (auto simp: x)
  next
    case False
    then obtain r amount_in n fees where step:
        "check_coinage_rewards rules txs (tx_outputs tx) s = Returns (True, r)"
        "validate_inputs rules vb activations t tx [0..<length (tx_inputs tx)] 0 (connect_sigops r) = Returns (True, amount_in, n)"
        "tally_fees tx amount_in (connect_fees r) = (True, fees)"
        "connect_transactions rules vb activations txs xs (r\<lparr>connect_fees := fees, connect_sigops := n\<rparr>) = Returns (Inr st')"
      using Cons.prems(1) by (auto simp: x s_def Let_def bind_eq_Some_conv split: if_split_asm prod.split_asm)
    note keep = coinage_rewards_keep [OF step(1)]
    note inputs = validate_inputs_success [OF step(2), unfolded spent_values_nth]
    note fees = tally_fees_success [OF step(3)]
    show ?thesis using Cons.IH [OF step(4)] inputs fees keep sigops s False step(4)
      by (cases xs) (auto simp: x)
  qed
qed simp

lemma insert_issues_error: "insert_issues outs assets \<noteq> Returns (Inl Success)"
  by (induction outs arbitrary: assets) (auto simp: bind_eq_Some_conv split: if_split_asm)

lemma check_transactions_success:
  assumes "check_transactions queries txs assets = Returns Success" "tx \<in> set txs"
  shows "check_transaction_basic queries tx = Returns Success"
  using assms
proof (induction txs arbitrary: assets)
  case (Cons t txs)
  from Cons.prems(1) obtain inserted where first: "check_transaction_basic queries t = Returns Success"
    and issues: "insert_issues (tx_outputs t) assets = Returns inserted"
    and rest: "(case inserted of Inl ec \<Rightarrow> Returns ec | Inr assets \<Rightarrow> check_transactions queries txs assets) = Returns Success"
    by (auto simp: bind_eq_Some_conv split: if_split_asm)
  show ?case using Cons.IH Cons.prems(2) first rest issues insert_issues_error [of "tx_outputs t" assets]
    by (cases inserted) auto
qed simp

lemma connect_block_success:
  assumes "connect_block rules vb activations = Returns (Success, h)"
  obtains st where "connect_transactions rules vb activations (block_transactions (vb_block vb))
      (enumerate 0 (block_transactions (vb_block vb)))
      \<lparr>connect_fees = 0, connect_sigops = 0, coinage_reward_coinbase_index = 1, get_coinage_reward_tx_count = 0\<rparr> = Returns (Inr st)"
    "block_transactions (vb_block vb) \<noteq> []"
    "total_output_value (hd (block_transactions (vb_block vb))) \<le> rules_subsidy rules (vb_height vb) + connect_fees st"
proof -
  have never: "find_spent_duplicate rules vb txs \<noteq> Some (Success, k)" for txs k
    by (induction txs) auto
  have inl: "connect_transactions rules vb activations txs xs st \<noteq> Returns (Inl (Success, k))" for txs xs st k
    by (induction xs arbitrary: st) (auto simp: Let_def bind_eq_Some_conv split: prod.split if_split)
  have "(if block_is_active vb activations bip30_enabled
      then find_spent_duplicate rules vb (block_transactions (vb_block vb)) else None) = None"
    using assms never by (auto simp: connect_block_def Let_def split: option.split_asm if_split_asm)
  with assms obtain connected where run:
      "connect_transactions rules vb activations (block_transactions (vb_block vb))
        (enumerate 0 (block_transactions (vb_block vb)))
        \<lparr>connect_fees = 0, connect_sigops = 0, coinage_reward_coinbase_index = 1, get_coinage_reward_tx_count = 0\<rparr> =
       Returns connected"
    by (auto simp: connect_block_def Let_def bind_eq_Some_conv)
  with inl [of "block_transactions (vb_block vb)"] assms obtain st where "connected = Inr st"
    using \<open>(if _ then _ else _) = None\<close> by (cases connected) (auto simp: connect_block_def Let_def)
  then show ?thesis
    using assms \<open>(if _ then _ else _) = None\<close> run that [of st]
    by (auto simp: connect_block_def Let_def linorder_not_less split: if_split_asm list.split_asm)
qed

lemma sum_list_enumerate: "(\<Sum>(t, tx) \<leftarrow> enumerate n txs. f tx) = (\<Sum>tx \<leftarrow> txs. f tx :: nat)"
  by (induction txs arbitrary: n) simp_all

lemma sum_list_unless: "(\<Sum>x \<leftarrow> xs. if P x then 0 else f x) = (\<Sum>x \<leftarrow> filter (\<lambda>x. \<not> P x) xs. f x :: nat)"
  by (induction xs) simp_all

lemma list_all_enumerate: "list_all P (enumerate n txs) \<longleftrightarrow> (\<forall>t < length txs. P (n + t, txs ! t))"
  by (auto simp: list_all_length nth_enumerate_eq)

section \<open>A block to validate\<close>

definition sample_coinbase :: transaction where
  "sample_coinbase = \<lparr>tx_version = 1, tx_locktime = 0,
     tx_inputs = [\<lparr>input_previous_output = \<lparr>point_hash = null_hash, point_index = max_input_sequence\<rparr>,
       input_script = [Op opcode_special [1, 2]], input_sequence = 0\<rparr>],
     tx_outputs = [sample_output 1000]\<rparr>"

definition sample_rules :: "secp256k1 \<Rightarrow> secp256k1_points \<Rightarrow> block_rules" where
  "sample_rules lib curve = \<lparr>rules_testnet = True, rules_checkpoints = [], rules_maturity = 100, rules_stopped = False,
     rules_now = 0, rules_seal = (\<lambda>_. True), rules_subsidy = (\<lambda>_. 1000), rules_lock_reward = (\<lambda>_ _. 0),
     rules_consensus = check_consensus lib, rules_curve = curve\<rparr>"

definition sample_block_context :: block_context where
  "sample_block_context = \<lparr>vb_chain = sample_chain (sample_output 100000), vb_fork_index = 5,
     vb_orphan_chain = [sample_block\<lparr>block_transactions := [sample_coinbase, sample_spend [sample_input] (sample_output 90000)]\<rparr>],
     vb_orphan_index = 0\<rparr>"

lemma sample_versions: "\<not> (2 :: u32) \<le> 1" "\<not> (3 :: u32) \<le> 1"
  by (simp_all add: word_le_nat_alt)

lemma sample_block_checked:
  "check_transactions (vb_chain sample_block_context) (block_transactions (vb_block sample_block_context)) [] = Returns Success"
proof -
  have "check_transaction_basic (sample_chain (sample_output 100000)) sample_coinbase = Returns Success"
    using sample_versions
    by (simp add: check_transaction_basic_def sample_coinbase_def sample_outputs transaction_serialized_size_def
        input_serialized_size_def point_satoshi_fixed_size_def script_serialized_size_def satoshi_content_size_def
        variable_uint_size_def operation_serialized_size_def is_coinbase_def point_is_null_def max_money_def coin_price_def)
  moreover have "check_transaction_basic (sample_chain (sample_output 100000)) (sample_spend [sample_input] (sample_output 90000)) =
      Returns Success"
    using sample_check [of "[sample_input]" "sample_output 90000" "sample_output 100000"]
    by (auto simp: sample_outputs sample_amounts check_transaction_def bind_eq_Some_conv split: if_split_asm)
  moreover have "tx_outputs sample_coinbase = [sample_output 1000]" by (simp add: sample_coinbase_def)
  ultimately show ?thesis by (simp add: sample_block_context_def vb_block_def sample_outputs)
qed

lemma sample_block_input:
  "block_connect_input (sample_rules lib curve) sample_block_context all_enabled 1 (sample_spend [sample_input] (sample_output 90000))
     0 0 0 = Returns (True, 100000, 0)"
proof -
  let ?tx = "sample_spend [sample_input] (sample_output 90000)" and ?p = "input_previous_output sample_input"
  have none: "pattern [] = Non_standard" by code_simp
  have amount: "\<not> max_money < (100000 :: u64)" by (simp add: max_money_def coin_price_def)
  have "fetch_transaction sample_block_context (point_hash ?p) = Some (sample_parent (sample_output 100000), 3)"
    by (simp add: fetch_transaction_def sample_block_context_def sample_chain_def sample_input_def)
  moreover have "\<not> is_output_spent sample_block_context ?p 1 0"
    by (simp add: is_output_spent_def is_output_spent_in_chain_def orphan_is_spent_def orphan_inputs_def orphans_to_here_def
        sample_block_context_def sample_coinbase_def sample_input_def)
  moreover have "check_consensus lib [] ?tx 0 all_enabled = Returns True" by (rule sample_consensus) simp_all
  ultimately show ?thesis
    using none amount
    by (simp add: block_connect_input_def Let_def sample_parent_def sample_outputs is_coinbase_def
        script_hash_signature_operations_count_def sample_rules_def linorder_not_less)
qed

lemma sample_block_connected:
  "connect_block (sample_rules lib curve) sample_block_context all_enabled = Returns (Success, null_hash)"
proof -
  let ?tx = "sample_spend [sample_input] (sample_output 90000)"
  have txs: "block_transactions (vb_block sample_block_context) = [sample_coinbase, ?tx]"
    by (simp add: sample_block_context_def vb_block_def)
  have counts: "legacy_sigops_count sample_coinbase = 0" "legacy_sigops_count ?tx = 0"
    by (simp_all add: legacy_sigops_count_def sample_coinbase_def sample_input_def sample_outputs)
  have kinds: "is_coinbase sample_coinbase" "\<not> is_coinbase ?tx"
    by (simp_all add: sample_coinbase_def is_coinbase_def point_is_null_def)
  have fees: "tally_fees ?tx 100000 0 = (True, 10000)"
    by (simp add: tally_fees_def total_output_value_def sample_outputs sample_amounts)
  have reward: "total_output_value sample_coinbase = 1000"
    by (simp add: total_output_value_def sample_coinbase_def sample_outputs)
  have rules: "rules_stopped (sample_rules lib curve) = False" "rules_subsidy (sample_rules lib curve) h = 1000" for h
    by (simp_all add: sample_rules_def)
  have "\<not> block_is_active sample_block_context all_enabled bip30_enabled" by (simp add: block_is_active_def)
  then show ?thesis
    using sample_block_input [of lib curve]
    by (simp add: connect_block_def txs counts kinds rules sample_outputs fees reward Let_def)
qed

section \<open>Properties\<close>



end
