(* ===== verification/Orphan_Pool.thy ===== *)
theory Orphan_Pool
  imports Validate_Block
begin

text \<open>
  The blocks that are not in the chain yet: \<open>block_detail.cpp\<close> and \<open>orphan_pool.cpp\<close>. A
  block detail is shared by pointers, through which the organizer changes it: the details are kept in a list and a
  pointer is a position in it. The locks are not modelled: the organizer is called under one lock.
\<close>

section \<open>Block details\<close>

text \<open>The height 0 stands for an orphan.\<close>

record block_detail =
  detail_error :: error_code
  detail_processed :: bool
  detail_height :: u64
  detail_actual :: block
  detail_checked :: bool

definition new_detail :: "block \<Rightarrow> block_detail" where
  "new_detail actual_block = \<lparr>detail_error = Success, detail_processed = False, detail_height = 0,
     detail_actual = actual_block, detail_checked = False\<rparr>"

type_synonym detail_ptr = nat

definition detail_hash :: "block_detail \<Rightarrow> hash_digest" where
  "detail_hash d = header_hash (block_header (detail_actual d))"

abbreviation detail_previous :: "block_detail \<Rightarrow> hash_digest" where
  "detail_previous d \<equiv> hdr_previous_block_hash (block_header (detail_actual d))"

section \<open>The pool\<close>

text \<open>The multimap of pending blocks keeps the order in which entries of one key were inserted.\<close>

record orphan_pool =
  orphan_buffer :: "detail_ptr list"
  pending_blocks :: "(hash_digest \<times> detail_ptr) list"
  pending_blocks_hash :: "hash_digest set"

definition orphan_pool_create :: orphan_pool where
  "orphan_pool_create = \<lparr>orphan_buffer = [], pending_blocks = [], pending_blocks_hash = {}\<rparr>"

definition exists_hash :: "block_detail list \<Rightarrow> orphan_pool \<Rightarrow> hash_digest \<Rightarrow> bool" where
  "exists_hash details pool hash = list_ex (\<lambda>entry. hash = detail_hash (details ! entry)) (orphan_buffer pool)"

definition exists_header :: "block_detail list \<Rightarrow> orphan_pool \<Rightarrow> header \<Rightarrow> bool" where
  "exists_header details pool head =
     list_ex (\<lambda>entry. header_equal head (block_header (detail_actual (details ! entry)))) (orphan_buffer pool)"

definition orphan_add :: "block_detail list \<Rightarrow> detail_ptr \<Rightarrow> orphan_pool \<Rightarrow> bool \<times> orphan_pool" where
  "orphan_add details block pool =
     (if exists_header details pool (block_header (detail_actual (details ! block))) then (False, pool)
      else (True, pool\<lparr>orphan_buffer := orphan_buffer pool @ [block]\<rparr>))"

text \<open>The first entry is erased.\<close>

definition orphan_remove :: "detail_ptr \<Rightarrow> orphan_pool \<Rightarrow> orphan_pool" where
  "orphan_remove block pool = pool\<lparr>orphan_buffer := remove1 block (orphan_buffer pool)\<rparr>"

text \<open>Of the hashes of a message, those of other kinds and those of blocks that are not in the pool.\<close>

definition orphan_filter :: "block_detail list \<Rightarrow> orphan_pool \<Rightarrow> (bool \<times> hash_digest) list \<Rightarrow> (bool \<times> hash_digest) list" where
  "orphan_filter details pool inventories =
     filter (\<lambda>(is_block_type, hash). \<not> (is_block_type \<and> exists_hash details pool hash)) inventories"

text \<open>\<open>rfind\<close> gives the position it finds and what is before it, from the last entry backwards.\<close>

definition rfind :: "block_detail list \<Rightarrow> detail_ptr list \<Rightarrow> hash_digest \<Rightarrow> detail_ptr list" where
  "rfind details from hash = dropWhile (\<lambda>entry. hash \<noteq> detail_hash (details ! entry)) from"

text \<open>
  The search for the parent starts at the child. So a block whose hash is its own previous hash would make the loop run
  forever, and a parent that is behind its child in the pool is not found.
\<close>

partial_function (option) trace_loop :: "block_detail list \<Rightarrow> detail_ptr list \<Rightarrow> hash_digest \<Rightarrow> detail_ptr list \<Rightarrow> detail_ptr list outcome" where
  "trace_loop details from hash trace =
     (case rfind details from hash of
        [] \<Rightarrow> Returns trace
      | it # before \<Rightarrow> trace_loop details (it # before) (detail_previous (details ! it)) (it # trace))"

definition orphan_trace :: "block_detail list \<Rightarrow> orphan_pool \<Rightarrow> detail_ptr \<Rightarrow> detail_ptr list outcome" where
  "orphan_trace details pool end_ptr =
     trace_loop details (rev (orphan_buffer pool)) (detail_previous (details ! end_ptr)) [end_ptr]"

definition unprocessed :: "block_detail list \<Rightarrow> orphan_pool \<Rightarrow> detail_ptr list" where
  "unprocessed details pool = filter (\<lambda>it. \<not> detail_processed (details ! it)) (rev (orphan_buffer pool))"

definition add_pending_block :: "block_detail list \<Rightarrow> hash_digest \<Rightarrow> detail_ptr \<Rightarrow> orphan_pool \<Rightarrow> bool \<times> orphan_pool" where
  "add_pending_block details needed_block pending_block pool =
     (let hash = detail_hash (details ! pending_block) in
      if hash \<in> pending_blocks_hash pool then (False, pool)
      else (True, pool\<lparr>pending_blocks := pending_blocks pool @ [(needed_block, pending_block)],
                       pending_blocks_hash := insert hash (pending_blocks_hash pool)\<rparr>))"

definition delete_pending_block :: "block_detail list \<Rightarrow> hash_digest \<Rightarrow> orphan_pool \<Rightarrow> detail_ptr option \<times> orphan_pool" where
  "delete_pending_block details needed_block pool =
     (case find (\<lambda>(needed, _). needed = needed_block) (pending_blocks pool) of
        None \<Rightarrow> (None, pool)
      | Some entry \<Rightarrow>
          (Some (snd entry), pool\<lparr>pending_blocks := remove1 entry (pending_blocks pool),
             pending_blocks_hash := pending_blocks_hash pool - {detail_hash (details ! snd entry)}\<rparr>))"

section \<open>The trace of a block\<close>

text \<open>Blocks that follow each other: each one names the hash of the one before.\<close>

definition linked :: "block list \<Rightarrow> bool" where
  "linked bs = successively (\<lambda>a b. hdr_previous_block_hash (block_header b) = header_hash (block_header a)) bs"

abbreviation blocks_at :: "block_detail list \<Rightarrow> detail_ptr list \<Rightarrow> block list" where
  "blocks_at details ps \<equiv> map (\<lambda>p. detail_actual (details ! p)) ps"

lemma rfind_finds:
  assumes "rfind details from hash = it # before"
  shows "detail_hash (details ! it) = hash" "set (it # before) \<subseteq> set from"
proof -
  show "detail_hash (details ! it) = hash" using assms by (simp add: rfind_def dropWhile_eq_Cons_conv)
  have "set (rfind details from hash) \<subseteq> set from" unfolding rfind_def by (blast dest: set_dropWhileD)
  then show "set (it # before) \<subseteq> set from" by (simp add: assms)
qed

lemma trace_loop_linked:
  assumes "trace_loop details from hash trace = Returns ps"
  shows "trace \<noteq> [] \<longrightarrow> linked (blocks_at details trace) \<longrightarrow> hash = detail_previous (details ! hd trace) \<longrightarrow>
    linked (blocks_at details ps) \<and> last ps = last trace \<and> ps \<noteq> [] \<and> set ps \<subseteq> set trace \<union> set from"
proof (rule trace_loop.raw_induct [OF _ assms])
  fix rec details "from" hash trace ps
  assume rec: "\<And>details from hash trace ps. rec details from hash trace = Returns ps \<Longrightarrow>
      trace \<noteq> [] \<longrightarrow> linked (blocks_at details trace) \<longrightarrow> hash = detail_previous (details ! hd trace) \<longrightarrow>
      linked (blocks_at details ps) \<and> last ps = last trace \<and> ps \<noteq> [] \<and> set ps \<subseteq> set trace \<union> set from"
    and body: "(case rfind details from hash of [] \<Rightarrow> Returns trace
      | it # before \<Rightarrow> rec details (it # before) (detail_previous (details ! it)) (it # trace)) = Returns ps"
  show "trace \<noteq> [] \<longrightarrow> linked (blocks_at details trace) \<longrightarrow> hash = detail_previous (details ! hd trace) \<longrightarrow>
      linked (blocks_at details ps) \<and> last ps = last trace \<and> ps \<noteq> [] \<and> set ps \<subseteq> set trace \<union> set from"
  proof (cases "rfind details from hash")
    case Nil
    then show ?thesis using body by auto
  next
    case (Cons it before)
    note found = rfind_finds [OF Cons]
    have next_rec: "rec details (it # before) (detail_previous (details ! it)) (it # trace) = Returns ps" using body Cons by simp
    show ?thesis
    proof (intro impI)
      assume t: "trace \<noteq> []" "linked (blocks_at details trace)" "hash = detail_previous (details ! hd trace)"
      have "linked (blocks_at details (it # trace))"
        using t found(1) by (cases trace) (auto simp: linked_def detail_hash_def)
      then show "linked (blocks_at details ps) \<and> last ps = last trace \<and> ps \<noteq> [] \<and> set ps \<subseteq> set trace \<union> set from"
        using rec [OF next_rec] t(1) found(2) by auto
    qed
  qed
qed

lemma orphan_trace_linked:
  assumes "orphan_trace details pool p = Returns ps"
  shows "linked (blocks_at details ps)" "last ps = p" "ps \<noteq> []" "set ps \<subseteq> insert p (set (orphan_buffer pool))"
  using trace_loop_linked [OF assms [unfolded orphan_trace_def]] by (auto simp: linked_def)

text \<open>The search ends when no block of the pool is its own parent.\<close>

lemma trace_loop_returns:
  assumes "\<forall>p \<in> set from. detail_previous (details ! p) \<noteq> detail_hash (details ! p)"
  shows "\<exists>ps. trace_loop details from hash trace = Returns ps"
  using assms
proof (induction "length from" arbitrary: "from" hash trace rule: less_induct)
  case less
  show ?case
  proof (cases "rfind details from hash")
    case Nil
    then show ?thesis by (subst trace_loop.simps) simp
  next
    case (Cons it before)
    have len: "length before < length from"
      using length_dropWhile_le [of "\<lambda>entry. hash \<noteq> detail_hash (details ! entry)" "from"] Cons by (simp add: rfind_def)
    have sub: "set (it # before) \<subseteq> set from" by (rule rfind_finds(2) [OF Cons])
    have "rfind details (it # before) (detail_previous (details ! it)) = rfind details before (detail_previous (details ! it))"
      using less.prems sub by (simp add: rfind_def)
    then have "trace_loop details (it # before) (detail_previous (details ! it)) (it # trace) =
        trace_loop details before (detail_previous (details ! it)) (it # trace)"
      unfolding trace_loop.simps [of details "it # before"] trace_loop.simps [of details before] by simp
    then show ?thesis
      using less.hyps [OF len, of "detail_previous (details ! it)" "it # trace"] less.prems sub Cons by (subst trace_loop.simps) auto
  qed
qed

end
