(* ===== verification/Organizer.thy ===== *)
theory Organizer
  imports Orphan_Pool
begin

text \<open>
  The organization of the chain: \<open>organizer.cpp\<close>, over the interface \<open>simple_chain\<close>, which
  \<open>block_chain_impl\<close> implements on the database, and \<open>block_chain_impl::do_store\<close>. The operations of the
  interface are a record of functions on a state of the chain. What is sent to other threads is kept in lists: the
  transactions to delete from the memory pool and the notifications of the subscribers. The request to stop does not
  change during one call. Log messages are not modelled, except that one of them reads the first output of the first
  transaction of a block.
\<close>

section \<open>The interface of the chain\<close>

record 'chain simple_chain =
  chain_queries_of :: "'chain \<Rightarrow> chain_queries"
  chain_get_height :: "'chain \<Rightarrow> hash_digest \<Rightarrow> u64 option outcome"
  chain_get_asset_height :: "'chain \<Rightarrow> bytes \<Rightarrow> u64 option outcome"
  chain_get_difficulty :: "'chain \<Rightarrow> u64 \<Rightarrow> u256 option outcome"
  chain_push :: "block \<Rightarrow> 'chain \<Rightarrow> 'chain outcome"
  chain_pop_from :: "u64 \<Rightarrow> 'chain \<Rightarrow> (block list option \<times> 'chain) outcome"

definition block_work :: "u256 \<Rightarrow> u256" where
  "block_work bits = bits"

section \<open>The state\<close>

record 'chain organizer =
  organizer_chain :: 'chain
  organizer_details :: "block_detail list"
  organizer_pool :: orphan_pool
  process_queue :: "detail_ptr list"
  fork_chain_last_block_hashes :: "hash_digest set"
  deleted_txs :: "hash_digest list"
  notifications :: "(u64 \<times> block list \<times> block list) list"

definition update_detail :: "detail_ptr \<Rightarrow> (block_detail \<Rightarrow> block_detail) \<Rightarrow> 'chain organizer \<Rightarrow> 'chain organizer" where
  "update_detail p f st = st\<lparr>organizer_details := (organizer_details st)[p := f (organizer_details st ! p)]\<rparr>"

abbreviation detail_at :: "'chain organizer \<Rightarrow> detail_ptr \<Rightarrow> block_detail" where
  "detail_at st p \<equiv> organizer_details st ! p"

definition set_processed :: "detail_ptr \<Rightarrow> 'chain organizer \<Rightarrow> 'chain organizer" where
  "set_processed p = update_detail p (\<lambda>d. d\<lparr>detail_processed := True\<rparr>)"

definition set_height :: "detail_ptr \<Rightarrow> u64 \<Rightarrow> 'chain organizer \<Rightarrow> 'chain organizer" where
  "set_height p height = update_detail p (\<lambda>d. d\<lparr>detail_height := height\<rparr>)"

definition set_error :: "detail_ptr \<Rightarrow> error_code \<Rightarrow> 'chain organizer \<Rightarrow> 'chain organizer" where
  "set_error p ec = update_detail p (\<lambda>d. d\<lparr>detail_error := ec\<rparr>)"

definition set_is_checked_work_proof :: "detail_ptr \<Rightarrow> 'chain organizer \<Rightarrow> 'chain organizer" where
  "set_is_checked_work_proof p = update_detail p (\<lambda>d. d\<lparr>detail_checked := True\<rparr>)"

definition organizer_add :: "detail_ptr \<Rightarrow> 'chain organizer \<Rightarrow> bool \<times> 'chain organizer" where
  "organizer_add block st =
     (let (added, pool) = orphan_add (organizer_details st) block (organizer_pool st)
      in (added, st\<lparr>organizer_pool := pool\<rparr>))"

definition add_fork_chain_hash :: "hash_digest \<Rightarrow> 'chain organizer \<Rightarrow> 'chain organizer" where
  "add_fork_chain_hash hash st = st\<lparr>fork_chain_last_block_hashes := insert hash (fork_chain_last_block_hashes st)\<rparr>"

definition delete_fork_chain_hash :: "hash_digest \<Rightarrow> 'chain organizer \<Rightarrow> 'chain organizer" where
  "delete_fork_chain_hash hash st = st\<lparr>fork_chain_last_block_hashes := fork_chain_last_block_hashes st - {hash}\<rparr>"

definition remove_processed :: "detail_ptr \<Rightarrow> 'chain organizer \<Rightarrow> 'chain organizer" where
  "remove_processed remove_block st = st\<lparr>process_queue := remove1 remove_block (process_queue st)\<rparr>"

section \<open>Verification of a block\<close>

text \<open>The checkpoints are in the order of their heights.\<close>

definition strict :: "block_rules \<Rightarrow> u64 \<Rightarrow> bool" where
  "strict rules fork_point \<longleftrightarrow> rules_checkpoints rules = [] \<or> fork_point \<ge> snd (last (rules_checkpoints rules))"

text \<open>The symbols that the outputs issue; \<open>None\<close> is a symbol that comes twice.\<close>

primrec issued_assets :: "tx_output list \<Rightarrow> bytes list \<Rightarrow> bytes list option outcome" where
  "issued_assets [] assets = Returns (Some assets)"
| "issued_assets (out # outs) assets = do {
     issue \<leftarrow> is_asset_issue out;
     (if issue then do {
        symbol \<leftarrow> get_asset_symbol out;
        (if symbol \<in> set assets then Returns None else issued_assets outs (symbol # assets)) }
      else issued_assets outs assets) }"

primrec assets_below :: "(bytes \<Rightarrow> u64 option outcome) \<Rightarrow> u64 \<Rightarrow> bytes list \<Rightarrow> bool outcome" where
  "assets_below height_of fork_point [] = Returns False"
| "assets_below height_of fork_point (symbol # symbols) = do {
     height \<leftarrow> height_of symbol;
     (case height of
        Some h \<Rightarrow> if h \<le> fork_point then Returns True else assets_below height_of fork_point symbols
      | None \<Rightarrow> assets_below height_of fork_point symbols) }"

primrec issues_again :: "bytes list \<Rightarrow> tx_output list \<Rightarrow> bool outcome" where
  "issues_again assets [] = Returns False"
| "issues_again assets (out # outs) = do {
     issue \<leftarrow> is_asset_issue out;
     (if issue then do {
        symbol \<leftarrow> get_asset_symbol out;
        (if symbol \<in> set assets then Returns True else issues_again assets outs) }
      else issues_again assets outs) }"

abbreviation block_outputs :: "block \<Rightarrow> tx_output list" where
  "block_outputs b \<equiv> concat (map tx_outputs (block_transactions b))"

text \<open>
  The loop over the orphans below the block looks at the parent every time. The set of symbols is kept in another
  order than by \<open>std::set\<close>, which no result depends on.
\<close>

definition verify_asset_exist :: "'chain simple_chain \<Rightarrow> 'chain \<Rightarrow> u64 \<Rightarrow> block list \<Rightarrow> nat \<Rightarrow> error_code outcome" where
  "verify_asset_exist ops chain_state fork_point orphan_chain orphan_index = do {
     symbols \<leftarrow> issued_assets (block_outputs (orphan_chain ! orphan_index)) [];
     (case symbols of
        None \<Rightarrow> Returns Asset_exist
      | Some assets \<Rightarrow>
          if assets = [] then Returns Success
          else do {
            below \<leftarrow> assets_below (chain_get_asset_height ops chain_state) fork_point assets;
            (if below then Returns Asset_exist
             else if orphan_index = 0 then Returns Success
             else do {
               again \<leftarrow> issues_again assets (block_outputs (orphan_chain ! (orphan_index - 1)));
               Returns (if again then Asset_exist else Success) }) }) }"

text \<open>
  The error and the transaction to delete from the memory pool. The result of \<open>verify_asset_exist\<close> is lost: the one
  of \<open>connect_block\<close> replaces it.
\<close>

definition verify :: "'chain simple_chain \<Rightarrow> block_rules \<Rightarrow> 'chain \<Rightarrow> u64 \<Rightarrow> block list \<Rightarrow> nat \<Rightarrow> (error_code \<times> hash_digest list) outcome" where
  "verify ops rules chain_state fork_point orphan_chain orphan_index =
     (let vb = \<lparr>vb_chain = chain_queries_of ops chain_state, vb_fork_index = fork_point,
                vb_orphan_chain = orphan_chain, vb_orphan_index = orphan_index\<rparr>
      in if rules_stopped rules then Returns (Service_stopped, [])
         else do {
           ec \<leftarrow> check_block rules vb;
           (if ec \<noteq> Success then Returns (ec, [])
            else do {
              (activations, minimum_version) \<leftarrow> initialize_context rules vb;
              ec \<leftarrow> accept_block rules vb activations minimum_version;
              (if ec \<noteq> Success \<or> \<not> strict rules fork_point then Returns (ec, [])
               else do {
                 _ \<leftarrow> verify_asset_exist ops chain_state fork_point orphan_chain orphan_index;
                 (ec, err_tx) \<leftarrow> connect_block rules vb activations;
                 Returns (ec, if ec \<noteq> Success \<and> err_tx \<noteq> null_hash then [err_tx] else []) }) }) })"

section \<open>Replacement of the chain\<close>

primrec clip_loop :: "error_code \<Rightarrow> detail_ptr list \<Rightarrow> 'chain organizer \<Rightarrow> 'chain organizer" where
  "clip_loop reason [] st = st"
| "clip_loop reason (it # rest) st =
     (let st = remove_processed it (set_processed it (set_error it reason st))
      in clip_loop Previous_block_invalid rest (st\<lparr>organizer_pool := orphan_remove it (organizer_pool st)\<rparr>))"

text \<open>The clipped chain and the state.\<close>

definition clip_orphans :: "detail_ptr list \<Rightarrow> nat \<Rightarrow> error_code \<Rightarrow> 'chain organizer \<Rightarrow> detail_ptr list \<times> 'chain organizer" where
  "clip_orphans orphan_chain orphan_index invalid_reason st =
     (take orphan_index orphan_chain, clip_loop invalid_reason (drop orphan_index orphan_chain) st)"

text \<open>The loop of \<open>replace_chain\<close> over the orphans: the chain that is left, its work and the state.\<close>

primrec verify_orphans ::
  "'chain simple_chain \<Rightarrow> block_rules \<Rightarrow> u64 \<Rightarrow> detail_ptr list \<Rightarrow> nat list \<Rightarrow> u256 \<Rightarrow> 'chain organizer \<Rightarrow>
     (detail_ptr list \<times> u256 \<times> 'chain organizer) outcome" where
  "verify_orphans ops rules fork_index orphan_chain [] orphan_work st = Returns (orphan_chain, orphan_work, st)"
| "verify_orphans ops rules fork_index orphan_chain (orphan # rest) orphan_work st =
     (let p = orphan_chain ! orphan;
          orphan_block = detail_actual (detail_at st p);
          work = orphan_work + block_work (hdr_bits (block_header orphan_block))
      in if detail_checked (detail_at st p) then verify_orphans ops rules fork_index orphan_chain rest work st
         else do {
           (ec, deleted) \<leftarrow> verify ops rules (organizer_chain st) fork_index (blocks_at (organizer_details st) orphan_chain) orphan;
           (let st = st\<lparr>deleted_txs := deleted_txs st @ deleted\<rparr>
            in if ec \<noteq> Success then
                 (let (orphan_chain, st) = clip_orphans orphan_chain orphan ec st in Returns (orphan_chain, orphan_work, st))
               else verify_orphans ops rules fork_index orphan_chain rest work (set_is_checked_work_proof p st)) })"

text \<open>The orphans move from the pool into the chain.\<close>

primrec push_arrivals :: "'chain simple_chain \<Rightarrow> u64 \<Rightarrow> detail_ptr list \<Rightarrow> 'chain organizer \<Rightarrow> 'chain organizer outcome" where
  "push_arrivals ops arrival_index [] st = Returns st"
| "push_arrivals ops arrival_index (arrival_block # rest) st =
     (let arrival_index = arrival_index + 1;
          st = set_height arrival_block arrival_index (st\<lparr>organizer_pool := orphan_remove arrival_block (organizer_pool st)\<rparr>)
      in do {
        state \<leftarrow> chain_push ops (detail_actual (detail_at st arrival_block)) (organizer_chain st);
        push_arrivals ops arrival_index rest (st\<lparr>organizer_chain := state\<rparr>) })"

text \<open>A block that left the chain gets a new detail, which is processed, and goes to the pool.\<close>

primrec add_released :: "block list \<Rightarrow> 'chain organizer \<Rightarrow> 'chain organizer outcome" where
  "add_released [] st = Returns st"
| "add_released (b # released_blocks) st =
     (let p = length (organizer_details st);
          st = st\<lparr>organizer_details := organizer_details st @ [(new_detail b)\<lparr>detail_processed := True\<rparr>]\<rparr>
      in if block_transactions b = [] \<or> tx_outputs (hd (block_transactions b)) = [] then Abnormal
         else add_released released_blocks (snd (organizer_add p st)))"

text \<open>The chain that is left of the orphans and the state.\<close>

definition replace_chain ::
  "'chain simple_chain \<Rightarrow> block_rules \<Rightarrow> u64 \<Rightarrow> detail_ptr list \<Rightarrow> 'chain organizer \<Rightarrow> (detail_ptr list \<times> 'chain organizer) outcome" where
  "replace_chain ops rules fork_index orphan_chain st = do {
     (orphan_chain, orphan_work, st) \<leftarrow> verify_orphans ops rules fork_index orphan_chain [0..<length orphan_chain] 0 st;
     (if orphan_chain = [] then Returns ([], st)
      else do {
        let begin_index = fork_index + 1;
        difficulty \<leftarrow> chain_get_difficulty ops (organizer_chain st) begin_index;
        main_work \<leftarrow> difficulty;
        let back_ptr = last orphan_chain;
        let st = delete_fork_chain_hash (detail_previous (detail_at st back_ptr)) st;
        (if orphan_work \<le> main_work then
           (let st = (if length orphan_chain mod 500 = 0 then set_error back_ptr Fetch_more_block st else st)
            in Returns (orphan_chain, add_fork_chain_hash (detail_hash (detail_at st back_ptr)) st))
         else do {
           (popped_blocks, state) \<leftarrow> chain_pop_from ops begin_index (organizer_chain st);
           let released_blocks = (case popped_blocks of Some bs \<Rightarrow> bs | None \<Rightarrow> []);
           st \<leftarrow> push_arrivals ops fork_index orphan_chain (st\<lparr>organizer_chain := state\<rparr>);
           st \<leftarrow> add_released released_blocks st;
           Returns (orphan_chain, st\<lparr>notifications := notifications st @
             [(fork_index, blocks_at (organizer_details st) orphan_chain, released_blocks)]\<rparr>) }) }) }"

section \<open>Processing the orphans\<close>

text \<open>The pending blocks that wait for the hash.\<close>

primrec delete_pending :: "nat \<Rightarrow> hash_digest \<Rightarrow> 'chain organizer \<Rightarrow> detail_ptr list \<times> 'chain organizer" where
  "delete_pending 0 hash st = ([], st)"
| "delete_pending (Suc n) hash st =
     (case delete_pending_block (organizer_details st) hash (organizer_pool st) of
        (None, _) \<Rightarrow> ([], st)
      | (Some p, pool) \<Rightarrow> (let (ps, st) = delete_pending n hash (st\<lparr>organizer_pool := pool\<rparr>) in (p # ps, st)))"

text \<open>One round of \<open>process\<close>: the blocks to process next and the state.\<close>

definition process_step :: "'chain simple_chain \<Rightarrow> block_rules \<Rightarrow> detail_ptr \<Rightarrow> 'chain organizer \<Rightarrow> (detail_ptr list \<times> 'chain organizer) outcome" where
  "process_step ops rules process_block st = do {
     orphan_chain \<leftarrow> orphan_trace (organizer_details st) (organizer_pool st) process_block;
     let hash = detail_previous (detail_at st (hd orphan_chain));
     fork \<leftarrow> chain_get_height ops (organizer_chain st) hash;
     (released_ptrs, st) \<leftarrow>
       (case fork of
          Some fork_index \<Rightarrow> do {
            (orphan_chain, st) \<leftarrow> replace_chain ops rules fork_index orphan_chain st;
            Returns (if orphan_chain = [] then ([], st)
              else delete_pending (length (pending_blocks (organizer_pool st))) (detail_hash (detail_at st (last orphan_chain))) st) }
        | None \<Rightarrow>
            Returns ([], st\<lparr>organizer_pool := snd (add_pending_block (organizer_details st) hash (last orphan_chain) (organizer_pool st))\<rparr>));
     Returns (released_ptrs, set_processed process_block st) }"

section \<open>What the steps keep\<close>

text \<open>The pointers point to details.\<close>

definition pointers_valid :: "'chain organizer \<Rightarrow> bool" where
  "pointers_valid st \<longleftrightarrow>
     set (orphan_buffer (organizer_pool st)) \<union> set (process_queue st) \<union> snd ` set (pending_blocks (organizer_pool st))
       \<subseteq> {..<length (organizer_details st)}"

text \<open>
  A detail keeps its block and stays processed; a block leaves the queue only when it is processed, and only
  processed blocks join the pool.
\<close>

definition advances :: "'chain organizer \<Rightarrow> 'chain organizer \<Rightarrow> bool" where
  "advances st st' \<longleftrightarrow>
     length (organizer_details st) \<le> length (organizer_details st') \<and>
     (\<forall>p < length (organizer_details st). detail_actual (detail_at st' p) = detail_actual (detail_at st p) \<and>
        (detail_processed (detail_at st p) \<longrightarrow> detail_processed (detail_at st' p))) \<and>
     length (process_queue st') \<le> length (process_queue st) \<and>
     (\<forall>p \<in> set (process_queue st) - set (process_queue st'). detail_processed (detail_at st' p)) \<and>
     (\<forall>p \<in> set (orphan_buffer (organizer_pool st')) - set (orphan_buffer (organizer_pool st)). detail_processed (detail_at st' p))"

lemma advances_refl: "advances st st"
  by (simp add: advances_def)

lemma advances_trans:
  assumes "advances st st'" "advances st' st''" "pointers_valid st'"
    "set (process_queue st) \<subseteq> {..<length (organizer_details st)}"
  shows "advances st st''"
proof -
  have later: "detail_processed (detail_at st'' p)" if "p < length (organizer_details st')" "detail_processed (detail_at st' p)" for p
    using assms(2) that by (simp add: advances_def)
  have len: "length (organizer_details st) \<le> length (organizer_details st')" using assms(1) by (simp add: advances_def)
  have "detail_processed (detail_at st'' p)" if "p \<in> set (process_queue st)" "p \<notin> set (process_queue st'')" for p
  proof (cases "p \<in> set (process_queue st')")
    case True
    then show ?thesis using assms(2) that(2) by (simp add: advances_def)
  next
    case False
    then have "detail_processed (detail_at st' p)" using assms(1) that(1) by (simp add: advances_def)
    moreover have "p < length (organizer_details st)" using assms(4) that(1) by blast
    ultimately show ?thesis using later len by simp
  qed
  moreover have "detail_processed (detail_at st'' p)"
    if "p \<in> set (orphan_buffer (organizer_pool st''))" "p \<notin> set (orphan_buffer (organizer_pool st))" for p
  proof (cases "p \<in> set (orphan_buffer (organizer_pool st'))")
    case True
    then have "p < length (organizer_details st')" using assms(3) by (auto simp: pointers_valid_def)
    then show ?thesis using later assms(1) True that(2) by (simp add: advances_def)
  next
    case False
    then show ?thesis using assms(2) that(1) by (simp add: advances_def)
  qed
  moreover have "detail_actual (detail_at st'' p) = detail_actual (detail_at st p) \<and>
      (detail_processed (detail_at st p) \<longrightarrow> detail_processed (detail_at st'' p))" if "p < length (organizer_details st)" for p
    using assms(1,2) that len by (simp add: advances_def)
  ultimately show ?thesis using assms(1,2) by (simp add: advances_def)
qed

text \<open>Steps that change nothing of the pending blocks.\<close>

definition moves :: "'chain organizer \<Rightarrow> 'chain organizer \<Rightarrow> bool" where
  "moves st st' \<longleftrightarrow> advances st st' \<and> pointers_valid st' \<and> pending_blocks (organizer_pool st') = pending_blocks (organizer_pool st)"

lemma moves_refl: "pointers_valid st \<Longrightarrow> moves st st"
  by (simp add: moves_def advances_refl)

lemma queue_valid: "pointers_valid st \<Longrightarrow> set (process_queue st) \<subseteq> {..<length (organizer_details st)}"
  by (simp add: pointers_valid_def)

lemma moves_trans:
  assumes "moves st st'" "moves st' st''" "pointers_valid st"
  shows "moves st st''"
  using assms advances_trans [of st st' st''] queue_valid [of st] by (simp add: moves_def)

lemma moves_length:
  assumes "moves st st'" "set ps \<subseteq> {..<length (organizer_details st)}"
  shows "set ps \<subseteq> {..<length (organizer_details st')}"
  using order.trans [OF assms(2)] assms(1) by (simp add: moves_def advances_def)

lemma moves_actual:
  assumes "moves st st'" "p < length (organizer_details st)"
  shows "detail_actual (detail_at st' p) = detail_actual (detail_at st p)"
  using assms by (simp add: moves_def advances_def)

lemma moves_blocks:
  assumes "moves st st'" "set ps \<subseteq> {..<length (organizer_details st)}"
  shows "blocks_at (organizer_details st') ps = blocks_at (organizer_details st) ps"
  using assms(2) by (auto intro!: moves_actual [OF assms(1)])

lemmas moves_valid = moves_def [THEN iffD1, THEN conjunct2, THEN conjunct1]

lemma update_detail_moves:
  assumes "pointers_valid st" "\<And>d. detail_actual (f d) = detail_actual d" "\<And>d. detail_processed d \<Longrightarrow> detail_processed (f d)"
  shows "moves st (update_detail p f st)"
  using assms
  by (cases "p < length (organizer_details st)")
    (simp_all add: moves_def advances_def pointers_valid_def update_detail_def nth_list_update list_update_beyond)

lemma setters_move:
  assumes "pointers_valid st"
  shows "moves st (set_processed p st)" "moves st (set_height p h st)" "moves st (set_error p ec st)"
    "moves st (set_is_checked_work_proof p st)"
  unfolding set_processed_def set_height_def set_error_def set_is_checked_work_proof_def
  by (rule update_detail_moves; simp add: assms)+

lemma dequeue_moves:
  assumes "pointers_valid st" "p < length (organizer_details st)" "detail_processed (detail_at st p)"
  shows "moves st (remove_processed p st)"
proof -
  have "set (process_queue st) - set (remove1 p (process_queue st)) \<subseteq> {p}"
    by (metis DiffE in_set_remove1 insertI1 subsetI)
  then show ?thesis
    using assms set_remove1_subset [of p "process_queue st"] length_remove1 [of p "process_queue st"]
    by (auto simp: moves_def advances_def pointers_valid_def remove_processed_def split: if_split_asm)
qed

lemma unpool_moves:
  assumes "pointers_valid st"
  shows "moves st (st\<lparr>organizer_pool := orphan_remove p (organizer_pool st)\<rparr>)"
  using assms set_remove1_subset [of p "orphan_buffer (organizer_pool st)"]
  by (auto simp: moves_def advances_def pointers_valid_def orphan_remove_def)

lemma clip_loop_moves:
  assumes "pointers_valid st" "set ps \<subseteq> {..<length (organizer_details st)}"
  shows "moves st (clip_loop reason ps st)"
  using assms
proof (induction ps arbitrary: reason st)
  case (Cons p ps)
  let ?a = "set_error p reason st" and ?b = "set_processed p (set_error p reason st)"
  let ?c = "remove_processed p ?b"
  let ?t = "?c\<lparr>organizer_pool := orphan_remove p (organizer_pool ?c)\<rparr>"
  have a: "moves st ?a" by (rule setters_move(3) [OF Cons.prems(1)])
  have b: "moves ?a ?b" by (rule setters_move(1) [OF moves_valid [OF a]])
  have p: "p < length (organizer_details ?b)" "detail_processed (detail_at ?b p)"
    using Cons.prems(2) by (simp_all add: set_processed_def set_error_def update_detail_def)
  have c: "moves ?b ?c" by (rule dequeue_moves [OF moves_valid [OF b] p])
  have d: "moves ?c ?t" by (rule unpool_moves [OF moves_valid [OF c]])
  have t: "moves st ?t"
    by (rule moves_trans [OF a moves_trans [OF b moves_trans [OF c d moves_valid [OF b]] moves_valid [OF a]] Cons.prems(1)])
  show ?case
    using moves_trans [OF t Cons.IH [OF moves_valid [OF t] moves_length [OF t]] Cons.prems(1)] Cons.prems(2) by (simp add: Let_def)
qed (simp add: moves_refl)

lemma untouched_moves:
  assumes "pointers_valid st"
  shows "moves st (st\<lparr>deleted_txs := a\<rparr>)" "moves st (st\<lparr>organizer_chain := b\<rparr>)" "moves st (st\<lparr>notifications := c\<rparr>)"
    "moves st (add_fork_chain_hash h st)" "moves st (delete_fork_chain_hash h st)"
  using assms by (simp_all add: moves_def advances_def pointers_valid_def add_fork_chain_hash_def delete_fork_chain_hash_def)

lemma verify_orphans_moves:
  assumes "verify_orphans ops rules fork_index ps ks work st = Returns (ps', work', st')"
    "pointers_valid st" "set ps \<subseteq> {..<length (organizer_details st)}"
  shows "moves st st' \<and> (\<exists>k. ps' = take k ps)"
  using assms
proof (induction ks arbitrary: work st)
  case Nil
  then show ?case using moves_refl [of st] by (auto intro!: exI [of _ "length ps"])
next
  case (Cons k ks)
  let ?p = "ps ! k"
  let ?work = "work + block_work (hdr_bits (block_header (detail_actual (detail_at st ?p))))"
  show ?case
  proof (cases "detail_checked (detail_at st ?p)")
    case True
    then show ?thesis using Cons.IH [OF _ Cons.prems(2,3), of ?work] Cons.prems(1) by (simp add: Let_def)
  next
    case False
    then obtain ec deleted where v: "verify ops rules (organizer_chain st) fork_index (blocks_at (organizer_details st) ps) k = Returns (ec, deleted)"
      using Cons.prems(1) by (auto simp: Let_def bind_eq_Some_conv)
    let ?s = "st\<lparr>deleted_txs := deleted_txs st @ deleted\<rparr>"
    have s: "moves st ?s" by (rule untouched_moves(1) [OF Cons.prems(2)])
    note s_valid = moves_valid [OF s] moves_length [OF s Cons.prems(3)]
    show ?thesis
    proof (cases "ec = Success")
      case True
      let ?c = "set_is_checked_work_proof ?p ?s"
      have c: "moves st ?c" by (rule moves_trans [OF s setters_move(4) [OF s_valid(1)] Cons.prems(2)])
      have "verify_orphans ops rules fork_index ps ks ?work ?c = Returns (ps', work', st')"
        using Cons.prems(1) v True False by (simp add: Let_def)
      from Cons.IH [OF this moves_valid [OF c] moves_length [OF c Cons.prems(3)]] show ?thesis
        using moves_trans [OF c _ Cons.prems(2)] by blast
    next
      case ec: False
      have "ps' = take k ps" "st' = clip_loop ec (drop k ps) ?s"
        using Cons.prems(1) v ec False by (simp_all add: Let_def clip_orphans_def)
      moreover have "set (drop k ps) \<subseteq> {..<length (organizer_details ?s)}" using s_valid(2) set_drop_subset by (rule order.trans [rotated])
      ultimately show ?thesis using moves_trans [OF s clip_loop_moves [OF s_valid(1)] Cons.prems(2)] by blast
    qed
  qed
qed

lemma push_arrivals_moves:
  assumes "push_arrivals ops index ps st = Returns st'" "pointers_valid st"
  shows "moves st st'"
  using assms
proof (induction ps arbitrary: index st)
  case (Cons p ps)
  let ?a = "st\<lparr>organizer_pool := orphan_remove p (organizer_pool st)\<rparr>"
  let ?b = "set_height p (index + 1) ?a"
  obtain state where rest: "push_arrivals ops (index + 1) ps (?b\<lparr>organizer_chain := state\<rparr>) = Returns st'"
    using Cons.prems(1) by (auto simp: Let_def bind_eq_Some_conv)
  have a: "moves st ?a" by (rule unpool_moves [OF Cons.prems(2)])
  have b: "moves ?a ?b" by (rule setters_move(2) [OF moves_valid [OF a]])
  have c: "moves ?b (?b\<lparr>organizer_chain := state\<rparr>)" by (rule untouched_moves(2) [OF moves_valid [OF b]])
  note abc = moves_trans [OF a moves_trans [OF b c moves_valid [OF a]] Cons.prems(2)]
  show ?case by (rule moves_trans [OF abc Cons.IH [OF rest moves_valid [OF abc]] Cons.prems(2)])
qed (simp add: moves_refl)

lemma add_released_moves:
  assumes "add_released bs st = Returns st'" "pointers_valid st"
  shows "moves st st'"
  using assms
proof (induction bs arbitrary: st)
  case (Cons b bs)
  let ?a = "st\<lparr>organizer_details := organizer_details st @ [(new_detail b)\<lparr>detail_processed := True\<rparr>]\<rparr>"
  let ?b = "snd (organizer_add (length (organizer_details st)) ?a)"
  have rest: "add_released bs ?b = Returns st'" using Cons.prems(1) by (simp add: Let_def split: if_split_asm)
  have "moves st ?b"
    using Cons.prems(2)
    by (auto simp: organizer_add_def orphan_add_def moves_def advances_def pointers_valid_def nth_append less_Suc_eq subset_iff)
  then show ?case using moves_trans [OF _ Cons.IH [OF rest] Cons.prems(2)] moves_valid by blast
qed (simp add: moves_refl)

text \<open>The three ways in which \<open>replace_chain\<close> ends.\<close>

lemma replace_chain_cases:
  assumes "replace_chain ops rules k ps st = Returns (ps', st')"
  obtains (Invalid) w where "verify_orphans ops rules k ps [0..<length ps] 0 st = Returns ([], w, st')" "ps' = []"
  | (Fork) w s d e main where "verify_orphans ops rules k ps [0..<length ps] 0 st = Returns (ps', w, s)" "ps' \<noteq> []"
      "chain_get_difficulty ops (organizer_chain s) (k + 1) = Returns (Some main)" "w \<le> main"
      "d = delete_fork_chain_hash (detail_previous (detail_at s (last ps'))) s"
      "e = (if length ps' mod 500 = 0 then set_error (last ps') Fetch_more_block d else d)"
      "st' = add_fork_chain_hash (detail_hash (detail_at e (last ps'))) e"
  | (Switch) w s d main released state t r where
      "verify_orphans ops rules k ps [0..<length ps] 0 st = Returns (ps', w, s)" "ps' \<noteq> []"
      "chain_get_difficulty ops (organizer_chain s) (k + 1) = Returns (Some main)" "main < w"
      "d = delete_fork_chain_hash (detail_previous (detail_at s (last ps'))) s"
      "chain_pop_from ops (k + 1) (organizer_chain d) = Returns (released, state)"
      "push_arrivals ops k ps' (d\<lparr>organizer_chain := state\<rparr>) = Returns t"
      "add_released (case released of Some bs \<Rightarrow> bs | None \<Rightarrow> []) t = Returns r"
      "st' = r\<lparr>notifications := notifications r @
         [(k, blocks_at (organizer_details r) ps', case released of Some bs \<Rightarrow> bs | None \<Rightarrow> [])]\<rparr>"
proof -
  obtain left w s where v: "verify_orphans ops rules k ps [0..<length ps] 0 st = Returns (left, w, s)"
    using assms by (auto simp: replace_chain_def bind_eq_Some_conv)
  show ?thesis
  proof (cases "left = []")
    case True
    then show ?thesis using assms v Invalid by (simp add: replace_chain_def)
  next
    case False
    then obtain main where main: "chain_get_difficulty ops (organizer_chain s) (k + 1) = Returns (Some main)"
      using assms v by (auto simp: replace_chain_def Let_def bind_eq_Some_conv)
    let ?d = "delete_fork_chain_hash (detail_previous (detail_at s (last left))) s"
    show ?thesis
    proof (cases "w \<le> main")
      case True
      let ?e = "if length left mod 500 = 0 then set_error (last left) Fetch_more_block ?d else ?d"
      have "ps' = left" "st' = add_fork_chain_hash (detail_hash (detail_at ?e (last left))) ?e"
        using assms v False main True by (auto simp add: replace_chain_def Let_def)
      then show ?thesis using v False main True by (intro Fork [of w s main ?d ?e]) simp_all
    next
      case more: False
      then obtain released state t r where "chain_pop_from ops (k + 1) (organizer_chain ?d) = Returns (released, state)"
        "push_arrivals ops k left (?d\<lparr>organizer_chain := state\<rparr>) = Returns t"
        "add_released (case released of Some bs \<Rightarrow> bs | None \<Rightarrow> []) t = Returns r"
        "ps' = left" "st' = r\<lparr>notifications := notifications r @
          [(k, blocks_at (organizer_details r) left, case released of Some bs \<Rightarrow> bs | None \<Rightarrow> [])]\<rparr>"
        using assms v False main by (auto simp: replace_chain_def Let_def bind_eq_Some_conv)
      then show ?thesis using v False main more by (intro Switch [of w s main ?d released state t r]) (simp_all add: linorder_not_le)
    qed
  qed
qed

lemma replace_chain_moves:
  assumes "replace_chain ops rules k ps st = Returns (ps', st')"
    "pointers_valid st" "set ps \<subseteq> {..<length (organizer_details st)}"
  shows "moves st st' \<and> (\<exists>n. ps' = take n ps)"
  using assms(1)
proof (cases rule: replace_chain_cases)
  case (Invalid w)
  then show ?thesis using verify_orphans_moves [OF Invalid(1) assms(2,3)] by simp
next
  case (Fork w s d e main)
  note s = verify_orphans_moves [OF Fork(1) assms(2,3)]
  have d: "moves s d" unfolding Fork(5) by (rule untouched_moves(5)) (use s moves_valid in blast)
  have e: "moves d e" unfolding Fork(6) using setters_move(3) moves_refl moves_valid [OF d] by auto
  have "moves e st'" unfolding Fork(7) by (rule untouched_moves(4) [OF moves_valid [OF e]])
  with d e have "moves st st'" using s assms(2) by (meson moves_trans moves_valid)
  then show ?thesis using s by blast
next
  case (Switch w s d main released state t r)
  note s = verify_orphans_moves [OF Switch(1) assms(2,3)]
  have d: "moves s d" unfolding Switch(5) by (rule untouched_moves(5)) (use s moves_valid in blast)
  have p: "moves d (d\<lparr>organizer_chain := state\<rparr>)" by (rule untouched_moves(2) [OF moves_valid [OF d]])
  note t = push_arrivals_moves [OF Switch(7) moves_valid [OF p]]
  note r = add_released_moves [OF Switch(8) moves_valid [OF t]]
  have "moves r st'" unfolding Switch(9) by (rule untouched_moves(3) [OF moves_valid [OF r]])
  with d p t r have "moves st st'" using s assms(2) by (meson moves_trans moves_valid)
  then show ?thesis using s by blast
qed

lemma delete_pending_advances:
  assumes "delete_pending n hash st = (ps, st')" "pointers_valid st"
  shows "advances st st' \<and> pointers_valid st' \<and> set ps \<subseteq> {..<length (organizer_details st)} \<and>
    length ps + length (pending_blocks (organizer_pool st')) = length (pending_blocks (organizer_pool st)) \<and>
    organizer_details st' = organizer_details st \<and> organizer_chain st' = organizer_chain st"
  using assms
proof (induction n arbitrary: ps st)
  case (Suc n)
  show ?case
  proof (cases "find (\<lambda>(needed, _). needed = hash) (pending_blocks (organizer_pool st))")
    case None
    then show ?thesis using Suc.prems advances_refl by (auto simp: delete_pending_block_def)
  next
    case (Some entry)
    have entry: "entry \<in> set (pending_blocks (organizer_pool st))" using Some by (auto simp: find_Some_iff intro: nth_mem)
    let ?pool = "(organizer_pool st)\<lparr>pending_blocks := remove1 entry (pending_blocks (organizer_pool st)),
      pending_blocks_hash := pending_blocks_hash (organizer_pool st) - {detail_hash (detail_at st (snd entry))}\<rparr>"
    let ?s = "st\<lparr>organizer_pool := ?pool\<rparr>"
    obtain qs where qs: "delete_pending n hash ?s = (qs, st')" "ps = snd entry # qs"
      using Suc.prems(1) Some by (auto simp: delete_pending_block_def Let_def split: prod.split_asm)
    have valid: "pointers_valid ?s"
      using Suc.prems(2) set_remove1_subset [of entry "pending_blocks (organizer_pool st)"] by (fastforce simp: pointers_valid_def)
    have "snd entry < length (organizer_details st)" using Suc.prems(2) entry by (auto simp: pointers_valid_def)
    moreover have "advances st ?s" by (simp add: advances_def)
    moreover have "Suc (length (remove1 entry (pending_blocks (organizer_pool st)))) = length (pending_blocks (organizer_pool st))"
      using entry length_pos_if_in_set [OF entry] by (simp add: length_remove1)
    ultimately show ?thesis
      using Suc.IH [OF qs(1) valid] advances_trans [of st ?s st', OF _ _ valid queue_valid [OF Suc.prems(2)]] qs(2) by simp
  qed
qed (simp add: advances_refl)

lemma add_pending_advances:
  fixes st hash p
  defines "st' \<equiv> st\<lparr>organizer_pool := snd (add_pending_block (organizer_details st) hash p (organizer_pool st))\<rparr>"
  assumes "pointers_valid st" "p < length (organizer_details st)"
  shows "advances st st' \<and> pointers_valid st' \<and>
    length (pending_blocks (organizer_pool st')) \<le> Suc (length (pending_blocks (organizer_pool st)))"
  using assms(2,3) by (auto simp: st'_def add_pending_block_def Let_def advances_def pointers_valid_def)

text \<open>
  Every round takes a block from the stack. It either gives back pending blocks, which are then pending no
  more, or it leaves the block pending.
\<close>

lemma process_step_advances:
  assumes "process_step ops rules p st = Returns (released_ptrs, st')" "pointers_valid st" "p < length (organizer_details st)"
  shows "advances st st' \<and> pointers_valid st' \<and> set released_ptrs \<subseteq> {..<length (organizer_details st')} \<and>
    detail_processed (detail_at st' p) \<and>
    (length released_ptrs + length (pending_blocks (organizer_pool st')) \<le> length (pending_blocks (organizer_pool st)) \<or>
     released_ptrs = [] \<and> length (pending_blocks (organizer_pool st')) \<le> Suc (length (pending_blocks (organizer_pool st))))"
proof -
  obtain ps fork where trace: "orphan_trace (organizer_details st) (organizer_pool st) p = Returns ps"
    and fork: "chain_get_height ops (organizer_chain st) (detail_previous (detail_at st (hd ps))) = Returns fork"
    using assms(1) by (auto simp: process_step_def Let_def bind_eq_Some_conv)
  have ps: "set ps \<subseteq> {..<length (organizer_details st)}" "ps \<noteq> []"
    using orphan_trace_linked [OF trace] assms(2,3) by (auto simp: pointers_valid_def)
  have "\<exists>s. st' = set_processed p s \<and> advances st s \<and> pointers_valid s \<and> set released_ptrs \<subseteq> {..<length (organizer_details s)} \<and>
    (length released_ptrs + length (pending_blocks (organizer_pool s)) \<le> length (pending_blocks (organizer_pool st)) \<or>
     released_ptrs = [] \<and> length (pending_blocks (organizer_pool s)) \<le> Suc (length (pending_blocks (organizer_pool st))))"
  proof (cases fork)
    case None
    let ?s = "st\<lparr>organizer_pool := snd (add_pending_block (organizer_details st) (detail_previous (detail_at st (hd ps))) (last ps) (organizer_pool st))\<rparr>"
    have "released_ptrs = []" "st' = set_processed p ?s" using assms(1) trace fork None by (simp_all add: process_step_def Let_def)
    moreover have "last ps < length (organizer_details st)" using ps last_in_set [OF ps(2)] by blast
    ultimately show ?thesis using add_pending_advances [OF assms(2), of "last ps"] by (intro exI [of _ ?s]) simp
  next
    case (Some fork_index)
    obtain qs s where r: "replace_chain ops rules fork_index ps st = Returns (qs, s)"
      using assms(1) trace fork Some by (auto simp: process_step_def Let_def bind_eq_Some_conv)
    have s: "moves st s" using replace_chain_moves [OF r assms(2) ps(1)] by blast
    obtain t where t: "(if qs = [] then ([], s) else delete_pending (length (pending_blocks (organizer_pool s)))
        (detail_hash (detail_at s (last qs))) s) = (released_ptrs, t)" "st' = set_processed p t"
      using assms(1) trace fork Some r by (auto simp: process_step_def Let_def split: prod.split_asm if_split_asm)
    have "advances s t \<and> pointers_valid t \<and> set released_ptrs \<subseteq> {..<length (organizer_details t)} \<and>
        length released_ptrs + length (pending_blocks (organizer_pool t)) = length (pending_blocks (organizer_pool s))"
      using t(1) delete_pending_advances [OF _ moves_valid [OF s]] moves_valid [OF s] advances_refl [of s]
      by (cases "qs = []") auto
    then show ?thesis
      using t(2) s advances_trans [of st s t, OF _ _ moves_valid [OF s] queue_valid [OF assms(2)]] by (auto simp: moves_def)
  qed
  then obtain s where s: "st' = set_processed p s" "advances st s" "pointers_valid s" "set released_ptrs \<subseteq> {..<length (organizer_details s)}"
    "length released_ptrs + length (pending_blocks (organizer_pool s)) \<le> length (pending_blocks (organizer_pool st)) \<or>
     released_ptrs = [] \<and> length (pending_blocks (organizer_pool s)) \<le> Suc (length (pending_blocks (organizer_pool st)))"
    by blast
  have m: "moves s st'" unfolding s(1) by (rule setters_move(1) [OF s(3)])
  have "p < length (organizer_details s)" using s(2) assms(3) by (simp add: advances_def)
  then have "detail_processed (detail_at st' p)" by (simp add: s(1) set_processed_def update_detail_def)
  then show ?thesis
    using advances_trans [OF s(2) _ s(3) queue_valid [OF assms(2)], of st'] m s(4,5) moves_length [OF m, of released_ptrs] by (auto simp: moves_def)
qed

section \<open>The loops\<close>

text \<open>The number of pending blocks, whatever the pointers are.\<close>

abbreviation pending_count :: "'chain organizer \<Rightarrow> nat" where
  "pending_count st \<equiv> length (pending_blocks (organizer_pool st))"

lemma setters_pending [simp]:
  "organizer_pool (set_processed p st) = organizer_pool st" "organizer_pool (set_height p h st) = organizer_pool st"
  "organizer_pool (set_error p ec st) = organizer_pool st" "organizer_pool (set_is_checked_work_proof p st) = organizer_pool st"
  "organizer_pool (remove_processed p st) = organizer_pool st"
  "organizer_pool (add_fork_chain_hash hash st) = organizer_pool st" "organizer_pool (delete_fork_chain_hash hash st) = organizer_pool st"
  "pending_blocks (orphan_remove p pool) = pending_blocks pool"
  "pending_blocks (organizer_pool (snd (organizer_add p st))) = pending_blocks (organizer_pool st)"
  by (simp_all add: set_processed_def set_height_def set_error_def set_is_checked_work_proof_def update_detail_def
      remove_processed_def add_fork_chain_hash_def delete_fork_chain_hash_def orphan_remove_def organizer_add_def orphan_add_def)

lemma clip_loop_pending [simp]: "pending_blocks (organizer_pool (clip_loop reason ps st)) = pending_blocks (organizer_pool st)"
  by (induction ps arbitrary: reason st) (simp_all add: Let_def)

lemma verify_orphans_pending:
  "verify_orphans ops rules fork_index ps ks work st = Returns (ps', work', st') \<Longrightarrow>
     pending_blocks (organizer_pool st') = pending_blocks (organizer_pool st)"
proof (induction ks arbitrary: work st)
  case (Cons k ks)
  show ?case
  proof (cases "detail_checked (detail_at st (ps ! k))")
    case True
    then show ?thesis using Cons by (simp add: Let_def)
  next
    case False
    then obtain ec deleted where "verify ops rules (organizer_chain st) fork_index (blocks_at (organizer_details st) ps) k = Returns (ec, deleted)"
      using Cons.prems by (auto simp: Let_def bind_eq_Some_conv)
    then show ?thesis using Cons.prems Cons.IH False
      by (cases "ec = Success") (auto simp: Let_def clip_orphans_def dest!: Cons.IH)
  qed
qed simp

lemma push_arrivals_pending:
  "push_arrivals ops index ps st = Returns st' \<Longrightarrow> pending_blocks (organizer_pool st') = pending_blocks (organizer_pool st)"
  by (induction ps arbitrary: index st) (auto simp: Let_def bind_eq_Some_conv)

lemma add_released_pending:
  "add_released bs st = Returns st' \<Longrightarrow> pending_blocks (organizer_pool st') = pending_blocks (organizer_pool st)"
  by (induction bs arbitrary: st) (auto simp: Let_def split: if_split_asm)

lemma replace_chain_pending:
  assumes "replace_chain ops rules fork_index ps st = Returns (ps', st')"
  shows "pending_blocks (organizer_pool st') = pending_blocks (organizer_pool st)"
  using assms unfolding replace_chain_def
  by (auto simp: Let_def bind_eq_Some_conv dest!: verify_orphans_pending push_arrivals_pending add_released_pending split: if_split_asm)

lemma delete_pending_count:
  "delete_pending n hash st = (ps, st') \<Longrightarrow> length ps + pending_count st' = pending_count st"
proof (induction n arbitrary: ps st)
  case (Suc n)
  show ?case
  proof (cases "find (\<lambda>(needed, _). needed = hash) (pending_blocks (organizer_pool st))")
    case None
    then show ?thesis using Suc.prems by (simp add: delete_pending_block_def)
  next
    case (Some entry)
    have entry: "entry \<in> set (pending_blocks (organizer_pool st))" using Some by (auto simp: find_Some_iff intro: nth_mem)
    have "0 < length (pending_blocks (organizer_pool st))" by (rule length_pos_if_in_set [OF entry])
    then show ?thesis
      using Suc.prems Some entry
      by (auto simp: delete_pending_block_def Let_def length_remove1 split: prod.split_asm dest!: Suc.IH)
  qed
qed simp

text \<open>The stack of \<open>process\<close>, its last block first.\<close>

definition process_order :: "detail_ptr list \<Rightarrow> 'chain organizer \<Rightarrow> nat \<times> nat" where
  "process_order blocks st = (length blocks + length (pending_blocks (organizer_pool st)), length blocks)"

lemma process_step_less:
  assumes "process_step ops rules p st = Returns (released_ptrs, st')"
  shows "(process_order (rev released_ptrs @ blocks) st', process_order (p # blocks) st) \<in> less_than <*lex*> less_than"
proof -
  have "length released_ptrs + pending_count st' \<le> pending_count st \<or> released_ptrs = [] \<and> pending_count st' \<le> Suc (pending_count st)"
    using assms unfolding process_step_def
    by (auto simp: Let_def bind_eq_Some_conv add_pending_block_def split: option.split_asm if_split_asm prod.split_asm
        dest!: replace_chain_pending delete_pending_count)
  then show ?thesis by (auto simp: process_order_def)
qed

function process_loop :: "'chain simple_chain \<Rightarrow> block_rules \<Rightarrow> detail_ptr list \<Rightarrow> 'chain organizer \<Rightarrow> 'chain organizer outcome" where
  "process_loop ops rules [] st = Returns st"
| "process_loop ops rules (p # blocks) st =
     (case process_step ops rules p st of
        Abnormal \<Rightarrow> Abnormal
      | Returns (released_ptrs, st) \<Rightarrow> process_loop ops rules (rev released_ptrs @ blocks) st)"
  by pat_completeness auto
termination
  by (relation "inv_image (less_than <*lex*> less_than) (\<lambda>(ops, rules, blocks, st). process_order blocks st)")
    (auto intro: process_step_less)

definition process :: "'chain simple_chain \<Rightarrow> block_rules \<Rightarrow> detail_ptr \<Rightarrow> 'chain organizer \<Rightarrow> 'chain organizer outcome" where
  "process ops rules process_block st = process_loop ops rules [process_block] st"

text \<open>The queue does not grow.\<close>

lemma setters_queue [simp]:
  "process_queue (set_processed p st) = process_queue st" "process_queue (set_height p h st) = process_queue st"
  "process_queue (set_error p ec st) = process_queue st" "process_queue (set_is_checked_work_proof p st) = process_queue st"
  "process_queue (add_fork_chain_hash hash st) = process_queue st" "process_queue (delete_fork_chain_hash hash st) = process_queue st"
  "process_queue (snd (organizer_add p st)) = process_queue st"
  by (simp_all add: set_processed_def set_height_def set_error_def set_is_checked_work_proof_def update_detail_def
      add_fork_chain_hash_def delete_fork_chain_hash_def organizer_add_def orphan_add_def)

lemma clip_loop_queue: "length (process_queue (clip_loop reason ps st)) \<le> length (process_queue st)"
proof (induction ps arbitrary: reason st)
  case (Cons p ps)
  let ?s = "remove_processed p (set_processed p (set_error p reason st))"
  have "length (process_queue ?s) \<le> length (process_queue st)" by (simp add: remove_processed_def length_remove1)
  then show ?case
    using Cons.IH [of Previous_block_invalid "?s\<lparr>organizer_pool := orphan_remove p (organizer_pool ?s)\<rparr>"] by (simp add: Let_def)
qed simp

lemma verify_orphans_queue:
  "verify_orphans ops rules fork_index ps ks work st = Returns (ps', work', st') \<Longrightarrow>
     length (process_queue st') \<le> length (process_queue st)"
proof (induction ks arbitrary: work st)
  case (Cons k ks)
  show ?case
  proof (cases "detail_checked (detail_at st (ps ! k))")
    case True
    then show ?thesis using Cons by (simp add: Let_def)
  next
    case False
    then obtain ec deleted where "verify ops rules (organizer_chain st) fork_index (blocks_at (organizer_details st) ps) k = Returns (ec, deleted)"
      using Cons.prems by (auto simp: Let_def bind_eq_Some_conv)
    then show ?thesis
      using Cons.prems False clip_loop_queue [of ec "drop k ps" "st\<lparr>deleted_txs := deleted_txs st @ deleted\<rparr>"]
      by (cases "ec = Success") (auto simp: Let_def clip_orphans_def dest!: Cons.IH)
  qed
qed simp

lemma push_arrivals_queue: "push_arrivals ops index ps st = Returns st' \<Longrightarrow> process_queue st' = process_queue st"
  by (induction ps arbitrary: index st) (auto simp: Let_def bind_eq_Some_conv)

lemma add_released_queue: "add_released bs st = Returns st' \<Longrightarrow> process_queue st' = process_queue st"
  by (induction bs arbitrary: st) (auto simp: Let_def split: if_split_asm)

lemma replace_chain_queue:
  assumes "replace_chain ops rules fork_index ps st = Returns (ps', st')"
  shows "length (process_queue st') \<le> length (process_queue st)"
  using assms unfolding replace_chain_def
  by (auto simp: Let_def bind_eq_Some_conv dest!: verify_orphans_queue push_arrivals_queue add_released_queue split: if_split_asm)

lemma delete_pending_queue: "delete_pending n hash st = (ps, st') \<Longrightarrow> process_queue st' = process_queue st"
  by (induction n arbitrary: ps st)
    (auto simp: delete_pending_block_def Let_def split: option.split_asm prod.split_asm dest!: meta_spec)

lemma process_step_queue:
  assumes "process_step ops rules p st = Returns (released_ptrs, st')"
  shows "length (process_queue st') \<le> length (process_queue st)"
  using assms unfolding process_step_def
  by (auto simp: Let_def bind_eq_Some_conv split: option.split_asm if_split_asm prod.split_asm
      dest!: replace_chain_queue delete_pending_queue)

lemma process_loop_queue:
  "process_loop ops rules blocks st = Returns st' \<Longrightarrow> length (process_queue st') \<le> length (process_queue st)"
proof (induction ops rules blocks st rule: process_loop.induct)
  case (2 ops rules p blocks st)
  then obtain released_ptrs s where s: "process_step ops rules p st = Returns (released_ptrs, s)"
    by (auto split: option.split_asm)
  then have "process_loop ops rules (rev released_ptrs @ blocks) s = Returns st'" using 2(2) by simp
  from 2(1) [OF s refl this] process_step_queue [OF s] show ?case by simp
qed simp

function organize_loop :: "'chain simple_chain \<Rightarrow> block_rules \<Rightarrow> 'chain organizer \<Rightarrow> 'chain organizer outcome" where
  "organize_loop ops rules st =
     (if process_queue st = [] \<or> rules_stopped rules then Returns st
      else
        (case process ops rules (last (process_queue st)) (st\<lparr>process_queue := butlast (process_queue st)\<rparr>) of
           Abnormal \<Rightarrow> Abnormal
         | Returns st \<Rightarrow> organize_loop ops rules st))"
  by pat_completeness auto
termination
proof (relation "measure (\<lambda>(ops, rules, st). length (process_queue st))", simp_all)
  fix ops :: "'chain simple_chain" and rules st st'
  assume "process_queue st \<noteq> [] \<and> \<not> rules_stopped rules"
    and "process ops rules (last (process_queue st)) (st\<lparr>process_queue := butlast (process_queue st)\<rparr>) = Returns st'"
  then have "length (process_queue st') \<le> length (butlast (process_queue st))" "0 < length (process_queue st)"
    using process_loop_queue [of ops rules "[last (process_queue st)]" "st\<lparr>process_queue := butlast (process_queue st)\<rparr>" st']
    by (simp_all add: process_def del: process_loop.simps)
  then show "length (process_queue st') < length (process_queue st)" unfolding length_butlast by linarith
qed

declare organize_loop.simps [simp del]

definition organize :: "'chain simple_chain \<Rightarrow> block_rules \<Rightarrow> 'chain organizer \<Rightarrow> 'chain organizer outcome" where
  "organize ops rules st =
     organize_loop ops rules (st\<lparr>process_queue := unprocessed (organizer_details st) (organizer_pool st)\<rparr>)"

text \<open>
  \<open>do_store\<close>: what the handler gets and the state. The locks of the database around it are not modelled; a block is
  stored when the table of blocks has its hash.
\<close>

definition chain_do_store :: "'chain simple_chain \<Rightarrow> block_rules \<Rightarrow> block \<Rightarrow> 'chain organizer \<Rightarrow> ((error_code \<times> u64) \<times> 'chain organizer) outcome" where
  "chain_do_store ops rules b st = do {
     stored \<leftarrow> chain_get_height ops (organizer_chain st) (header_hash (block_header b));
     (if stored \<noteq> None then Returns ((Duplicate, 0), st)
      else
        (let detail = length (organizer_details st);
             (added, st) = organizer_add detail (st\<lparr>organizer_details := organizer_details st @ [new_detail b]\<rparr>)
         in if \<not> added then Returns ((Duplicate, 0), st)
            else do {
              st \<leftarrow> organize ops rules st;
              Returns ((detail_error (detail_at st detail), detail_height (detail_at st detail)), st) })) }"

section \<open>Every orphan is processed\<close>

lemma process_loop_advances:
  assumes "process_loop ops rules blocks st = Returns st'" "pointers_valid st" "set blocks \<subseteq> {..<length (organizer_details st)}"
  shows "advances st st' \<and> pointers_valid st' \<and> (\<forall>p \<in> set blocks. detail_processed (detail_at st' p))"
  using assms
proof (induction ops rules blocks st rule: process_loop.induct)
  case (2 ops rules p blocks st)
  obtain released_ptrs s where s: "process_step ops rules p st = Returns (released_ptrs, s)"
    using 2(2) by (auto split: option.split_asm)
  then have rest: "process_loop ops rules (rev released_ptrs @ blocks) s = Returns st'" using 2(2) by simp
  have p: "p < length (organizer_details st)" "set blocks \<subseteq> {..<length (organizer_details st)}" using 2(4) by auto
  note step = process_step_advances [OF s 2(3) p(1)]
  have len: "length (organizer_details st) \<le> length (organizer_details s)" using step by (simp add: advances_def)
  have "set (rev released_ptrs @ blocks) \<subseteq> {..<length (organizer_details s)}" using step p(2) len by auto
  from 2(1) [OF s refl rest _ this] step
  have later: "advances s st' \<and> pointers_valid st' \<and> (\<forall>p \<in> set blocks. detail_processed (detail_at st' p))" by simp
  then have "detail_processed (detail_at st' p)" using step p(1) len by (simp add: advances_def)
  then show ?case using later step advances_trans [of st s st', OF _ _ _ queue_valid [OF 2(3)]] by simp
qed (simp add: advances_refl)

text \<open>Every block of the pool is processed or in the queue.\<close>

definition queue_covers :: "'chain organizer \<Rightarrow> bool" where
  "queue_covers st \<longleftrightarrow>
     (\<forall>p \<in> set (orphan_buffer (organizer_pool st)). detail_processed (detail_at st p) \<or> p \<in> set (process_queue st))"

lemma process_covers:
  assumes "process ops rules (last (process_queue st)) (st\<lparr>process_queue := butlast (process_queue st)\<rparr>) = Returns st'"
    "pointers_valid st" "queue_covers st" "process_queue st \<noteq> []"
  shows "pointers_valid st'" "queue_covers st'"
    "length (organizer_details st) \<le> length (organizer_details st')"
proof -
  let ?q = "process_queue st" and ?s = "st\<lparr>process_queue := butlast (process_queue st)\<rparr>"
  have q: "set ?q = insert (last ?q) (set (butlast ?q))" using assms(4) by (metis append_butlast_last_id list.set(2) rotate1.simps(2) set_rotate1)
  have s: "pointers_valid ?s" "set [last ?q] \<subseteq> {..<length (organizer_details ?s)}"
    using assms(2) q by (auto simp: pointers_valid_def)
  note after = process_loop_advances [OF assms(1) [unfolded process_def] s]
  then show "pointers_valid st'" "length (organizer_details st) \<le> length (organizer_details st')" by (simp_all add: advances_def)
  have "detail_processed (detail_at st' p) \<or> p \<in> set (process_queue st')" if p: "p \<in> set (orphan_buffer (organizer_pool st'))" for p
  proof (cases "p \<in> set (orphan_buffer (organizer_pool st))")
    case True
    then have "p < length (organizer_details st)" using assms(2) by (auto simp: pointers_valid_def)
    moreover have "detail_processed (detail_at st p) \<or> p = last ?q \<or> p \<in> set (butlast ?q)"
      using assms(3) True q by (auto simp: queue_covers_def)
    ultimately show ?thesis using after by (auto simp: advances_def)
  next
    case False
    then show ?thesis using after p by (simp add: advances_def)
  qed
  then show "queue_covers st'" by (simp add: queue_covers_def)
qed

lemma organize_loop_covers:
  assumes "organize_loop ops rules st = Returns st'" "pointers_valid st" "queue_covers st"
  shows "pointers_valid st' \<and> queue_covers st' \<and> (process_queue st' = [] \<or> rules_stopped rules)"
  using assms
proof (induction ops rules st rule: organize_loop.induct)
  case (1 ops rules st)
  show ?case
  proof (cases "process_queue st = [] \<or> rules_stopped rules")
    case True
    then show ?thesis using 1 by (subst (asm) organize_loop.simps) auto
  next
    case False
    then obtain s where s: "process ops rules (last (process_queue st)) (st\<lparr>process_queue := butlast (process_queue st)\<rparr>) = Returns s"
      and rest: "organize_loop ops rules s = Returns st'"
      using 1(2) by (subst (asm) organize_loop.simps) (auto split: option.split_asm)
    show ?thesis using 1(1) [OF False s rest] process_covers [OF s 1(3,4)] False by blast
  qed
qed

lemma organize_covers:
  assumes "organize ops rules st = Returns st'" "pointers_valid st" "\<not> rules_stopped rules"
  shows "unprocessed (organizer_details st') (organizer_pool st') = []" "pointers_valid st'"
proof -
  let ?s = "st\<lparr>process_queue := unprocessed (organizer_details st) (organizer_pool st)\<rparr>"
  have "pointers_valid ?s" "queue_covers ?s" using assms(2) by (auto simp: pointers_valid_def queue_covers_def unprocessed_def)
  from organize_loop_covers [OF assms(1) [unfolded organize_def] this] assms(3)
  show "unprocessed (organizer_details st') (organizer_pool st') = []" "pointers_valid st'"
    by (auto simp: queue_covers_def unprocessed_def filter_empty_conv)
qed

text \<open>A block that is in the queue or processed is processed in the end.\<close>

lemma organize_loop_processes:
  assumes "organize_loop ops rules st = Returns st'" "pointers_valid st" "\<not> rules_stopped rules" "p < length (organizer_details st)"
    "detail_processed (detail_at st p) \<or> p \<in> set (process_queue st)"
  shows "detail_processed (detail_at st' p)"
  using assms
proof (induction ops rules st rule: organize_loop.induct)
  case (1 ops rules st)
  show ?case
  proof (cases "process_queue st = []")
    case True
    then show ?thesis using 1 by (subst (asm) organize_loop.simps) auto
  next
    case False
    let ?q = "process_queue st" and ?s = "st\<lparr>process_queue := butlast (process_queue st)\<rparr>"
    obtain s where s: "process ops rules (last ?q) ?s = Returns s" and rest: "organize_loop ops rules s = Returns st'"
      using 1(2,4) False by (subst (asm) organize_loop.simps) (auto split: option.split_asm)
    have q: "set ?q = insert (last ?q) (set (butlast ?q))" using False by (metis append_butlast_last_id list.set(2) rotate1.simps(2) set_rotate1)
    have valid: "pointers_valid ?s" "set [last ?q] \<subseteq> {..<length (organizer_details ?s)}"
      using 1(3) q by (auto simp: pointers_valid_def)
    note after = process_loop_advances [OF s [unfolded process_def] valid]
    then have "p < length (organizer_details s)" "detail_processed (detail_at s p) \<or> p \<in> set (process_queue s)"
      using 1(5,6) q by (auto simp: advances_def)
    then show ?thesis using 1(1) [OF _ s rest] after False 1(4) by simp
  qed
qed

lemma organize_processes:
  assumes "organize ops rules st = Returns st'" "pointers_valid st" "\<not> rules_stopped rules" "p \<in> set (orphan_buffer (organizer_pool st))"
  shows "detail_processed (detail_at st' p)"
  using organize_loop_processes [OF assms(1) [unfolded organize_def] _ assms(3), of p] assms(2,4)
  by (auto simp: pointers_valid_def unprocessed_def)

lemma exists_header_append:
  "pointers_valid st \<Longrightarrow> exists_header (organizer_details st @ ds) (organizer_pool st) head = exists_header (organizer_details st) (organizer_pool st) head"
  by (auto simp: exists_header_def pointers_valid_def list_ex_iff nth_append subset_iff)

section \<open>Properties\<close>

text \<open>
  C7: Every block that arrives is dealt with. A block that the chain or the pool of orphans has is answered as a duplicate and changes
  neither of them. For any other block, when \<open>do_store\<close> returns and the service was not stopped, no block of the pool
  is left unprocessed, the block itself and every orphan that was there before have been processed, and the answer is the error and the
  height that are recorded for the block.
\<close>

theorem do_store_processes_all:
  assumes "chain_do_store ops rules b st = Returns (result, st')" "pointers_valid st" "\<not> rules_stopped rules"
  shows "if (\<exists>k. chain_get_height ops (organizer_chain st) (header_hash (block_header b)) = Returns (Some k)) \<or>
      exists_header (organizer_details st) (organizer_pool st) (block_header b)
    then result = (Duplicate, 0) \<and> organizer_chain st' = organizer_chain st \<and> organizer_pool st' = organizer_pool st
    else unprocessed (organizer_details st') (organizer_pool st') = [] \<and>
      list_all (\<lambda>p. detail_processed (detail_at st' p)) (length (organizer_details st) # orphan_buffer (organizer_pool st)) \<and>
      result = (detail_error (detail_at st' (length (organizer_details st))), detail_height (detail_at st' (length (organizer_details st))))"
proof -
  obtain stored where stored: "chain_get_height ops (organizer_chain st) (header_hash (block_header b)) = Returns stored"
    using assms(1) by (auto simp: chain_do_store_def bind_eq_Some_conv)
  let ?a = "st\<lparr>organizer_details := organizer_details st @ [new_detail b]\<rparr>" and ?p = "length (organizer_details st)"
  have here: "exists_header (organizer_details ?a) (organizer_pool st) (block_header b) =
      exists_header (organizer_details st) (organizer_pool st) (block_header b)"
    using exists_header_append [OF assms(2)] by simp
  have block: "detail_actual (organizer_details ?a ! ?p) = b" by (simp add: new_detail_def)
  show ?thesis
  proof (cases "stored = None \<and> \<not> exists_header (organizer_details st) (organizer_pool st) (block_header b)")
    case True
    let ?b = "?a\<lparr>organizer_pool := (organizer_pool st)\<lparr>orphan_buffer := orphan_buffer (organizer_pool st) @ [?p]\<rparr>\<rparr>"
    have add: "organizer_add ?p ?a = (True, ?b)" using True here block by (simp add: organizer_add_def orphan_add_def)
    have run: "organize ops rules ?b = Returns st'"
      and "result = (detail_error (detail_at st' ?p), detail_height (detail_at st' ?p))"
      using assms(1) stored True add by (auto simp: chain_do_store_def Let_def bind_eq_Some_conv)
    moreover have b: "pointers_valid ?b" using assms(2) by (auto simp: pointers_valid_def)
    moreover have "detail_processed (detail_at st' p)" if "p \<in> insert ?p (set (orphan_buffer (organizer_pool st)))" for p
      using organize_processes [OF run b assms(3)] that by simp
    ultimately show ?thesis using stored True organize_covers(1) [OF run b assms(3)] by (simp add: list_all_iff)
  next
    case False
    then have "result = (Duplicate, 0) \<and> organizer_chain st' = organizer_chain st \<and> organizer_pool st' = organizer_pool st"
      using assms(1) stored here block by (cases stored) (auto simp: chain_do_store_def Let_def organizer_add_def orphan_add_def)
    then show ?thesis using stored False by (cases stored) auto
  qed
qed

definition lonely_block :: block where
  "lonely_block = \<lparr>block_header = sample_header\<lparr>hdr_previous_block_hash := [7]\<rparr>, block_transactions = []\<rparr>"

definition no_chain :: "unit simple_chain" where
  "no_chain = \<lparr>chain_queries_of = (\<lambda>_. sample_chain (sample_output 0)), chain_get_height = (\<lambda>_ _. Returns None),
     chain_get_asset_height = (\<lambda>_ _. Returns None), chain_get_difficulty = (\<lambda>_ _. Returns None),
     chain_push = (\<lambda>_ _. Returns ()), chain_pop_from = (\<lambda>_ _. Returns (None, ()))\<rparr>"

definition idle_organizer :: "unit organizer" where
  "idle_organizer = \<lparr>organizer_chain = (), organizer_details = [], organizer_pool = orphan_pool_create, process_queue = [],
     fork_chain_last_block_hashes = {}, deleted_txs = [], notifications = []\<rparr>"

lemma lonely_trace:
  "orphan_trace [new_detail lonely_block] \<lparr>orphan_buffer = [0], pending_blocks = [], pending_blocks_hash = {}\<rparr> 0 = Returns [0]"
proof -
  have "detail_hash (new_detail lonely_block) \<noteq> [7]"
  proof
    assume "detail_hash (new_detail lonely_block) = [7]"
    then have "length (bitcoin_hash (header_to_data False (block_header lonely_block))) = 1"
      by (simp add: detail_hash_def header_hash_def new_detail_def)
    then show False by simp
  qed
  then have "rfind [new_detail lonely_block] [0] [7] = []" by (simp add: rfind_def)
  moreover have "detail_previous (new_detail lonely_block) = [7]" by (simp add: new_detail_def lonely_block_def)
  ultimately show ?thesis unfolding orphan_trace_def by (subst trace_loop.simps) simp
qed

lemma lonely_process:
  "process_loop no_chain rules [0] (idle_organizer\<lparr>organizer_details := [new_detail lonely_block],
     organizer_pool := \<lparr>orphan_buffer = [0], pending_blocks = [], pending_blocks_hash = {}\<rparr>\<rparr>) =
   Returns (idle_organizer\<lparr>organizer_details := [(new_detail lonely_block)\<lparr>detail_processed := True\<rparr>],
     organizer_pool := \<lparr>orphan_buffer = [0], pending_blocks = [([7], 0)], pending_blocks_hash = {detail_hash (new_detail lonely_block)}\<rparr>\<rparr>)"
proof -
  have "detail_previous (new_detail lonely_block) = [7]" by (simp add: new_detail_def lonely_block_def)
  then show ?thesis
    using lonely_trace
    by (simp add: process_step_def Let_def no_chain_def idle_organizer_def add_pending_block_def set_processed_def update_detail_def)
qed

lemma lonely_store:
  "\<exists>st'. chain_do_store no_chain (sample_rules lib curve) lonely_block idle_organizer = Returns ((Success, 0), st') \<and>
     map snd (pending_blocks (organizer_pool st')) = [0]"
proof -
  let ?st = "idle_organizer\<lparr>organizer_details := [new_detail lonely_block],
     organizer_pool := \<lparr>orphan_buffer = [0], pending_blocks = [], pending_blocks_hash = {}\<rparr>\<rparr>"
  let ?final = "idle_organizer\<lparr>organizer_details := [(new_detail lonely_block)\<lparr>detail_processed := True\<rparr>],
     organizer_pool := \<lparr>orphan_buffer = [0], pending_blocks = [([7], 0)], pending_blocks_hash = {detail_hash (new_detail lonely_block)}\<rparr>\<rparr>"
  have add: "organizer_add 0 (idle_organizer\<lparr>organizer_details := [new_detail lonely_block]\<rparr>) = (True, ?st)"
    by (simp add: organizer_add_def orphan_add_def exists_header_def idle_organizer_def orphan_pool_create_def)
  have queue: "unprocessed [new_detail lonely_block] \<lparr>orphan_buffer = [0], pending_blocks = [], pending_blocks_hash = {}\<rparr> = [0]"
    by (simp add: unprocessed_def new_detail_def)
  have running: "\<not> rules_stopped (sample_rules lib curve)" by (simp add: sample_rules_def)
  have finished: "organize_loop no_chain (sample_rules lib curve) ?final = Returns ?final"
    by (subst organize_loop.simps) (simp add: idle_organizer_def)
  have "?st\<lparr>process_queue := []\<rparr> = ?st" by (simp add: idle_organizer_def)
  then have "organize_loop no_chain (sample_rules lib curve) (?st\<lparr>process_queue := [0]\<rparr>) = Returns ?final"
    by (subst organize_loop.simps) (simp add: process_def lonely_process finished running del: process_loop.simps)
  then have "organize no_chain (sample_rules lib curve) ?st = Returns ?final" by (simp add: organize_def queue)
  then show ?thesis using add by (simp add: chain_do_store_def no_chain_def idle_organizer_def new_detail_def)
qed

theorem do_store_processes_all_witness:
  "\<forall>lib curve. \<exists>st'. chain_do_store no_chain (sample_rules lib curve) lonely_block idle_organizer = Returns ((Success, 0), st') \<and>
     unprocessed (organizer_details st') (organizer_pool st') = [] \<and> map snd (pending_blocks (organizer_pool st')) = [0]"
proof (intro allI)
  fix lib curve
  obtain st' where st': "chain_do_store no_chain (sample_rules lib curve) lonely_block idle_organizer = Returns ((Success, 0), st')"
    "map snd (pending_blocks (organizer_pool st')) = [0]" by (rule exE [OF lonely_store [of lib curve]]) (elim conjE, rule that)
  have "pointers_valid idle_organizer" "\<not> rules_stopped (sample_rules lib curve)"
    by (simp_all add: pointers_valid_def idle_organizer_def orphan_pool_create_def sample_rules_def)
  note result = do_store_processes_all [OF st'(1) this]
  have "chain_get_height no_chain (organizer_chain idle_organizer) (header_hash (block_header lonely_block)) = Returns None"
    "\<not> exists_header (organizer_details idle_organizer) (organizer_pool idle_organizer) (block_header lonely_block)"
    by (simp_all add: no_chain_def idle_organizer_def orphan_pool_create_def exists_header_def)
  then have "unprocessed (organizer_details st') (organizer_pool st') = []" using result by simp
  then show "\<exists>st'. chain_do_store no_chain (sample_rules lib curve) lonely_block idle_organizer = Returns ((Success, 0), st') \<and>
     unprocessed (organizer_details st') (organizer_pool st') = [] \<and> map snd (pending_blocks (organizer_pool st')) = [0]"
    using st' by (intro exI [of _ st'] conjI)
qed

end
