(* ===== verification/Organized_Chain.thy ===== *)
theory Organized_Chain
  imports Organizer
begin

text \<open>
  What the organizer promises of any chain that keeps the contract of \<open>simple_chain\<close>: the chain it holds stays a
  chain of linked blocks, and a part of it is replaced only by orphans of more work.
\<close>

section \<open>The work of blocks\<close>

definition work :: "block list \<Rightarrow> u256" where
  "work bs = (\<Sum>b \<leftarrow> bs. block_work (hdr_bits (block_header b)))"

text \<open>One replacement: the blocks above a fork give way to others of more work.\<close>

definition replaced :: "block list \<Rightarrow> block list \<Rightarrow> bool" where
  "replaced bs bs' \<longleftrightarrow>
     (\<exists>k < length bs. \<exists>os. os \<noteq> [] \<and> bs' = take (Suc k) bs @ os \<and> work (drop (Suc k) bs) < work os)"

lemma linked_append:
  "linked (as @ bs) \<longleftrightarrow> linked as \<and> linked bs \<and>
     (as \<noteq> [] \<longrightarrow> bs \<noteq> [] \<longrightarrow> hdr_previous_block_hash (block_header (hd bs)) = header_hash (block_header (last as)))"
  by (auto simp: linked_def successively_append_iff)

lemma linked_take: "linked bs \<Longrightarrow> linked (take k bs)"
  using linked_append [of "take k bs" "drop k bs"] by simp

section \<open>What the verification of the orphans computes\<close>

lemma clip_loop_chain [simp]: "organizer_chain (clip_loop reason ps st) = organizer_chain st"
  by (induction ps arbitrary: reason st)
    (simp_all add: Let_def set_processed_def set_error_def update_detail_def remove_processed_def)

lemma add_released_chain: "add_released bs st = Returns st' \<Longrightarrow> organizer_chain st' = organizer_chain st"
  by (induction bs arbitrary: st) (auto simp: Let_def organizer_add_def split: if_split_asm prod.split_asm)

lemma verify_orphans_work:
  assumes "verify_orphans ops rules fork_index ps [j..<length ps] w st = Returns (ps', w', st')"
    "w = work (blocks_at (organizer_details st) (take j ps))" "j \<le> length ps"
    "pointers_valid st" "set ps \<subseteq> {..<length (organizer_details st)}"
  shows "w' = work (blocks_at (organizer_details st) ps') \<and> organizer_chain st' = organizer_chain st"
  using assms
proof (induction "length ps - j" arbitrary: j w st)
  case 0
  then show ?case by auto
next
  case (Suc n)
  let ?p = "ps ! j"
  let ?w = "w + block_work (hdr_bits (block_header (detail_actual (detail_at st ?p))))"
  have j: "j < length ps" "[j..<length ps] = j # [Suc j..<length ps]" using Suc.hyps(2) by (simp_all add: upt_conv_Cons)
  have w: "?w = work (blocks_at (organizer_details st) (take (Suc j) ps))"
    using Suc.prems(2) j(1) by (simp add: work_def take_Suc_conv_app_nth)
  have n: "n = length ps - Suc j" "Suc j \<le> length ps" using Suc.hyps(2) j(1) by simp_all
  show ?case
  proof (cases "detail_checked (detail_at st ?p)")
    case True
    then have "verify_orphans ops rules fork_index ps [Suc j..<length ps] ?w st = Returns (ps', w', st')"
      using Suc.prems(1) by (simp add: j(2) Let_def)
    then show ?thesis using Suc.hyps(1) [OF n(1) _ w n(2) Suc.prems(4,5)] by simp
  next
    case False
    then obtain ec deleted where v: "verify ops rules (organizer_chain st) fork_index (blocks_at (organizer_details st) ps) j = Returns (ec, deleted)"
      using Suc.prems(1) by (auto simp: j(2) Let_def bind_eq_Some_conv)
    let ?s = "st\<lparr>deleted_txs := deleted_txs st @ deleted\<rparr>"
    let ?c = "set_is_checked_work_proof ?p ?s"
    show ?thesis
    proof (cases "ec = Success")
      case True
      have rest: "verify_orphans ops rules fork_index ps [Suc j..<length ps] ?w ?c = Returns (ps', w', st')"
        using Suc.prems(1) v True False by (simp add: j(2) Let_def)
      have s: "moves st ?s" by (rule untouched_moves(1) [OF Suc.prems(4)])
      have c: "moves st ?c" by (rule moves_trans [OF s setters_move(4) [OF moves_valid [OF s]] Suc.prems(4)])
      have same: "blocks_at (organizer_details ?c) qs = blocks_at (organizer_details st) qs"
        if "set qs \<subseteq> set ps" for qs
        using moves_blocks [OF c order.trans [OF that Suc.prems(5)]] .
      have "organizer_chain ?c = organizer_chain st" by (simp add: set_is_checked_work_proof_def update_detail_def)
      moreover have "set (take (Suc j) ps) \<subseteq> set ps" by (rule set_take_subset)
      moreover obtain k where "ps' = take k ps"
        using verify_orphans_moves [OF rest moves_valid [OF c] moves_length [OF c Suc.prems(5)]] by blast
      moreover from this have "set ps' \<subseteq> set ps" by (simp add: set_take_subset)
      ultimately show ?thesis
        using Suc.hyps(1) [OF n(1) rest _ n(2) moves_valid [OF c] moves_length [OF c Suc.prems(5)]] same w by simp
    next
      case ec: False
      have "ps' = take j ps" "w' = w" "st' = clip_loop ec (drop j ps) ?s"
        using Suc.prems(1) v ec False by (simp_all add: j(2) Let_def clip_orphans_def)
      then show ?thesis using Suc.prems(2) by simp
    qed
  qed
qed

text \<open>The details: only \<open>add_released\<close> makes new ones.\<close>

lemma clip_loop_length [simp]: "length (organizer_details (clip_loop reason ps st)) = length (organizer_details st)"
  by (induction ps arbitrary: reason st)
    (simp_all add: Let_def set_processed_def set_error_def update_detail_def remove_processed_def)

lemma verify_orphans_length:
  "verify_orphans ops rules fork_index ps ks w st = Returns (ps', w', st') \<Longrightarrow>
     length (organizer_details st') = length (organizer_details st)"
proof (induction ks arbitrary: w st)
  case (Cons k ks)
  show ?case
  proof (cases "detail_checked (detail_at st (ps ! k))")
    case True
    then show ?thesis using Cons by (simp add: Let_def)
  next
    case False
    then obtain ec deleted where "verify ops rules (organizer_chain st) fork_index (blocks_at (organizer_details st) ps) k = Returns (ec, deleted)"
      using Cons.prems(1) by (auto simp: Let_def bind_eq_Some_conv)
    then show ?thesis
      using Cons.prems False
      by (cases "ec = Success")
        (auto simp: Let_def clip_orphans_def set_is_checked_work_proof_def update_detail_def dest!: Cons.IH)
  qed
qed simp

lemma push_arrivals_length:
  "push_arrivals ops index ps st = Returns st' \<Longrightarrow> length (organizer_details st') = length (organizer_details st)"
  by (induction ps arbitrary: index st) (auto simp: Let_def bind_eq_Some_conv set_height_def update_detail_def)

lemma add_released_details:
  "add_released bs st = Returns st' \<Longrightarrow> d \<in> set (organizer_details st') \<Longrightarrow> d \<in> set (organizer_details st) \<or> detail_actual d \<in> set bs"
  by (induction bs arbitrary: st)
    (fastforce simp: Let_def organizer_add_def orphan_add_def new_detail_def split: if_split_asm prod.split_asm)+

lemma moves_details:
  assumes "moves st st'" "length (organizer_details st') = length (organizer_details st)" "d \<in> set (organizer_details st')"
  shows "\<exists>d' \<in> set (organizer_details st). detail_actual d = detail_actual d'"
  using assms moves_actual [OF assms(1)] by (metis in_set_conv_nth)

section \<open>The contract\<close>

text \<open>
  A state of the chain holds a list of blocks, of which each is acceptable: the height of a hash is that of
  a block with the hash, the difficulty is the work above a height, and blocks are pushed on the top and popped from it.
\<close>

definition organized :: "('chain \<Rightarrow> block list \<Rightarrow> bool) \<Rightarrow> (block \<Rightarrow> bool) \<Rightarrow> 'chain organizer \<Rightarrow> block list \<Rightarrow> bool" where
  "organized holds acceptable st bs \<longleftrightarrow> holds (organizer_chain st) bs \<and> linked bs \<and> bs \<noteq> [] \<and> pointers_valid st \<and>
     (\<forall>d \<in> set (organizer_details st). acceptable (detail_actual d))"

lemma organized_processed:
  assumes "organized holds acceptable st bs"
  shows "organized holds acceptable (set_processed p st) bs"
proof -
  have m: "moves st (set_processed p st)" by (rule setters_move(1)) (use assms in \<open>simp add: organized_def\<close>)
  have "organizer_chain (set_processed p st) = organizer_chain st"
    "length (organizer_details (set_processed p st)) = length (organizer_details st)"
    by (simp_all add: set_processed_def update_detail_def)
  then show ?thesis using assms moves_valid [OF m] moves_details [OF m] by (simp add: organized_def) metis
qed

locale organized_chain =
  fixes ops :: "'chain simple_chain" and holds :: "'chain \<Rightarrow> block list \<Rightarrow> bool" and acceptable :: "block \<Rightarrow> bool"
  assumes height_found: "holds c bs \<Longrightarrow> chain_get_height ops c h = Returns (Some k) \<Longrightarrow>
      unat k < length bs \<and> header_hash (block_header (bs ! unat k)) = h"
    and difficulty_above: "holds c bs \<Longrightarrow> unat k < length bs \<Longrightarrow>
      chain_get_difficulty ops c (k + 1) = Returns (Some (work (drop (Suc (unat k)) bs)))"
    and push_held: "holds c bs \<Longrightarrow> acceptable b \<Longrightarrow> chain_push ops b c = Returns c' \<Longrightarrow> holds c' (bs @ [b])"
    and pop_held: "holds c bs \<Longrightarrow> unat k < length bs \<Longrightarrow>
      \<exists>c'. chain_pop_from ops (k + 1) c = Returns (Some (map popped (rev (drop (Suc (unat k)) bs))), c') \<and>
        holds c' (take (Suc (unat k)) bs)"
    and held_acceptable: "holds c bs \<Longrightarrow> b \<in> set (tl bs) \<Longrightarrow> acceptable (popped b)"
begin

lemma push_arrivals_held:
  assumes "push_arrivals ops index ps st = Returns st'" "holds (organizer_chain st) bs" "pointers_valid st"
    "set ps \<subseteq> {..<length (organizer_details st)}" "\<forall>b \<in> set (blocks_at (organizer_details st) ps). acceptable b"
  shows "holds (organizer_chain st') (bs @ blocks_at (organizer_details st) ps)"
  using assms
proof (induction ps arbitrary: index st bs)
  case (Cons p ps)
  let ?a = "st\<lparr>organizer_pool := orphan_remove p (organizer_pool st)\<rparr>"
  let ?b = "set_height p (index + 1) ?a"
  have a: "moves st ?a" by (rule unpool_moves [OF Cons.prems(3)])
  have b: "moves st ?b" by (rule moves_trans [OF a setters_move(2) [OF moves_valid [OF a]] Cons.prems(3)])
  have same: "organizer_chain ?b = organizer_chain st" "detail_actual (detail_at ?b p) = detail_actual (detail_at st p)"
    using moves_actual [OF b, of p] Cons.prems(4) by (simp_all add: set_height_def update_detail_def)
  obtain state where state: "chain_push ops (detail_actual (detail_at st p)) (organizer_chain st) = Returns state"
    and rest: "push_arrivals ops (index + 1) ps (?b\<lparr>organizer_chain := state\<rparr>) = Returns st'"
    using Cons.prems(1) same by (auto simp: Let_def bind_eq_Some_conv)
  let ?c = "?b\<lparr>organizer_chain := state\<rparr>"
  have c: "moves st ?c" by (rule moves_trans [OF b untouched_moves(2) [OF moves_valid [OF b]] Cons.prems(3)])
  have ps: "set ps \<subseteq> {..<length (organizer_details st)}" using Cons.prems(4) by simp
  have "holds state (bs @ [detail_actual (detail_at st p)])" using push_held [OF Cons.prems(2) _ state] Cons.prems(5) by simp
  moreover have "\<forall>b \<in> set (blocks_at (organizer_details ?c) ps). acceptable b"
    unfolding moves_blocks [OF c ps] using Cons.prems(5) by simp
  ultimately have "holds (organizer_chain st') ((bs @ [detail_actual (detail_at st p)]) @ blocks_at (organizer_details ?c) ps)"
    by (intro Cons.IH [OF rest _ moves_valid [OF c] moves_length [OF c ps]]) simp_all
  then show ?case unfolding moves_blocks [OF c ps] by simp
qed simp

lemma replace_chain_held:
  assumes "replace_chain ops rules k ps st = Returns (ps', st')" "holds (organizer_chain st) bs" "unat k < length bs"
    "pointers_valid st" "set ps \<subseteq> {..<length (organizer_details st)}" "\<forall>b \<in> set (blocks_at (organizer_details st) ps). acceptable b"
  shows "if ps' \<noteq> [] \<and> work (drop (Suc (unat k)) bs) < work (blocks_at (organizer_details st) ps')
    then holds (organizer_chain st') (take (Suc (unat k)) bs @ blocks_at (organizer_details st) ps')
    else organizer_chain st' = organizer_chain st"
  using assms(1)
proof (cases rule: replace_chain_cases)
  case (Invalid w)
  then show ?thesis using verify_orphans_work [OF Invalid(1) _ _ assms(4,5)] by (simp add: work_def)
next
  case (Fork w s d e main)
  have w: "w = work (blocks_at (organizer_details st) ps')" "organizer_chain s = organizer_chain st"
    using verify_orphans_work [OF Fork(1) _ _ assms(4,5)] by (simp_all add: work_def)
  have "main = work (drop (Suc (unat k)) bs)" using difficulty_above [OF assms(2,3)] Fork(3) w(2) by simp
  then have "\<not> work (drop (Suc (unat k)) bs) < work (blocks_at (organizer_details st) ps')" using Fork(4) w(1) by (simp add: linorder_not_less)
  moreover have "organizer_chain st' = organizer_chain s"
    by (simp add: Fork(5,6,7) add_fork_chain_hash_def set_error_def update_detail_def delete_fork_chain_hash_def)
  ultimately show ?thesis using w(2) by simp
next
  case (Switch w s d main released state t r)
  have w: "w = work (blocks_at (organizer_details st) ps')" "organizer_chain s = organizer_chain st"
    using verify_orphans_work [OF Switch(1) _ _ assms(4,5)] by (simp_all add: work_def)
  obtain n where s: "moves st s" "ps' = take n ps" using verify_orphans_moves [OF Switch(1) assms(4,5)] by blast
  have sub: "set ps' \<subseteq> set ps" unfolding s(2) by (rule set_take_subset)
  note valid = order.trans [OF sub assms(5)]
  have d: "moves st d" unfolding Switch(5) by (rule moves_trans [OF s(1) untouched_moves(5) [OF moves_valid [OF s(1)]] assms(4)])
  let ?t = "d\<lparr>organizer_chain := state\<rparr>"
  have t: "moves st ?t" by (rule moves_trans [OF d untouched_moves(2) [OF moves_valid [OF d]] assms(4)])
  have "organizer_chain d = organizer_chain st" by (simp add: Switch(5) delete_fork_chain_hash_def w(2))
  then have state: "holds state (take (Suc (unat k)) bs)" using pop_held [OF assms(2,3)] Switch(6) by auto
  have "\<forall>b \<in> set (blocks_at (organizer_details ?t) ps'). acceptable b"
    unfolding moves_blocks [OF t valid] using assms(6) sub by auto
  then have "holds (organizer_chain t) (take (Suc (unat k)) bs @ blocks_at (organizer_details ?t) ps')"
    by (intro push_arrivals_held [OF Switch(7) _ moves_valid [OF t] moves_length [OF t valid]]) (use state in simp_all)
  then have "holds (organizer_chain st') (take (Suc (unat k)) bs @ blocks_at (organizer_details st) ps')"
    unfolding moves_blocks [OF t valid] using add_released_chain [OF Switch(8)] Switch(9) by simp
  moreover have "main = work (drop (Suc (unat k)) bs)" using difficulty_above [OF assms(2,3)] Switch(3) w(2) by simp
  ultimately show ?thesis using Switch(2,4) w(1) by simp
qed

lemma replace_chain_acceptable:
  assumes "replace_chain ops rules k ps st = Returns (ps', st')" "holds (organizer_chain st) bs" "unat k < length bs"
    "pointers_valid st" "set ps \<subseteq> {..<length (organizer_details st)}" "\<forall>d \<in> set (organizer_details st). acceptable (detail_actual d)"
  shows "\<forall>d \<in> set (organizer_details st'). acceptable (detail_actual d)"
proof -
  have *: "\<forall>d \<in> set (organizer_details s). acceptable (detail_actual d)"
    if "moves st s" "length (organizer_details s) = length (organizer_details st)" for s :: "'chain organizer"
    using moves_details [OF that] assms(6) by metis
  have m: "moves st st'" using replace_chain_moves [OF assms(1,4,5)] by blast
  show ?thesis
    using assms(1)
  proof (cases rule: replace_chain_cases)
    case (Invalid w)
    then show ?thesis using * [OF m] verify_orphans_length [OF Invalid(1)] by simp
  next
    case (Fork w s d e main)
    have "length (organizer_details st') = length (organizer_details s)"
      by (simp add: Fork(5,6,7) add_fork_chain_hash_def set_error_def update_detail_def delete_fork_chain_hash_def)
    then show ?thesis using * [OF m] verify_orphans_length [OF Fork(1)] by simp
  next
    case (Switch w s d main released state t r)
    have s: "moves st s" using verify_orphans_moves [OF Switch(1) assms(4,5)] by blast
    have d: "moves st d" unfolding Switch(5) by (rule moves_trans [OF s untouched_moves(5) [OF moves_valid [OF s]] assms(4)])
    have p: "moves st (d\<lparr>organizer_chain := state\<rparr>)" by (rule moves_trans [OF d untouched_moves(2) [OF moves_valid [OF d]] assms(4)])
    have "length (organizer_details d) = length (organizer_details st)"
      by (simp add: Switch(5) delete_fork_chain_hash_def verify_orphans_length [OF Switch(1)])
    then have t: "\<forall>x \<in> set (organizer_details t). acceptable (detail_actual x)"
      using * [OF moves_trans [OF p push_arrivals_moves [OF Switch(7) moves_valid [OF p]] assms(4)]] push_arrivals_length [OF Switch(7)] by simp
    have "organizer_chain d = organizer_chain st"
      using verify_orphans_work [OF Switch(1) _ _ assms(4,5)] by (simp add: Switch(5) delete_fork_chain_hash_def work_def)
    then have "released = Some (map popped (rev (drop (Suc (unat k)) bs)))" using pop_held [OF assms(2,3)] Switch(6) by auto
    then have "\<forall>b \<in> set (case released of Some bs \<Rightarrow> bs | None \<Rightarrow> []). acceptable b"
      using held_acceptable [OF assms(2)] by (auto simp: drop_Suc dest: in_set_dropD)
    then have "acceptable (detail_actual x)" if "x \<in> set (organizer_details r)" for x
      using add_released_details [OF Switch(8) that] t by blast
    then show ?thesis using Switch(9) by simp
  qed
qed

text \<open>A fork that the organizer takes is a replacement, and the result is linked.\<close>

lemma replace_chain_organized:
  assumes "replace_chain ops rules k ps st = Returns (ps', st')" "organized holds acceptable st bs"
    "chain_get_height ops (organizer_chain st) (detail_previous (detail_at st (hd ps))) = Returns (Some k)"
    "ps \<noteq> []" "linked (blocks_at (organizer_details st) ps)" "set ps \<subseteq> {..<length (organizer_details st)}"
  shows "\<exists>bs'. organized holds acceptable st' bs' \<and> (bs' = bs \<or> replaced bs bs')"
proof -
  have o: "holds (organizer_chain st) bs" "linked bs" "bs \<noteq> []" "pointers_valid st"
    "\<forall>d \<in> set (organizer_details st). acceptable (detail_actual d)"
    using assms(2) by (simp_all add: organized_def)
  have k: "unat k < length bs" "header_hash (block_header (bs ! unat k)) = detail_previous (detail_at st (hd ps))"
    using height_found [OF o(1) assms(3)] by auto
  obtain n where n: "moves st st'" "ps' = take n ps" using replace_chain_moves [OF assms(1) o(4) assms(6)] by blast
  have good: "\<forall>b \<in> set (blocks_at (organizer_details st) ps). acceptable b" using o(5) assms(6) by auto
  note details = replace_chain_acceptable [OF assms(1) o(1) k(1) o(4) assms(6) o(5)]
  note switch = replace_chain_held [OF assms(1) o(1) k(1) o(4) assms(6) good]
  let ?os = "blocks_at (organizer_details st) ps'" and ?bs = "take (Suc (unat k)) bs"
  show ?thesis
  proof (cases "ps' \<noteq> [] \<and> work (drop (Suc (unat k)) bs) < work ?os")
    case True
    have "linked ?os" using linked_take [OF assms(5), of n] n(2) by (simp add: take_map)
    moreover have "hd ?os = detail_actual (detail_at st (hd ps))" using True n(2) by (cases ps; cases n) simp_all
    moreover have "last ?bs = bs ! unat k" using k(1) by (simp add: take_Suc_conv_app_nth)
    ultimately have "linked (?bs @ ?os)" using linked_take [OF o(2)] k(2) by (simp add: linked_append)
    moreover have "replaced bs (?bs @ ?os)" using True k(1) by (auto simp: replaced_def)
    ultimately show ?thesis
      using switch True details n(1) o(3) by (intro exI [of _ "?bs @ ?os"]) (simp add: organized_def moves_def)
  next
    case False
    then have "organizer_chain st' = organizer_chain st" using switch by simp
    then show ?thesis using o details n(1) by (intro exI [of _ bs]) (simp add: organized_def moves_def)
  qed
qed

lemma process_step_organized:
  assumes "process_step ops rules p st = Returns (released_ptrs, st')" "organized holds acceptable st bs" "p < length (organizer_details st)"
  shows "\<exists>bs'. organized holds acceptable st' bs' \<and> (bs' = bs \<or> replaced bs bs')"
proof -
  obtain ps fork where trace: "orphan_trace (organizer_details st) (organizer_pool st) p = Returns ps"
    and fork: "chain_get_height ops (organizer_chain st) (detail_previous (detail_at st (hd ps))) = Returns fork"
    using assms(1) by (auto simp: process_step_def Let_def bind_eq_Some_conv)
  have valid: "pointers_valid st" using assms(2) by (simp add: organized_def)
  note t = orphan_trace_linked [OF trace]
  have ps: "set ps \<subseteq> {..<length (organizer_details st)}" using t(4) valid assms(3) by (auto simp: pointers_valid_def)
  show ?thesis
  proof (cases fork)
    case None
    let ?s = "st\<lparr>organizer_pool := snd (add_pending_block (organizer_details st) (detail_previous (detail_at st (hd ps))) (last ps) (organizer_pool st))\<rparr>"
    have "st' = set_processed p ?s" using assms(1) trace fork None by (simp add: process_step_def Let_def)
    moreover have "last ps < length (organizer_details st)" using ps last_in_set [OF t(3)] by blast
    ultimately show ?thesis
      using organized_processed [of holds acceptable ?s bs p] assms(2)
        add_pending_advances [OF valid, of "last ps" "detail_previous (detail_at st (hd ps))"]
      by (intro exI [of _ bs]) (simp add: organized_def)
  next
    case (Some k)
    obtain qs s where r: "replace_chain ops rules k ps st = Returns (qs, s)"
      using assms(1) trace fork Some by (auto simp: process_step_def Let_def bind_eq_Some_conv)
    obtain bs' where bs': "organized holds acceptable s bs'" "bs' = bs \<or> replaced bs bs'"
      using replace_chain_organized [OF r assms(2) fork [unfolded Some] t(3,1) ps] by blast
    obtain u where u: "(if qs = [] then ([], s) else delete_pending (length (pending_blocks (organizer_pool s)))
        (detail_hash (detail_at s (last qs))) s) = (released_ptrs, u)" "st' = set_processed p u"
      using assms(1) trace fork Some r by (auto simp: process_step_def Let_def split: prod.split_asm if_split_asm)
    have "organized holds acceptable u bs'"
    proof (cases "qs = []")
      case False
      have "pointers_valid s" using bs'(1) by (simp add: organized_def)
      with False u(1) delete_pending_advances [of _ _ s released_ptrs u]
      have "organizer_details u = organizer_details s" "organizer_chain u = organizer_chain s" "pointers_valid u" by simp_all
      then show ?thesis using bs'(1) by (simp add: organized_def)
    qed (use u(1) bs'(1) in simp)
    then show ?thesis using organized_processed u(2) bs'(2) by blast
  qed
qed

lemma process_loop_organized:
  assumes "process_loop any rules blocks st = Returns st'" "any = ops" "organized holds acceptable st bs"
    "set blocks \<subseteq> {..<length (organizer_details st)}"
  shows "\<exists>bs'. organized holds acceptable st' bs' \<and> replaced\<^sup>*\<^sup>* bs bs'"
  using assms
proof (induction any rules blocks st arbitrary: bs rule: process_loop.induct)
  case (2 any rules p blocks st)
  obtain released_ptrs s where s: "process_step ops rules p st = Returns (released_ptrs, s)"
    using 2(2,3) by (auto split: option.split_asm)
  then have rest: "process_loop ops rules (rev released_ptrs @ blocks) s = Returns st'" using 2(2,3) by simp
  have p: "p < length (organizer_details st)" "set blocks \<subseteq> {..<length (organizer_details st)}" using 2(5) by auto
  obtain bs1 where bs1: "organized holds acceptable s bs1" "bs1 = bs \<or> replaced bs bs1"
    using process_step_organized [OF s 2(4) p(1)] by blast
  have step: "advances st s" "set released_ptrs \<subseteq> {..<length (organizer_details s)}"
    using process_step_advances [OF s _ p(1)] 2(4) by (simp_all add: organized_def)
  then have "set (rev released_ptrs @ blocks) \<subseteq> {..<length (organizer_details s)}" using p(2) by (auto simp: advances_def)
  from 2(1) [unfolded 2(3), OF s refl rest refl bs1(1) this] obtain bs' where "organized holds acceptable st' bs'" "replaced\<^sup>*\<^sup>* bs1 bs'" by blast
  then show ?case using bs1(2) by (auto intro: converse_rtranclp_into_rtranclp)
qed auto

lemma organize_loop_organized:
  assumes "organize_loop any rules st = Returns st'" "any = ops" "organized holds acceptable st bs"
  shows "\<exists>bs'. organized holds acceptable st' bs' \<and> replaced\<^sup>*\<^sup>* bs bs'"
  using assms
proof (induction any rules st arbitrary: bs rule: organize_loop.induct)
  case (1 any rules st)
  show ?case
  proof (cases "process_queue st = [] \<or> rules_stopped rules")
    case True
    then show ?thesis using 1 by (subst (asm) organize_loop.simps) auto
  next
    case False
    let ?q = "process_queue st" and ?s = "st\<lparr>process_queue := butlast (process_queue st)\<rparr>"
    obtain s where s: "process ops rules (last ?q) ?s = Returns s" and rest: "organize_loop ops rules s = Returns st'"
      using 1(2,3) False by (subst (asm) organize_loop.simps) (auto split: option.split_asm)
    have q: "set ?q \<subseteq> {..<length (organizer_details st)}" using 1(4) by (simp add: organized_def pointers_valid_def)
    then have ptrs: "set [last ?q] \<subseteq> {..<length (organizer_details ?s)}" using last_in_set [of ?q] False by (simp add: subset_iff)
    have "organized holds acceptable ?s bs" using 1(4) by (auto simp: organized_def pointers_valid_def dest: in_set_butlastD)
    from process_loop_organized [OF s [unfolded process_def] refl this ptrs]
    obtain bs1 where bs1: "organized holds acceptable s bs1" "replaced\<^sup>*\<^sup>* bs bs1" by blast
    from 1(1) [unfolded 1(3), OF False s rest refl bs1(1)] bs1(2) show ?thesis by (meson rtranclp_trans)
  qed
qed

lemma organize_organized:
  assumes "organize ops rules st = Returns st'" "organized holds acceptable st bs"
  shows "\<exists>bs'. organized holds acceptable st' bs' \<and> replaced\<^sup>*\<^sup>* bs bs'"
  by (rule organize_loop_organized [OF assms(1) [unfolded organize_def] refl])
    (use assms(2) in \<open>auto simp: organized_def pointers_valid_def unprocessed_def\<close>)

end

end
