(* ===== verification/Organized_Database.thy ===== *)
theory Organized_Database
  imports Organized_Chain
begin

text \<open>
  The chain of the organizer on the database: \<open>block_chain_impl\<close> as a \<open>simple_chain\<close>, and that it keeps the contract.
\<close>

section \<open>The operations\<close>

primrec difficulty_loop :: "data_base \<Rightarrow> nat list \<Rightarrow> u256 \<Rightarrow> u256 outcome" where
  "difficulty_loop db [] out_difficulty = Returns out_difficulty"
| "difficulty_loop db (index # rest) out_difficulty =
     (case get_header db (of_nat index) of
        None \<Rightarrow> Abnormal
      | Some head \<Rightarrow> difficulty_loop db rest (out_difficulty + block_work (hdr_bits head)))"

definition get_difficulty :: "data_base \<Rightarrow> u64 \<Rightarrow> u256 option outcome" where
  "get_difficulty db height =
     (case block_top (db_blocks db) of
        None \<Rightarrow> Returns None
      | Some current \<Rightarrow> map_option Some (difficulty_loop db [unat height..<Suc (unat current)] 0))"

text \<open>
  \<open>push\<close> on a database with room for the block and below a height limit. What happens without room, when the counters
  of the tables wrap around, is not modelled.
\<close>

definition impl_push :: "db_settings \<Rightarrow> u64 \<Rightarrow> block \<Rightarrow> data_base \<Rightarrow> data_base outcome" where
  "impl_push settings limit b db =
     (if block_fits settings b db \<and> get_next_height (db_blocks db) < limit then db_push settings b db else Abnormal)"

definition database_chain :: "db_settings \<Rightarrow> u64 \<Rightarrow> data_base simple_chain" where
  "database_chain settings limit =
     \<lparr>chain_queries_of = database_queries, chain_get_height = get_height, chain_get_asset_height = get_asset_height,
      chain_get_difficulty = get_difficulty, chain_push = impl_push settings limit, chain_pop_from = pop_from settings\<rparr>"

section \<open>The contract\<close>

definition storable_below :: "u64 \<Rightarrow> block \<Rightarrow> bool" where
  "storable_below limit b \<longleftrightarrow> (\<forall>height < unat limit. storable height b)"

definition database_holds :: "db_settings \<Rightarrow> u64 \<Rightarrow> data_base \<Rightarrow> block list \<Rightarrow> bool" where
  "database_holds settings limit db bs \<longleftrightarrow> represents settings db bs \<and> bs \<noteq> [] \<and> (\<forall>b \<in> set (tl bs). storable_below limit b)"

lemma unat_suc_height:
  fixes k :: u64
  shows "represents settings db bs \<Longrightarrow> unat k < length bs \<Longrightarrow> unat (k + 1) = Suc (unat k) \<and> k + 1 = of_nat (Suc (unat k))"
  using represents_length [of settings db bs] by (simp add: unat_word_ariths)

lemma get_height_found:
  assumes "represents settings db bs" "get_height db hash = Returns (Some k)"
  shows "unat k < length bs \<and> header_hash (block_header (bs ! unat k)) = hash"
proof -
  obtain h b where hb: "newest (\<lambda>(h, b). header_hash (block_header b) = hash) (enumerate 0 bs) = Some (h, b)" "k = of_nat h"
    using assms(2) unfolding get_height_answer [OF assms(1)] by auto
  then have "(h, b) \<in> set (enumerate 0 bs)" "header_hash (block_header b) = hash" using newest_in [OF hb(1)] by auto
  then show ?thesis
    using hb(2) represents_length [OF assms(1)] by (auto simp: in_set_enumerate_eq unat_of_nat_u64)
qed

lemma difficulty_loop_work:
  assumes "represents settings db bs" "j \<le> length bs"
  shows "difficulty_loop db [j..<length bs] w = Returns (w + work (drop j bs))"
  using assms(2)
proof (induction "length bs - j" arbitrary: j w)
  case (Suc n)
  then have j: "j < length bs" "[j..<length bs] = j # [Suc j..<length bs]" by (simp_all add: upt_conv_Cons)
  have "unat (of_nat j :: u64) = j" using j(1) represents_length [OF assms(1)] by (simp add: unat_of_nat_u64)
  then have "get_header db (of_nat j) = Some ((block_header (bs ! j))\<lparr>hdr_transaction_count := 0\<rparr>)"
    using get_header_answer [OF assms(1)] j(1) by simp
  then show ?case using Suc j Cons_nth_drop_Suc [OF j(1), symmetric] by (simp add: work_def add.assoc)
qed (simp add: work_def)

lemma storable_popped: "storable height b \<Longrightarrow> storable height (popped b)"
  by (simp add: storable_def popped_def wf_header_def is_allowed_duplicate_def)

interpretation database: organized_chain "database_chain settings limit" "database_holds settings limit" "storable_below limit"
  for settings limit
proof unfold_locales
  fix c bs h k
  assume "database_holds settings limit c bs" "chain_get_height (database_chain settings limit) c h = Returns (Some k)"
  then show "unat k < length bs \<and> header_hash (block_header (bs ! unat k)) = h"
    using get_height_found by (auto simp: database_holds_def database_chain_def)
next
  fix c bs and k :: u64
  assume c: "database_holds settings limit c bs" "unat k < length bs"
  then have r: "represents settings c bs" "bs \<noteq> []" by (auto simp: database_holds_def)
  have "Suc (unat (of_nat (length bs) - 1 :: u64)) = length bs" using unat_top [of "length bs"] represents_length [OF r(1)] r(2) by simp
  then show "chain_get_difficulty (database_chain settings limit) c (k + 1) = Returns (Some (work (drop (Suc (unat k)) bs)))"
    using difficulty_loop_work [OF r(1), of "Suc (unat k)" 0] represents_top [OF r] unat_suc_height [OF r(1) c(2)] c(2)
    by (simp add: database_chain_def get_difficulty_def del: upt_Suc)
next
  fix c bs b c'
  assume c: "database_holds settings limit c bs" "storable_below limit b"
    and push: "chain_push (database_chain settings limit) b c = Returns c'"
  have fits: "block_fits settings b c" "get_next_height (db_blocks c) < limit" "db_push settings b c = Returns c'"
    using push by (auto simp: database_chain_def impl_push_def split: if_split_asm)
  have r: "represents settings c bs" using c(1) by (simp add: database_holds_def)
  have "get_next_height (db_blocks c) = of_nat (length bs)" using get_next_height_holds r by (simp add: represents_def)
  then have "length bs < unat limit" using fits(2) represents_length [OF r] by (simp add: word_less_nat_alt unat_of_nat_u64)
  then have "storable (length bs) b" using c(2) by (simp add: storable_below_def)
  then obtain c'' where "db_push settings b c = Returns c''" "represents settings c'' (bs @ [b])"
    by (rule push_represents [OF r _ fits(1)])
  then show "database_holds settings limit c' (bs @ [b])" using fits(3) c by (cases bs) (auto simp: database_holds_def)
next
  fix c bs and k :: u64
  assume c: "database_holds settings limit c bs" "unat k < length bs"
  then have r: "represents settings c bs" by (simp add: database_holds_def)
  obtain c' where "pop_from settings (of_nat (Suc (unat k))) c = Returns (Some (map popped (rev (drop (Suc (unat k)) bs))), c')"
    "represents settings c' (take (Suc (unat k)) bs)"
    by (rule pop_from_represents [OF r, of "Suc (unat k)"]) (use c(2) in simp_all)
  then show "\<exists>c'. chain_pop_from (database_chain settings limit) (k + 1) c =
        Returns (Some (map popped (rev (drop (Suc (unat k)) bs))), c') \<and> database_holds settings limit c' (take (Suc (unat k)) bs)"
    using unat_suc_height [OF r c(2)] c
    by (intro exI [of _ c']) (cases bs, auto simp: database_chain_def database_holds_def add.commute dest: in_set_takeD)
next
  fix c bs b
  assume "database_holds settings limit c bs" "b \<in> set (tl bs)"
  then show "storable_below limit (popped b)" using storable_popped by (simp add: database_holds_def storable_below_def)
qed

section \<open>A database with a fork\<close>

text \<open>A chain of one block without transactions and an orphan above it, which is already verified.\<close>

definition sample_genesis :: block where
  "sample_genesis = \<lparr>block_header = sample_header, block_transactions = []\<rparr>"

definition sample_orphan :: block where
  "sample_orphan = \<lparr>block_header = sample_header\<lparr>hdr_previous_block_hash := header_hash sample_header\<rparr>, block_transactions = []\<rparr>"

definition sample_organizer :: "data_base \<Rightarrow> data_base organizer" where
  "sample_organizer db = \<lparr>organizer_chain = db, organizer_details = [(new_detail sample_orphan)\<lparr>detail_checked := True\<rparr>],
     organizer_pool = orphan_pool_create\<lparr>orphan_buffer := [0]\<rparr>, process_queue = [], fork_chain_last_block_hashes = {},
     deleted_txs = [], notifications = []\<rparr>"

lemma sample_storable_below: "storable_below 91842 sample_genesis" "storable_below 91842 sample_orphan"
proof -
  have "height \<noteq> 91842 \<and> height \<noteq> 91880" if "height = of_nat n" "n < 91842" for height :: u64 and n
    using that unat_of_nat_u64 [of n] by auto
  then have "\<not> is_allowed_duplicate head (of_nat n)" if "n < 91842" for head n
    using that by (auto simp: is_allowed_duplicate_def exception1_def exception2_def)
  then show "storable_below 91842 sample_genesis" "storable_below 91842 sample_orphan"
    by (auto simp: storable_below_def storable_def sample_genesis_def sample_orphan_def wf_header_def sample_header_def)
qed

lemma empty_block_fits:
  assumes "block_transactions b = []" "unat (payload (block_map (db_blocks db))) < 1000" "unat (record_count (block_index (db_blocks db))) < 10"
  shows "block_fits settings b db"
  using assms by (simp add: block_fits_def block_rows_def tables_room_def no_rows_def block_room_def)

lemma sample_fork_database:
  obtains db where "represents sample_settings db [sample_genesis]" "block_fits sample_settings sample_orphan db"
proof -
  obtain db where db: "represents sample_settings db []" "payload (block_map (db_blocks db)) = 8"
    "record_count (block_index (db_blocks db)) = 0"
    by (rule created_represents [of "\<lambda>_. 0" "\<lambda>_ _. 0" sample_settings])
  have genesis: "block_fits sample_settings sample_genesis db" "storable (length []) sample_genesis"
    using db sample_storable_below(1) by (auto simp: storable_below_def sample_genesis_def intro!: empty_block_fits)
  obtain db' where db': "db_push sample_settings sample_genesis db = Returns db'" "represents sample_settings db' ([] @ [sample_genesis])"
    by (rule push_represents [OF db(1) genesis(2,1)])
  have next_height: "get_next_height (db_blocks db) = 0" using db(3) by (simp add: get_next_height_def block_top_def)
  have key: "table_key_size (block_map (db_blocks db)) = 32" using db(1) by (auto simp: represents_def blocks_hold_def)
  have push: "db' = synchronize (db\<lparr>db_blocks := block_store sample_genesis 0 (db_blocks db)\<rparr>)"
    using db'(1) by (simp add: db_push_def push_at_def next_height sample_genesis_def)
  obtain p t where run: "slab_store (header_hash sample_header) (block_value 0 sample_genesis) 156 (block_map (db_blocks db)) = (p, t)" by fastforce
  have "payload t = 8 + of_nat (40 + 156)"
    using slab_store_result(5) [OF _ run] key db(2) by (simp add: value_begin_def header_hash_def)
  moreover have "block_map (db_blocks db') = slab_table_sync t"
    using run by (simp add: push synchronize_def block_sync_def block_store_def Let_def sample_genesis_def)
  ultimately have "unat (payload (block_map (db_blocks db'))) < 1000"
    by (simp add: slab_table_sync_def slab_sync_def write_size_def)
  moreover have "record_count (block_index (db_blocks db')) = 1"
    using db'(2) by (auto simp: represents_def blocks_hold_def index_holds_def)
  ultimately have "block_fits sample_settings sample_orphan db'" by (intro empty_block_fits) (simp_all add: sample_orphan_def)
  then show ?thesis using db'(2) that by simp
qed

lemma sample_forked:
  assumes "represents sample_settings db [sample_genesis]"
  shows "organized (database_holds sample_settings 91842) (storable_below 91842) (sample_organizer db) [sample_genesis]"
  using assms sample_storable_below
  by (simp add: organized_def database_holds_def sample_organizer_def linked_def pointers_valid_def orphan_pool_create_def new_detail_def)

lemma sample_height:
  assumes "represents sample_settings db [sample_genesis]"
  shows "get_height db (header_hash sample_header) = Returns (Some 0)"
  unfolding get_height_answer [OF assms] by (simp add: newest_def sample_genesis_def)

lemma sample_replaces:
  assumes "represents sample_settings db [sample_genesis]" "block_fits sample_settings sample_orphan db"
  shows "\<exists>st. replace_chain (database_chain sample_settings 91842) rules 0 [0] (sample_organizer db) = Returns ([0], st)"
proof -
  have holds: "database_holds sample_settings 91842 db [sample_genesis]" using assms(1) by (simp add: database_holds_def)
  have difficulty: "get_difficulty db 1 = Returns (Some 0)"
    using database.difficulty_above [OF holds, of 0] by (simp add: database_chain_def work_def)
  have pop: "pop_from sample_settings 1 db = Returns (Some [], db)"
    using represents_top [OF assms(1)] by (simp add: pop_from_def)
  have "get_next_height (db_blocks db) = 1" using get_next_height_holds [of "db_blocks db" "[sample_genesis]"] assms(1) by (simp add: represents_def)
  moreover have "storable (length [sample_genesis]) sample_orphan" using sample_storable_below(2) by (simp add: storable_below_def)
  then obtain db' where "db_push sample_settings sample_orphan db = Returns db'"
    by (rule push_represents [OF assms(1) _ assms(2)])
  ultimately have push: "impl_push sample_settings 91842 sample_orphan db = Returns db'" using assms(2) by (simp add: impl_push_def)
  have bits: "hdr_bits (block_header sample_orphan) = 1" by (simp add: sample_orphan_def sample_header_def)
  show ?thesis
    using difficulty pop push bits
    by (simp add: replace_chain_def Let_def sample_organizer_def database_chain_def delete_fork_chain_hash_def block_work_def
        set_height_def update_detail_def new_detail_def)
qed

section \<open>Properties\<close>

text \<open>
  C3: The chain is replaced exactly by more work. When \<open>replace_chain\<close> returns on a database that holds a chain, with a
  fork point in it and a chain of orphans, then the database holds the blocks up to the fork point and the orphans that
  passed the verification if these have more work than the blocks above the fork point, where the work is the sum of the
  difficulties modulo \<open>2 ^ 256\<close>; and otherwise the database is unchanged.
\<close>

theorem replace_chain_switches:
  assumes "replace_chain (database_chain settings limit) rules fork_index orphan_chain st = Returns (verified, st')"
    "database_holds settings limit (organizer_chain st) bs" "unat fork_index < length bs"
    "pointers_valid st" "set orphan_chain \<subseteq> {..<length (organizer_details st)}"
    "\<forall>b \<in> set (blocks_at (organizer_details st) orphan_chain). storable_below limit b"
  shows "if verified \<noteq> [] \<and> work (drop (Suc (unat fork_index)) bs) < work (blocks_at (organizer_details st) verified)
    then database_holds settings limit (organizer_chain st')
      (take (Suc (unat fork_index)) bs @ blocks_at (organizer_details st) verified)
    else organizer_chain st' = organizer_chain st"
  by (rule database.replace_chain_held [OF assms])

theorem replace_chain_switches_witness:
  "\<forall>rules. \<exists>db st. represents sample_settings db [sample_genesis] \<and>
     replace_chain (database_chain sample_settings 91842) rules 0 [0] (sample_organizer db) = Returns ([0], st) \<and>
     represents sample_settings (organizer_chain st) [sample_genesis, sample_orphan]"
proof
  fix rules
  obtain db where db: "represents sample_settings db [sample_genesis]" "block_fits sample_settings sample_orphan db"
    by (rule sample_fork_database)
  obtain st where st: "replace_chain (database_chain sample_settings 91842) rules 0 [0] (sample_organizer db) = Returns ([0], st)"
    using sample_replaces [OF db] by blast
  have block: "blocks_at (organizer_details (sample_organizer db)) [0] = [sample_orphan]" by (simp add: sample_organizer_def new_detail_def)
  have "database_holds sample_settings 91842 (organizer_chain st) [sample_genesis, sample_orphan]"
    using replace_chain_switches [OF st, of "[sample_genesis]"] db(1) sample_storable_below block sample_forked [OF db(1)]
    by (simp add: database_holds_def organized_def work_def block_work_def sample_orphan_def sample_header_def sample_organizer_def)
  then show "\<exists>db st. represents sample_settings db [sample_genesis] \<and>
     replace_chain (database_chain sample_settings 91842) rules 0 [0] (sample_organizer db) = Returns ([0], st) \<and>
     represents sample_settings (organizer_chain st) [sample_genesis, sample_orphan]"
    using db(1) st by (auto simp: database_holds_def)
qed



end
