(* ===== verification/Spec2Isabelle.thy ===== *)
theory Spec2Isabelle
  imports Engine_Limits Engine_Templates Chain_Wire Hash_Vectors Organized_Database
begin

text \<open>
  \<^bold>\<open>A verification development of the Metaverse node.\<close> Metaverse is a node of a block chain, derived from
  libbitcoin: coins (ETP) and user-issued assets move by transactions, whose outputs are guarded by scripts, and blocks of
  transactions form a chain by proof of work. This development models the part of the sources that decides what the chain is: the
  formats, the script language, the validation of transactions and blocks, the memory pool, the database and the organizer.
  File names are relative to \<open>src/lib\<close> of the repository unless they begin with \<open>include\<close>.

  \<^bold>\<open>How the parts interact.\<close> A block or transaction arrives as bytes and is read into the chain objects. A
  transaction goes to the memory pool when the validator accepts it against the stored chain and the pool. A block goes to the organizer
  (\<open>do_store\<close>), which keeps it with the other orphans, traces the chain of orphans it ends, verifies the orphans against the database
  (check, accept, connect, where the script engine checks every input) and, if they have more work than the blocks above their fork
  point, pops these from the database and pushes the orphans. The database is a set of hash tables in mapped files.

  \<^bold>\<open>Conventions.\<close> Machine integers are words of their width; sizes and loop counters of type \<open>size_t\<close> that are bounded by
  the length of a container are natural numbers. A reader is a state transformer (\<open>State_Monad\<close>) over the bytes that are left and the state of
  the stream. An operation that may show undefined behaviour, throw or not return has the type \<open>outcome\<close>: \<open>Returns x\<close> is a
  normal return and \<open>Abnormal\<close> everything else. Loops are recursive functions with a proof of termination, or
  \<open>partial_function\<close>s whose end is proved separately where the source can run forever (\<open>clear_block_db\<close>, \<open>pop_loop\<close>,
  \<open>trace_loop\<close>). The only fuel is the number of pending blocks in \<open>delete_pending\<close>: every round removes one of them.
  Libraries that are not part of the sources are arguments: the curve library \<open>secp256k1\<close> is a record of functions, and
  properties that need more of it than its types say so in named hypotheses.

  \<^bold>\<open>Formats.\<close>
  \<^item> \<open>Prelude\<close> (types, collections of rewrite rules), \<open>Byte_Streams\<close> (\<open>bitcoin/utility/istream_reader.cpp\<close>,
    \<open>ostream_writer.cpp\<close>, \<open>endian.ipp\<close>) and \<open>Codec\<close>, with the locale \<open>wire_object\<close>: a reader and a writer that invert
    one another, whatever bytes follow, and no proper prefix of an encoding is read. The chain objects are interpretations of it.
  \<^item> \<open>Script_Number\<close>, \<open>Operation\<close>, \<open>Script\<close> (\<open>bitcoin/math/script_number.cpp\<close>, \<open>bitcoin/chain/script\<close>):
    numbers, opcodes, payment templates, parsing and writing of scripts. The lemmas give round trips and the exact scripts that lose bytes.
  \<^item> \<open>Attachment\<close> (\<open>bitcoin/chain/attachment\<close>), \<open>Chain\<close> and \<open>Chain_Wire\<close> (\<open>bitcoin/chain\<close>: point, input, output,
    transaction, header, block): wire formats, sizes, hashes and the Merkle tree, with round trips, sizes and what a Merkle root binds.
  \<^item> \<open>Hashes\<close>, \<open>Hash_Vectors\<close> (\<open>bitcoin/math/hash.cpp\<close>, \<open>math/external\<close>): SHA-256, RIPEMD-160 and SHA-1. The
    locale \<open>streaming_digest\<close> shows that the buffered routines compute the digest of the whole input.
  \<^item> \<open>Base58\<close>, \<open>Payment_Address\<close> (\<open>bitcoin/formats/base_58.cpp\<close>, \<open>bitcoin/wallet/payment_address.cpp\<close>): the text
    of an address reads back as the address.

  \<^bold>\<open>The script engine.\<close> \<open>Signatures\<close>, \<open>Evaluation\<close> and \<open>Script_Engine\<close> model \<open>bitcoin/math/elliptic_curve.cpp\<close> and the
  evaluating half of \<open>script.cpp\<close>: one definition per operation, the dispatch, the loop, the signature hash and \<open>verify_script\<close>.
  \<open>Engine_Limits\<close> shows for every script that the limits are kept and that, without signature and lock-time checks, the
  engine ends normally. \<open>Engine_Templates\<close> gives the exact verdict on the standard payments, the meaning of the multisignature loop, and
  that an endorsement the program makes is accepted.

  \<^bold>\<open>Validation and the memory pool.\<close> \<open>Chain_Interface\<close> has the error codes, constants and the record of queries on the stored chain.
  \<open>Transaction_Pool\<close> and \<open>Validate_Transaction\<close> model \<open>blockchain/transaction_pool.cpp\<close> and \<open>validate_transaction.cpp\<close>:
  what deletions remove, that no two transactions of the pool spend the same output, and that an accepted transaction creates no
  money; two properties show the gaps: an output spent twice by one transaction and assets made from nothing.
  \<open>Validate_Block\<close> models \<open>validate_block.cpp\<close>, \<open>validate_block_impl.cpp\<close>, the difficulty of \<open>libdevcore/BasicType.cpp\<close> and
  the checkpoints: a block that connects spends no output twice and pays out no more than the subsidy and what it spends.

  \<^bold>\<open>The database.\<close> \<open>Bucket_Chains\<close>, \<open>Slab_Table\<close> and \<open>Record_Table\<close> model \<open>database/primitives\<close>: files are
  functions from positions to bytes, and the locales \<open>chain_walk\<close>, \<open>bucket_table\<close>, \<open>stack_map\<close> and \<open>keyed_store\<close> carry
  the proof that every sequence of operations behaves as a stack of values per key. \<open>Databases\<close> and \<open>Data_Base\<close> model
  \<open>database/databases\<close> and \<open>data_base.cpp\<close>. \<open>Chain_Store\<close> and \<open>Chain_Database\<close> say what a database means:
  \<open>represents settings db bs\<close> holds when the tables have exactly the rows of the blocks \<open>bs\<close>, and \<open>push\<close> and \<open>pop\<close> are
  appending and removing the last block. \<open>Block_Chain\<close> (\<open>blockchain/block_chain_impl.cpp\<close>) shows that the queries
  answer from this list, and has \<open>pop_from\<close> and \<open>clear_block_db\<close>. The assumption \<open>block_fits\<close> is the bound of the files: positions
  stay below \<open>2 ^ 64\<close> and record numbers below \<open>2 ^ 32\<close>; \<open>storable\<close> is the well-formedness of a block, with the sizes of its
  attachments reported truly and two excepted Bitcoin blocks left out.

  \<^bold>\<open>The organizer.\<close> \<open>Orphan_Pool\<close> and \<open>Organizer\<close> model \<open>blockchain/block_detail.cpp\<close>, \<open>orphan_pool.cpp\<close> and
  \<open>organizer.cpp\<close> over the interface \<open>simple_chain\<close>: shared block details are a list, pointers are positions in it. Its loops
  terminate, and when \<open>do_store\<close> returns every orphan has been processed. \<open>Organized_Chain\<close> has the contract of the interface as the
  locale \<open>organized_chain\<close> and proves there, once, that the chain stays linked and is replaced only by more work;
  \<open>Organized_Database\<close> interprets it on the database. The height limit of \<open>database_chain\<close> is arbitrary in the
  theorems; a push beyond it, or without room, is \<open>Abnormal\<close>. The work is summed modulo \<open>2 ^ 256\<close>, as in the source.

  \<^bold>\<open>Not modelled.\<close> Threads and locks: an operation runs to its end before the next one, callbacks are called directly, and what is posted
  to other threads is collected in lists. Log messages and textual output. The mapped files themselves (\<open>memory_map.cpp\<close>: system calls), with
  failures to grow them. The evaluation of the ethash seal and the two rewards, which the sources compute with \<open>double\<close>: they are
  arguments of the block validation. The mining loop, the account databases and the wallet beyond addresses, because they rest on
  random numbers, ciphers and the curve library. The peer-to-peer network, the node's sessions, the command line, the query server and the clients: they are
  input and output around the parts above. The interpreter cloned from the reference client, which a build option selects instead of
  the program's own engine. Bundled libraries are called, not modelled. Each definition of a loop inside a function, and the one-line
  primitives of the hash functions, belong to the function that contains them and have no line range of their own in the manifest.
\<close>

end
